(* ===== verification/Prelude.thy ===== *)
theory Prelude
  imports Main "HOL-Library.Word"
begin

text \<open>
  Shared vocabulary of the development: machine integers at their width, the standard
  library's saturating arithmetic, little-endian byte encodings of 64-bit words, and the
  generic facts on residues, words, lists and maps that the component theories use.
  \<open>u8\<close>, \<open>u16\<close>, \<open>u32\<close>, \<open>u64\<close> are words whose \<open>+\<close> and \<open>-\<close> wrap, as Rust's
  operators do in the release profile; \<open>usize\<close> and \<open>u64\<close> coincide on the targets of the
  program (64-bit Linux).
\<close>

unbundle bit_operations_syntax

type_synonym u8 = "8 word"
type_synonym u16 = "16 word"
type_synonym u32 = "32 word"
type_synonym u64 = "64 word"
type_synonym usize = "64 word"
type_synonym i32 = "32 word"
type_synonym i64 = "64 word"
type_synonym bytes = "8 word list"
type_synonym errno = int

named_theorems ring_defs \<open>definitions of the ring buffer's shared-memory accesses\<close>
named_theorems step_defs \<open>definitions of the atomic steps of the state machines\<close>

section \<open>Saturating arithmetic\<close>

definition saturating_sub :: "'a::len word \<Rightarrow> 'a word \<Rightarrow> 'a word" where
  "saturating_sub a b = (if b \<le> a then a - b else 0)"

definition saturating_add :: "'a::len word \<Rightarrow> 'a word \<Rightarrow> 'a word" where
  "saturating_add a b = (if unat a + unat b < 2 ^ LENGTH('a) then a + b else - 1)"

lemma unat_saturating_sub [simp]: "unat (saturating_sub a b) = unat a - unat b"
  by (auto simp: saturating_sub_def unat_sub word_le_nat_alt)

lemma unat_saturating_add:
  "unat (saturating_add a b) = min (unat a + unat b) (2 ^ LENGTH('a) - 1)"
  for a b :: "'a::len word"
  by (auto simp: saturating_add_def unat_word_ariths unsigned_minus_1_eq_mask mask_eq_exp_minus_1 min_def)

lemma saturating_sub_self [simp]: "saturating_sub a a = 0"
  by (simp add: saturating_sub_def)

lemma saturating_sub_0 [simp]: "saturating_sub a 0 = a"
  by (simp add: saturating_sub_def)

section \<open>Words as bounded naturals\<close>

lemma unat_add_small:
  "unat a + unat b < 2 ^ LENGTH('a) \<Longrightarrow> unat (a + b) = unat a + unat b"
  for a b :: "'a::len word"
  by (simp add: unat_word_ariths)

lemma unat_sub_small: "unat b \<le> unat a \<Longrightarrow> unat (a - b) = unat a - unat b"
  for a b :: "'a::len word"
  by (simp add: unat_sub word_le_nat_alt)

lemma unat_of_nat_small: "n < 2 ^ LENGTH('a) \<Longrightarrow> unat (of_nat n :: 'a::len word) = n"
  by (simp only: unsigned_of_nat take_bit_nat_eq_self of_nat_id)

lemma of_nat_word_inj:
  "\<lbrakk>(of_nat a :: 'a::len word) = of_nat b; a < 2 ^ LENGTH('a); b < 2 ^ LENGTH('a)\<rbrakk> \<Longrightarrow> a = b"
  using unat_of_nat_small [of a, where 'a = 'a] unat_of_nat_small [of b, where 'a = 'a] by argo

lemma unat_u32_to_u64 [simp]: "unat (ucast (x :: u32) :: u64) = unat x"
proof -
  have "unat x < 2 ^ LENGTH(32)" by (rule unsigned_less)
  also have "(2 :: nat) ^ LENGTH(32) \<le> 2 ^ LENGTH(64)" by (intro power_increasing) simp_all
  finally show ?thesis by (simp only: unsigned_ucast_eq take_bit_nat_eq_self)
qed

section \<open>Residues\<close>

text \<open>
  Two absolute positions closer than the modulus share a residue only if they are equal:
  the fact behind every non-overlap argument about a circular buffer.
\<close>

lemma mod_eq_close:
  fixes x y d :: nat
  assumes "x mod d = y mod d" and "x < y + d" and "y < x + d"
  shows "x = y"
proof -
  have "int d dvd int x - int y"
    using assms(1) by (metis mod_eq_dvd_iff zmod_int)
  moreover have "\<bar>int x - int y\<bar> < int d"
    using assms(2,3) by linarith
  ultimately show ?thesis
    by (metis abs_dvd_iff dvd_imp_le_int eq_iff_diff_eq_0 linorder_not_less nat_int abs_of_nat)
qed

section \<open>Little-endian encoding of 64-bit words\<close>

definition bytes_of_u64 :: "u64 \<Rightarrow> bytes" where
  "bytes_of_u64 w = map (\<lambda>i. ucast (drop_bit (8 * i) w)) [0..<8]"

definition u64_of_bytes :: "bytes \<Rightarrow> u64" where
  "u64_of_bytes bs = foldr (\<lambda>b acc. ucast b OR push_bit 8 acc) bs 0"

lemma length_bytes_of_u64 [simp]: "length (bytes_of_u64 w) = 8"
  by (simp add: bytes_of_u64_def)

lemma bit_u64_of_bytes:
  "bit (u64_of_bytes bs) n \<longleftrightarrow> n < 64 \<and> n div 8 < length bs \<and> bit (bs ! (n div 8)) (n mod 8)"
proof (induction bs arbitrary: n)
  case Nil
  then show ?case by (simp add: u64_of_bytes_def)
next
  case (Cons b bs)
  have step: "u64_of_bytes (b # bs) = ucast b OR push_bit 8 (u64_of_bytes bs)"
    by (simp add: u64_of_bytes_def)
  show ?case
  proof (cases "n < 8")
    case True
    then show ?thesis by (auto simp: step bit_simps)
  next
    case False
    then obtain m where m: "n = m + 8"
      by (metis add.commute le_Suc_ex not_less)
    then have "n div 8 = Suc (m div 8)" and "n mod 8 = m mod 8" by simp_all
    moreover have "\<not> bit b n"
      using False by (auto dest: bit_imp_le_length)
    ultimately show ?thesis
      using m by (auto simp: step Cons.IH bit_simps)
  qed
qed

lemma u64_of_bytes_of_u64 [simp]: "u64_of_bytes (bytes_of_u64 w) = w"
proof (rule bit_word_eqI)
  fix n
  assume "n < LENGTH(64)"
  then have "n < 64" and "n div 8 < 8" by auto
  moreover have "n div 8 * 8 + n mod 8 = n" by simp
  ultimately show "bit (u64_of_bytes (bytes_of_u64 w)) n = bit w n"
    by (auto simp: bit_u64_of_bytes bytes_of_u64_def bit_simps mult.commute)
qed

section \<open>Simulation between step relations\<close>

text \<open>
  The contract between a detailed step relation and its specification: related states stay
  related, one detailed step matching one specification step. Reachability then carries over.
\<close>

locale step_simulation =
  fixes cinit :: "'c \<Rightarrow> bool" and cstep :: "'c \<Rightarrow> 'c \<Rightarrow> bool"
    and ainit :: "'a \<Rightarrow> bool" and astep :: "'a \<Rightarrow> 'a \<Rightarrow> bool"
    and rel :: "'c \<Rightarrow> 'a \<Rightarrow> bool"
  assumes init_rel: "cinit c \<Longrightarrow> \<exists>a. ainit a \<and> rel c a"
    and step_rel: "\<lbrakk>rel c a; cstep c c'\<rbrakk> \<Longrightarrow> \<exists>a'. astep a a' \<and> rel c' a'"
begin

lemma steps_rel: "\<lbrakk>cstep\<^sup>*\<^sup>* c c'; rel c a\<rbrakk> \<Longrightarrow> \<exists>a'. astep\<^sup>*\<^sup>* a a' \<and> rel c' a'"
proof (induction rule: rtranclp_induct)
  case (step y z)
  then show ?case using step_rel by (meson rtranclp.rtrancl_into_rtrancl)
qed auto

lemma reach_rel: "\<lbrakk>cinit c; cstep\<^sup>*\<^sup>* c c'\<rbrakk> \<Longrightarrow> \<exists>a a'. ainit a \<and> astep\<^sup>*\<^sup>* a a' \<and> rel c' a'"
  using init_rel steps_rel by blast

lemma reach_transfer:
  assumes "cinit c" "cstep\<^sup>*\<^sup>* c c'"
    and "\<And>a a'. \<lbrakk>ainit a; astep\<^sup>*\<^sup>* a a'; rel c' a'\<rbrakk> \<Longrightarrow> P c'"
  shows "P c'"
  using reach_rel [OF assms(1,2)] assms(3) by blast

end

section \<open>Fallible state-changing code\<close>

text \<open>A function that may fail and keeps the state it reached: \<open>bindE\<close> is the operator \<open>?\<close>.\<close>

type_synonym ('s, 'e, 'a) comp = "'s \<Rightarrow> ('e + 'a) \<times> 's"

definition returnE :: "'a \<Rightarrow> ('s, 'e, 'a) comp" where
  "returnE a s = (Inr a, s)"

definition failE :: "'e \<Rightarrow> ('s, 'e, 'a) comp" where
  "failE e s = (Inl e, s)"

definition bindE :: "('s, 'e, 'a) comp \<Rightarrow> ('a \<Rightarrow> ('s, 'e, 'b) comp) \<Rightarrow> ('s, 'e, 'b) comp" where
  "bindE m k s = (case m s of (Inl e, s') \<Rightarrow> (Inl e, s') | (Inr a, s') \<Rightarrow> k a s')"

lemma bindE_simps [simp]:
  "m s = (Inr a, s') \<Longrightarrow> bindE m k s = k a s'" "m s = (Inl e, s') \<Longrightarrow> bindE m k s = (Inl e, s')"
  by (simp_all add: bindE_def)

text \<open>
  Correctness triples with two postconditions: \<open>Q\<close> of the result and the state on success,
  \<open>E\<close> of the state on failure.
\<close>

definition hoareE :: "('s \<Rightarrow> bool) \<Rightarrow> ('s, 'e, 'a) comp \<Rightarrow> ('a \<Rightarrow> 's \<Rightarrow> bool) \<Rightarrow> ('s \<Rightarrow> bool) \<Rightarrow> bool" where
  "hoareE P m Q E \<longleftrightarrow> (\<forall>s. P s \<longrightarrow> (case m s of (Inr a, s') \<Rightarrow> Q a s' | (Inl e, s') \<Rightarrow> E s'))"

lemma hoareE_returnE: "(\<And>s. P s \<Longrightarrow> Q a s) \<Longrightarrow> hoareE P (returnE a) Q E"
  by (simp add: hoareE_def returnE_def)

lemma hoareE_bindE:
  assumes "hoareE P m R E" and "\<And>a. hoareE (R a) (k a) Q E"
  shows "hoareE P (bindE m k) Q E"
  unfolding hoareE_def
proof (intro allI impI)
  fix s
  assume "P s"
  with assms(1) have m: "case m s of (Inr a, s') \<Rightarrow> R a s' | (Inl e, s') \<Rightarrow> E s'" by (simp add: hoareE_def)
  show "case bindE m k s of (Inr a, s') \<Rightarrow> Q a s' | (Inl e, s') \<Rightarrow> E s'"
  proof (cases "m s")
    case (Pair r s')
    then show ?thesis
      using m assms(2) by (cases r) (auto simp: hoareE_def bindE_def)
  qed
qed

lemma hoareE_weaken:
  assumes "hoareE P' m Q' E'" "\<And>s. P s \<Longrightarrow> P' s" "\<And>a s. Q' a s \<Longrightarrow> Q a s" "\<And>s. E' s \<Longrightarrow> E s"
  shows "hoareE P m Q E"
  unfolding hoareE_def
proof (intro allI impI)
  fix s
  assume "P s"
  then have "case m s of (Inr a, s') \<Rightarrow> Q' a s' | (Inl e, s') \<Rightarrow> E' s'"
    using assms(1,2) by (simp add: hoareE_def)
  then show "case m s of (Inr a, s') \<Rightarrow> Q a s' | (Inl e, s') \<Rightarrow> E s'"
    using assms(3,4) by (cases "m s"; cases "fst (m s)") auto
qed

text \<open>Proving a triple state by state, where the code first inspects the state.\<close>

lemma hoareE_at: "(\<And>s. P s \<Longrightarrow> hoareE ((=) s) m Q E) \<Longrightarrow> hoareE P m Q E"
  by (simp add: hoareE_def)

lemma hoareE_case: "\<lbrakk>hoareE P' m' Q E; P' s; m s = m' s\<rbrakk> \<Longrightarrow> hoareE ((=) s) m Q E"
  by (simp add: hoareE_def)

lemma hoareE_pre: "hoareE P' m Q E \<Longrightarrow> (\<And>s. P s \<Longrightarrow> P' s) \<Longrightarrow> hoareE P m Q E"
  by (simp add: hoareE_def)

lemma hoareE_disj: "\<lbrakk>hoareE P m Q E; hoareE P' m Q E\<rbrakk> \<Longrightarrow> hoareE (\<lambda>s. P s \<or> P' s) m Q E"
  by (simp add: hoareE_def)

lemma hoareE_snd:
  assumes "hoareE P m (\<lambda>_. Q) Q" "P s"
  shows "Q (snd (m s))"
  using assms by (cases "m s"; cases "fst (m s)") (auto simp: hoareE_def)

text \<open>State predicates that every outcome of a computation keeps.\<close>

lemma keeps_bindE:
  assumes "I s" "\<And>s. I s \<Longrightarrow> I (snd (m s))" "\<And>a s. I s \<Longrightarrow> I (snd (k a s))"
  shows "I (snd (bindE m k s))"
  using assms(2) [OF assms(1)] assms(3) by (cases "m s"; cases "fst (m s)") (auto simp: bindE_def)

lemma keeps_returnE: "I s \<Longrightarrow> I (snd (returnE a s))"
  by (simp add: returnE_def)

section \<open>Maps\<close>

text \<open>Tables whose later entries replace earlier ones, when entries for one key agree.\<close>

lemma map_of_rev_unique:
  assumes "x \<in> set xs" and "\<And>y. y \<in> set xs \<Longrightarrow> f y = f x \<Longrightarrow> g y = g x"
  shows "map_of (rev (map (\<lambda>y. (f y, g y)) xs)) (f x) = Some (g x)"
proof -
  have "f x \<in> fst ` set (rev (map (\<lambda>y. (f y, g y)) xs))" using assms(1) by force
  then obtain v where v: "map_of (rev (map (\<lambda>y. (f y, g y)) xs)) (f x) = Some v"
    by (metis domD dom_map_of_conv_image_fst)
  from map_of_SomeD [OF v] obtain y where "y \<in> set xs" "f y = f x" "g y = v" by auto
  with assms(2) v show ?thesis by auto
qed

lemma list_all2_map_Some: "list_all2 (\<lambda>i a. f i = Some a) is as \<Longrightarrow> map f is = map Some as"
  by (induction rule: list_all2_induct) simp_all

lemma those_map_Some: "list_all2 (\<lambda>i a. f i = Some a) is as \<Longrightarrow> those (map f is) = Some as"
  by (induction rule: list_all2_induct) simp_all

lemma ran_upd_subset: "ran (m(k \<mapsto> v)) \<subseteq> insert v (ran m)"
  by (auto simp: ran_def split: if_splits)

end
