(* ===== verification/Mpsc_Common.thy ===== *)
theory Mpsc_Common
  imports Prelude
begin

text \<open>
  \<^verbatim>\<open>mpscbuf/src/common.rs\<close>, \<^verbatim>\<open>error.rs\<close> and \<^verbatim>\<open>consumer.rs::round_up_to_8\<close>: the error values of
  the ring buffer, the shared metadata, and the 64-bit record header (length in the low
  half, \<open>BUSY\<close> and \<open>DISCARD\<close> flags in the high half). The lemmas give the header
  operations' effect on the two halves, which is all the rest of the development uses.
\<close>

section \<open>Errors and metadata\<close>

datatype mpsc_buf_error =
    SizeTooSmall usize
  | SizeNotAligned usize
  | MmapFailed errno
  | MprotectFailed errno
  | InsufficientSpace u64 u64 u64
  | InvalidRecordSize usize
  | EventfdCreation string
  | EventfdWrite string
  | EventfdRead string
  | IoError errno
  | LockTimeout

record metadata =
  spinlock :: bool
  producer :: u64
  consumer :: u64
  dropped :: u64

definition metadata_new :: metadata where
  "metadata_new = \<lparr>spinlock = False, producer = 0, consumer = 0, dropped = 0\<rparr>"

section \<open>Record headers\<close>

definition BUSY_FLAG :: u32 where "BUSY_FLAG = push_bit 31 1"
definition DISCARD_FLAG :: u32 where "DISCARD_FLAG = push_bit 30 1"
definition HEADER_SIZE :: usize where "HEADER_SIZE = 8"

definition header_new :: "u32 \<Rightarrow> u64" where
  "header_new len = (ucast len :: u64) OR push_bit 32 (ucast BUSY_FLAG)"

definition header_discard :: "u64 \<Rightarrow> u64" where
  "header_discard current =
     (let len = (ucast current :: u32)
      in (ucast len :: u64) OR push_bit 32 (ucast DISCARD_FLAG))"

definition header_commit :: "u64 \<Rightarrow> u64" where
  "header_commit current = (let len = (ucast current :: u32) in ucast len)"

definition header_is_discarded :: "u64 \<Rightarrow> bool" where
  "header_is_discarded current =
     (let flags = (ucast (drop_bit 32 current) :: u32) in flags AND DISCARD_FLAG \<noteq> 0)"

definition header_len_and_flags :: "u64 \<Rightarrow> u32 \<times> u32" where
  "header_len_and_flags current = (ucast current, ucast (drop_bit 32 current))"

lemma header_split:
  "(ucast ((ucast len :: u64) OR push_bit 32 (ucast flags)) :: u32) = len"
  "(ucast (drop_bit 32 ((ucast len :: u64) OR push_bit 32 (ucast flags))) :: u32) = flags"
  for len flags :: u32
  by (rule bit_word_eqI; auto simp: bit_simps dest: bit_imp_le_length)+

lemma header_len_and_flags_new [simp]: "header_len_and_flags (header_new len) = (len, BUSY_FLAG)"
  by (simp only: header_len_and_flags_def header_new_def header_split)

lemma header_len_and_flags_discard [simp]:
  "header_len_and_flags (header_discard h) = (fst (header_len_and_flags h), DISCARD_FLAG)"
  by (simp only: header_len_and_flags_def header_discard_def header_split Let_def fst_conv)

lemma header_len_and_flags_commit [simp]:
  "header_len_and_flags (header_commit h) = (fst (header_len_and_flags h), 0)"
  using header_split [of "ucast h" 0] by (simp add: header_len_and_flags_def header_commit_def)

lemma flag_facts [simp]:
  "BUSY_FLAG \<noteq> 0" "DISCARD_FLAG \<noteq> 0" "BUSY_FLAG \<noteq> DISCARD_FLAG"
  "BUSY_FLAG AND BUSY_FLAG = BUSY_FLAG" "DISCARD_FLAG AND DISCARD_FLAG = DISCARD_FLAG"
  "BUSY_FLAG AND DISCARD_FLAG = 0" "DISCARD_FLAG AND BUSY_FLAG = 0"
  by (simp_all add: BUSY_FLAG_def DISCARD_FLAG_def)

lemma header_is_discarded_iff:
  "header_is_discarded h \<longleftrightarrow> snd (header_len_and_flags h) AND DISCARD_FLAG \<noteq> 0"
  by (simp add: header_is_discarded_def header_len_and_flags_def)

section \<open>Record sizes\<close>

definition div_ceil :: "usize \<Rightarrow> usize \<Rightarrow> usize" where
  "div_ceil a b = (if a mod b > 0 then a div b + 1 else a div b)"

definition round_up_to_8 :: "usize \<Rightarrow> usize" where
  "round_up_to_8 len = div_ceil len 8 * 8"

text \<open>The same rounding on natural numbers, for sizes that do not overflow.\<close>

definition round8 :: "nat \<Rightarrow> nat" where
  "round8 n = (n + 7) div 8 * 8"

definition total_size :: "nat \<Rightarrow> nat" where
  "total_size n = round8 (n + 8)"

lemma round8_bounds: "n \<le> round8 n" "round8 n < n + 8" "8 dvd round8 n"
  by (auto simp: round8_def)

lemma total_size_bounds: "n + 8 \<le> total_size n" "8 dvd total_size n" "0 < total_size n"
proof -
  show "n + 8 \<le> total_size n" "8 dvd total_size n"
    using round8_bounds [of "n + 8"] by (auto simp: total_size_def)
  then show "0 < total_size n" by linarith
qed

lemmas [simp] = total_size_bounds(2,3)

lemma total_size_less: "total_size n < n + 16"
  using round8_bounds(2) [of "n + 8"] by (simp add: total_size_def)

lemma unat_div_ceil8: "unat (div_ceil x 8) = (unat x + 7) div 8"
proof -
  have "unat x < 2 ^ 64" using unsigned_less [of x, where ?'a = nat] by simp
  then have small: "unat (x div 8) + 1 < 2 ^ 64"
    by (simp add: unat_div)
  have "0 < x mod 8 \<longleftrightarrow> 0 < unat x mod 8"
    by (simp add: word_less_nat_alt unat_mod)
  moreover have "unat (x div 8 + 1) = unat x div 8 + 1"
    using small by (simp add: unat_add_small unat_div)
  ultimately show ?thesis
    by (auto simp: div_ceil_def unat_div) (presburger | linarith)+
qed

lemma unat_round_up_to_8:
  assumes "unat x + 7 < 2 ^ 64"
  shows "unat (round_up_to_8 x) = round8 (unat x)"
proof -
  have "(unat x + 7) div 8 * 8 < 2 ^ 64" using assms by linarith
  then show ?thesis
    by (simp add: round_up_to_8_def round8_def unat_word_ariths unat_div_ceil8)
qed

lemma unat_total_size:
  assumes "unat x + 15 < 2 ^ 64"
  shows "unat (round_up_to_8 (x + HEADER_SIZE)) = total_size (unat x)"
proof -
  have "unat (x + HEADER_SIZE) = unat x + 8"
    using assms by (simp add: HEADER_SIZE_def unat_add_small)
  with assms show ?thesis
    by (simp add: unat_round_up_to_8 total_size_def)
qed

end
