(* ===== verification/Mpsc_Memory.thy ===== *)
theory Mpsc_Memory
  imports Mpsc_Common
begin

text \<open>
  \<^verbatim>\<open>mpscbuf/src/memory.rs\<close>: the shared memory file and its address-space layout. The data
  area is mapped twice in a row, so that a record that runs over the end of the area is
  contiguous in virtual memory. The operating system is a parameter (record \<open>os\<close>): the
  results of \<open>memfd_create\<close>, \<open>ftruncate\<close>, \<open>fstat\<close> and the two \<open>mmap\<close> calls.
  \<open>mmap_spec\<close> states what the manual page promises of a successful \<open>MAP_FIXED\<close> mapping.
  An address space maps a virtual address to a file and an offset in it.
\<close>

type_synonym fd = nat
type_synonym aspace = "nat \<Rightarrow> (fd \<times> nat) option"

definition EINVAL :: errno where "EINVAL = 22"
definition ENOMEM :: errno where "ENOMEM = 12"

record os =
  os_page_size :: usize
  os_memfd_create :: "fd option"
  os_ftruncate :: "fd \<Rightarrow> u64 \<Rightarrow> bool"
  os_fstat :: "fd \<Rightarrow> errno option"
  os_mmap_anonymous :: "aspace \<Rightarrow> usize \<Rightarrow> (nat \<times> aspace) option"
  os_mmap :: "aspace \<Rightarrow> nat \<Rightarrow> usize \<Rightarrow> fd \<Rightarrow> usize \<Rightarrow> aspace option"
  os_munmap :: "aspace \<Rightarrow> nat \<Rightarrow> usize \<Rightarrow> aspace"

definition mmap_spec :: "os \<Rightarrow> bool" where
  "mmap_spec os \<longleftrightarrow>
     (\<forall>a addr len f off a'. os_mmap os a addr len f off = Some a' \<longrightarrow>
        (\<forall>v. a' v = (if addr \<le> v \<and> v < addr + unat len
                     then Some (f, unat off + (v - addr)) else a v)))"

record memory =
  mem_ptr :: nat
  mem_data_size :: usize
  mem_page_size :: usize
  mem_fd :: fd

definition is_power_of_two :: "usize \<Rightarrow> bool" where
  "is_power_of_two x \<longleftrightarrow> list_ex (\<lambda>k. x = push_bit k 1) [0..<64]"

definition check_data_size :: "os \<Rightarrow> usize \<Rightarrow> mpsc_buf_error option" where
  "check_data_size os data_size =
     (if \<not> is_power_of_two data_size then Some (SizeNotAligned data_size)
      else if data_size < os_page_size os then Some (SizeTooSmall (os_page_size os))
      else None)"

definition memory_from_fd ::
  "os \<Rightarrow> aspace \<Rightarrow> fd \<Rightarrow> usize \<Rightarrow> (mpsc_buf_error + memory) \<times> aspace" where
  "memory_from_fd os a fd data_size =
     (let page_size = os_page_size os in
      case check_data_size os data_size of Some e \<Rightarrow> (Inl e, a)
      | None \<Rightarrow>
        (let total_size = data_size + page_size;
             total_virtual_size = page_size + 2 * data_size
         in case os_mmap_anonymous os a total_virtual_size of
              None \<Rightarrow> (Inl (MmapFailed ENOMEM), a)
            | Some (ptr, a1) \<Rightarrow>
              (case os_mmap os a1 ptr total_size fd 0 of
                 None \<Rightarrow> (Inl (MmapFailed EINVAL), a1)
               | Some a2 \<Rightarrow>
                 (case os_mmap os a2 (ptr + unat total_size) data_size fd page_size of
                    None \<Rightarrow> (Inl (MmapFailed EINVAL), a2)
                  | Some a3 \<Rightarrow>
                    (Inr \<lparr>mem_ptr = ptr, mem_data_size = data_size,
                          mem_page_size = page_size, mem_fd = fd\<rparr>, a3)))))"

definition memory_new :: "os \<Rightarrow> aspace \<Rightarrow> usize \<Rightarrow> (mpsc_buf_error + memory) \<times> aspace" where
  "memory_new os a data_size =
     (let page_size = os_page_size os in
      case check_data_size os data_size of Some e \<Rightarrow> (Inl e, a)
      | None \<Rightarrow>
        (let total_size = data_size + page_size in
         case os_memfd_create os of None \<Rightarrow> (Inl (MmapFailed ENOMEM), a)
         | Some fd \<Rightarrow>
           (if \<not> os_ftruncate os fd total_size then (Inl (MmapFailed EINVAL), a)
            else memory_from_fd os a fd data_size)))"

definition metadata_ptr :: "memory \<Rightarrow> nat" where
  "metadata_ptr m = mem_ptr m"

definition data_ptr :: "memory \<Rightarrow> nat" where
  "data_ptr m = mem_ptr m + unat (mem_page_size m)"

definition memory_drop :: "os \<Rightarrow> aspace \<Rightarrow> memory \<Rightarrow> aspace" where
  "memory_drop os a m =
     (let total_virtual_size = mem_page_size m + 2 * mem_data_size m
      in os_munmap os a (mem_ptr m) total_virtual_size)"

section \<open>Sizes\<close>

lemma is_power_of_twoE:
  assumes "is_power_of_two x"
  obtains k where "k < 64" and "x = push_bit k 1" and "unat x = 2 ^ k"
proof -
  from assms obtain k where k: "k < 64" "x = push_bit k 1"
    by (auto simp: is_power_of_two_def list_ex_iff)
  then have "unat x = take_bit 64 (push_bit k 1)"
    by (simp only: unsigned_push_bit_eq unsigned_1) simp
  moreover have "(2 :: nat) ^ k < 2 ^ 64"
    using k(1) by (intro power_strict_increasing) simp_all
  ultimately have "unat x = 2 ^ k"
    by (simp add: take_bit_eq_mod)
  with k that show ?thesis by blast
qed

lemma power_two_dvd8:
  assumes "is_power_of_two x" and "8 \<le> unat x"
  shows "8 dvd unat x"
proof -
  from assms(1) obtain k where k: "unat x = 2 ^ k" by (rule is_power_of_twoE)
  with assms(2) have "\<not> k < 3"
    using power_strict_increasing [of k 3 "2 :: nat"] by auto
  then have "(2 :: nat) ^ 3 dvd 2 ^ k" by (intro le_imp_power_dvd) simp
  with k show ?thesis by simp
qed

lemma mask_is_mod:
  assumes "is_power_of_two d"
  shows "unat (pos AND (d - 1)) = unat pos mod unat d"
proof -
  from assms obtain k where k: "k < 64" "d = push_bit k 1" "unat d = 2 ^ k"
    by (rule is_power_of_twoE)
  have "d - 1 = mask k"
    using k(2) by (simp add: mask_eq_exp_minus_1 push_bit_eq_mult)
  then have "pos AND (d - 1) = take_bit k pos"
    by (simp add: take_bit_eq_mask)
  then have "unat (pos AND (d - 1)) = take_bit k (unat pos)"
    by (simp only: unsigned_take_bit_eq)
  then show ?thesis
    using k(3) by (simp add: take_bit_eq_mod)
qed

section \<open>The double mapping\<close>

lemma memory_from_fd_Inr:
  assumes "memory_from_fd os a fd n = (Inr m, a3)"
  shows "check_data_size os n = None"
    and "mem_data_size m = n" "mem_page_size m = os_page_size os" "mem_fd m = fd"
    and "\<exists>a1 a2. os_mmap os a1 (mem_ptr m) (n + os_page_size os) fd 0 = Some a2
           \<and> os_mmap os a2 (mem_ptr m + unat (n + os_page_size os)) n fd (os_page_size os) = Some a3"
  using assms
  by (auto simp: memory_from_fd_def Let_def split: option.splits prod.splits) blast

lemma memory_from_fd_translate:
  assumes spec: "mmap_spec os"
    and ok: "memory_from_fd os a fd n = (Inr m, a3)"
    and small: "unat n + unat (os_page_size os) < 2 ^ 64"
  shows "i < unat n + unat (os_page_size os) \<Longrightarrow> a3 (mem_ptr m + i) = Some (fd, i)"
    and "unat n + unat (os_page_size os) \<le> i \<Longrightarrow> i < 2 * unat n + unat (os_page_size os) \<Longrightarrow>
           a3 (mem_ptr m + i) = Some (fd, i - unat n)"
proof -
  let ?p = "unat (os_page_size os)"
  have tot: "unat (n + os_page_size os) = unat n + ?p"
    using small by (simp add: unat_add_small)
  from memory_from_fd_Inr(5) [OF ok] obtain a1 a2 where
    m1: "os_mmap os a1 (mem_ptr m) (n + os_page_size os) fd 0 = Some a2" and
    m2: "os_mmap os a2 (mem_ptr m + unat (n + os_page_size os)) n fd (os_page_size os) = Some a3"
    by blast
  have a2: "i < unat n + ?p \<Longrightarrow> a2 (mem_ptr m + i) = Some (fd, i)"
    using spec [unfolded mmap_spec_def, rule_format, OF m1, of "mem_ptr m + i"] tot by simp
  have a3: "a3 (mem_ptr m + i) =
      (if unat n + ?p \<le> i \<and> i < 2 * unat n + ?p
       then Some (fd, ?p + (i - (unat n + ?p))) else a2 (mem_ptr m + i))"
    using spec [unfolded mmap_spec_def, rule_format, OF m2, of "mem_ptr m + i"] tot by auto
  show "i < unat n + ?p \<Longrightarrow> a3 (mem_ptr m + i) = Some (fd, i)"
    using a2 a3 by simp
  show "unat n + ?p \<le> i \<Longrightarrow> i < 2 * unat n + ?p \<Longrightarrow> a3 (mem_ptr m + i) = Some (fd, i - unat n)"
    using a3 by simp
qed

text \<open>
  C33: after a successful \<open>Memory::from_fd\<close> the metadata page is mapped once at the start,
  and the byte at offset \<open>i\<close> from \<open>data_ptr\<close>, for every \<open>i\<close> up to twice the data size,
  is the byte \<open>i mod data_size\<close> of the file's data area: an access that runs over the end
  of the area continues at its beginning, and no data access reaches the metadata page.
\<close>

theorem from_fd_double_mapping:
  assumes "mmap_spec os"
    and "memory_from_fd os a fd n = (Inr m, a')"
    and "unat n + unat (os_page_size os) < 2 ^ 64"
    and "0 < os_page_size os"
  shows "(\<forall>i < unat (os_page_size os). a' (metadata_ptr m + i) = Some (fd, i)) \<and>
         (\<forall>i < 2 * unat n. a' (data_ptr m + i) =
            Some (fd, unat (os_page_size os) + i mod unat n))"
proof -
  note tr = memory_from_fd_translate [OF assms(1-3)]
  have page: "mem_page_size m = os_page_size os"
    by (rule memory_from_fd_Inr(3) [OF assms(2)])
  have "a' (data_ptr m + i) = Some (fd, unat (os_page_size os) + i mod unat n)"
    if "i < 2 * unat n" for i
  proof (cases "i < unat n")
    case True
    then show ?thesis
      using tr(1) [of "unat (os_page_size os) + i"] by (simp add: data_ptr_def page add.assoc)
  next
    case False
    then have "i mod unat n = i - unat n"
      using that by (simp add: mod_if)
    with False that show ?thesis
      using tr(2) [of "unat (os_page_size os) + i"] by (simp add: data_ptr_def page add.assoc)
  qed
  then show ?thesis
    using tr(1) by (simp add: metadata_ptr_def)
qed

definition linux_os :: os where
  "linux_os = \<lparr>os_page_size = 4096, os_memfd_create = Some 3, os_ftruncate = (\<lambda>_ _. True),
     os_fstat = (\<lambda>_. None),
     os_mmap_anonymous = (\<lambda>a _. Some (65536, a)),
     os_mmap = (\<lambda>a addr len f off. Some (\<lambda>v. if addr \<le> v \<and> v < addr + unat len
                     then Some (f, unat off + (v - addr)) else a v)),
     os_munmap = (\<lambda>a addr len v. if addr \<le> v \<and> v < addr + unat len then None else a v)\<rparr>"

lemma linux_os_mmap_spec: "mmap_spec linux_os"
  by (simp add: mmap_spec_def linux_os_def)

lemma is_power_of_two_push_bit [simp]: "k < 64 \<Longrightarrow> is_power_of_two (push_bit k 1)"
  by (auto simp: is_power_of_two_def list_ex_iff)

lemma is_power_of_two_4096 [simp]: "is_power_of_two 4096"
  using is_power_of_two_push_bit [of 12] by simp

lemma is_power_of_two_64 [simp]: "is_power_of_two 64"
  using is_power_of_two_push_bit [of 6] by simp

theorem from_fd_double_mapping_witness:
  "\<exists>m a'. memory_from_fd linux_os Map.empty 3 4096 = (Inr m, a')
     \<and> a' (metadata_ptr m + 7) = Some (3, 7)
     \<and> a' (data_ptr m + 5000) = Some (3, 4096 + 904)"
proof -
  obtain m a' where m: "memory_from_fd linux_os Map.empty 3 4096 = (Inr m, a')"
    by (simp add: memory_from_fd_def check_data_size_def Let_def linux_os_def)
  have small: "unat (4096 :: usize) + unat (os_page_size linux_os) < 2 ^ 64"
    and pos: "0 < os_page_size linux_os"
    by (simp_all add: linux_os_def)
  have page: "unat (os_page_size linux_os) = 4096" by (simp add: linux_os_def)
  note all = from_fd_double_mapping [OF linux_os_mmap_spec m small pos]
  from all have "a' (metadata_ptr m + 7) = Some (3, 7)" by (simp add: page)
  moreover from all have "a' (data_ptr m + 5000) = Some (3, 4096 + 904)"
    by (auto simp: page dest: spec [of _ 5000])
  ultimately show ?thesis using m by blast
qed

end
