(* ===== verification/Mpsc_Sync.thy ===== *)
theory Mpsc_Sync
  imports Mpsc_Common
begin

text \<open>
  \<^verbatim>\<open>mpscbuf/src/sync.rs\<close>: the bounded spin lock and the eventfd notification. What a
  thread sees of the lock is a sequence of observations, one per atomic access it makes:
  \<open>held k\<close> says whether another thread holds the lock at the \<open>k\<close>-th access and
  \<open>spurious k\<close> whether a \<open>compare_exchange_weak\<close> at that access fails spuriously. The
  function returns whether the lock was taken and how many accesses were made.
\<close>

definition SPIN_LIMIT :: nat where "SPIN_LIMIT = 100000"

function try_lock_loop :: "nat \<Rightarrow> (nat \<Rightarrow> bool) \<Rightarrow> (nat \<Rightarrow> bool) \<Rightarrow> nat \<Rightarrow> nat \<Rightarrow> bool \<times> nat"
  and try_lock_wait :: "nat \<Rightarrow> (nat \<Rightarrow> bool) \<Rightarrow> (nat \<Rightarrow> bool) \<Rightarrow> nat \<Rightarrow> nat \<Rightarrow> bool \<times> nat" where
  "try_lock_loop limit held spurious k iterations =
     (if \<not> held k \<and> \<not> spurious k then (True, Suc k)
      else if limit \<le> Suc iterations then (False, Suc k)
      else try_lock_wait limit held spurious (Suc k) (Suc iterations))"
| "try_lock_wait limit held spurious k iterations =
     (if held k then
        (if limit \<le> Suc iterations then (False, Suc k)
         else try_lock_wait limit held spurious (Suc k) (Suc iterations))
      else try_lock_loop limit held spurious (Suc k) iterations)"
  by pat_completeness auto
termination
  by (relation "measure (\<lambda>x. case x of
        Inl (limit, _, _, _, it) \<Rightarrow> 2 * (limit - it)
      | Inr (limit, _, _, _, it) \<Rightarrow> Suc (2 * (limit - it)))") auto

declare try_lock_loop.simps [simp del] try_lock_wait.simps [simp del]

definition try_lock :: "(nat \<Rightarrow> bool) \<Rightarrow> (nat \<Rightarrow> bool) \<Rightarrow> bool \<times> nat" where
  "try_lock held spurious = try_lock_loop SPIN_LIMIT held spurious 0 0"

lemma try_lock_loop_sound:
  "try_lock_loop limit held sp k it = (got, n) \<Longrightarrow>
     k < n \<and> (got \<longrightarrow> \<not> held (n - 1) \<and> \<not> sp (n - 1)) \<and> n \<le> Suc k + 2 * (limit - it)"
  "try_lock_wait limit held sp k it = (got, n) \<Longrightarrow>
     k < n \<and> (got \<longrightarrow> \<not> held (n - 1) \<and> \<not> sp (n - 1)) \<and> n \<le> Suc (Suc k) + 2 * (limit - it)"
proof (induction limit held sp k it and limit held sp k it
    rule: try_lock_loop_try_lock_wait.induct)
  case (1 limit held sp k it)
  show ?case
  proof (cases "\<not> held k \<and> \<not> sp k \<or> limit \<le> Suc it")
    case True
    with "1.prems" show ?thesis
      by (auto simp: try_lock_loop.simps [of limit held sp k it] split: if_splits)
  next
    case False
    with "1.prems" have "try_lock_wait limit held sp (Suc k) (Suc it) = (got, n)"
      by (auto simp: try_lock_loop.simps [of limit held sp k it])
    with "1.IH" False show ?thesis by fastforce
  qed
next
  case (2 limit held sp k it)
  show ?case
  proof (cases "held k")
    case held: True
    show ?thesis
    proof (cases "limit \<le> Suc it")
      case True
      with held "2.prems" show ?thesis by (auto simp: try_lock_wait.simps [of limit held sp k it])
    next
      case False
      with held "2.prems" have "try_lock_wait limit held sp (Suc k) (Suc it) = (got, n)"
        by (simp add: try_lock_wait.simps [of limit held sp k it])
      with "2.IH"(1) held False show ?thesis by fastforce
    qed
  next
    case False
    with "2.prems" have "try_lock_loop limit held sp (Suc k) it = (got, n)"
      by (simp add: try_lock_wait.simps [of limit held sp k it])
    with "2.IH"(2) False show ?thesis by fastforce
  qed
qed

lemma try_lock_loop_free:
  "\<lbrakk>\<forall>j \<ge> m. \<not> held j \<and> \<not> sp j; m < limit; it \<le> k\<rbrakk> \<Longrightarrow> fst (try_lock_loop limit held sp k it)"
  "\<lbrakk>\<forall>j \<ge> m. \<not> held j \<and> \<not> sp j; m < limit; it \<le> k\<rbrakk> \<Longrightarrow> fst (try_lock_wait limit held sp k it)"
proof (induction limit held sp k it and limit held sp k it
    rule: try_lock_loop_try_lock_wait.induct)
  case (1 limit held sp k it)
  then show ?case
    by (cases "m \<le> k") (auto simp: try_lock_loop.simps [of limit held sp k it])
next
  case (2 limit held sp k it)
  then show ?case
    by (cases "m \<le> k") (auto simp: try_lock_wait.simps [of limit held sp k it])
qed

text \<open>
  C34: \<open>Spinlock::try_lock\<close> always returns, after at most \<open>2 * SPIN_LIMIT + 1\<close> atomic
  accesses, and reports success only when its last access was a compare-exchange that
  found the lock free.
\<close>

theorem try_lock_bounded:
  "case try_lock held spurious of (got, n) \<Rightarrow>
     0 < n \<and> n \<le> 2 * SPIN_LIMIT + 1 \<and> (got \<longrightarrow> \<not> held (n - 1) \<and> \<not> spurious (n - 1))"
  using try_lock_loop_sound(1) [of SPIN_LIMIT held spurious 0 0]
  by (auto simp: try_lock_def split: prod.splits)

theorem try_lock_bounded_witness:
  "(case try_lock (\<lambda>k. k < 3) (\<lambda>_. False) of (got, n) \<Rightarrow>
      0 < n \<and> n \<le> 2 * SPIN_LIMIT + 1 \<and> (got \<longrightarrow> \<not> n - 1 < 3 \<and> \<not> False))
   \<and> try_lock (\<lambda>k. k < 3) (\<lambda>_. False) = (True, 5)"
  using try_lock_bounded [of "\<lambda>k. k < 3" "\<lambda>_. False"]
  by (simp add: try_lock_def SPIN_LIMIT_def try_lock_loop.simps try_lock_wait.simps)

text \<open>
  C35: if the lock becomes free for good before the spin limit is used up, and the
  compare-exchange no longer fails spuriously, \<open>try_lock\<close> takes it.
\<close>

theorem try_lock_acquires:
  assumes "m < SPIN_LIMIT" and "\<forall>j \<ge> m. \<not> held j \<and> \<not> spurious j"
  shows "fst (try_lock held spurious)"
  using try_lock_loop_free(1) [OF assms(2,1), of 0 0] by (simp add: try_lock_def)

theorem try_lock_acquires_witness: "fst (try_lock (\<lambda>k. k < 2) (\<lambda>k. k = 2))"
  by (rule try_lock_acquires [of 3]) (auto simp: SPIN_LIMIT_def)

section \<open>Notification\<close>

text \<open>
  The eventfd's counter, and the result of the write that \<open>notify\<close> makes and of the read
  that \<open>wait\<close> makes (\<open>None\<close>: the call succeeds). A successful read returns the counter
  and resets it; it blocks, modelled by \<open>None\<close>, while the counter is zero.
\<close>

definition notify :: "string option \<Rightarrow> nat \<Rightarrow> (mpsc_buf_error + unit) \<times> nat" where
  "notify res efd =
     (case res of None \<Rightarrow> (Inr (), Suc efd) | Some e \<Rightarrow> (Inl (EventfdWrite e), efd))"

definition notification_wait :: "string option \<Rightarrow> nat \<Rightarrow> ((mpsc_buf_error + unit) \<times> nat) option" where
  "notification_wait res efd =
     (case res of Some e \<Rightarrow> Some (Inl (EventfdRead e), efd)
      | None \<Rightarrow> if efd = 0 then None else Some (Inr (), 0))"

lemma notify_then_wait_returns: "notification_wait None (snd (notify None efd)) = Some (Inr (), 0)"
  by (simp add: notify_def notification_wait_def)

end
