(* ===== verification/Mpsc_Ring.thy ===== *)
theory Mpsc_Ring
  imports Mpsc_Memory Mpsc_Sync
begin

text \<open>
  \<^verbatim>\<open>mpscbuf/src/ringbuf.rs\<close>, \<^verbatim>\<open>producer.rs\<close> and \<^verbatim>\<open>consumer.rs\<close>: the ring buffer's shared
  state and the operations of its two ends, each as one function of the shared state (the
  interleaved reading of the same code is in \<open>Mpsc_Concurrent\<close>). A byte of the data area is
  addressed modulo its size, which is what the double mapping of \<open>Mpsc_Memory\<close> gives.
  The sequential correctness statement is an interpretation of the FIFO interface
  \<open>fifo_queue\<close> on these operations.
\<close>

section \<open>Shared state\<close>

record ring = metadata +
  data_size :: usize
  data :: "nat \<Rightarrow> u8"

definition size_mask :: "ring \<Rightarrow> u64" where
  "size_mask r = data_size r - 1"

definition consumer_pos :: "ring \<Rightarrow> u64" where
  "consumer_pos r = consumer r"

definition producer_pos :: "ring \<Rightarrow> u64" where
  "producer_pos r = producer r"

definition advance_producer :: "u64 \<Rightarrow> ring \<Rightarrow> ring" where
  "advance_producer amount r = r\<lparr>producer := amount\<rparr>"

definition advance_consumer :: "u64 \<Rightarrow> ring \<Rightarrow> ring" where
  "advance_consumer amount r = r\<lparr>consumer := amount\<rparr>"

definition increment_dropped :: "ring \<Rightarrow> ring" where
  "increment_dropped r = r\<lparr>dropped := dropped r + 1\<rparr>"

text \<open>\<open>RingBuf::new\<close> maps fresh (zeroed) memory and writes the initial metadata;
  \<open>RingBuf::from_fd\<close> maps the memory of an existing ring and leaves its contents alone.\<close>

definition ringbuf_new :: "os \<Rightarrow> aspace \<Rightarrow> usize \<Rightarrow> (mpsc_buf_error + memory \<times> ring) \<times> aspace" where
  "ringbuf_new os a n =
     (case memory_new os a n of
        (Inl e, a') \<Rightarrow> (Inl e, a')
      | (Inr m, a') \<Rightarrow>
          (Inr (m, metadata.extend metadata_new \<lparr>data_size = n, data = (\<lambda>_. 0)\<rparr>), a'))"

definition ringbuf_from_fd ::
  "os \<Rightarrow> aspace \<Rightarrow> fd \<Rightarrow> usize \<Rightarrow> (mpsc_buf_error + memory) \<times> aspace" where
  "ringbuf_from_fd os a fd n = memory_from_fd os a fd n"

definition consumer_new ::
  "os \<Rightarrow> string option \<Rightarrow> aspace \<Rightarrow> usize \<Rightarrow> (mpsc_buf_error + memory \<times> ring) \<times> aspace" where
  "consumer_new os eventfd_error a n =
     (case ringbuf_new os a n of
        (Inl e, a') \<Rightarrow> (Inl e, a')
      | (Inr (m, r), a') \<Rightarrow>
          (case eventfd_error of
             Some e \<Rightarrow> (Inl (EventfdCreation e), memory_drop os a' m)
           | None \<Rightarrow> (Inr (m, r), a')))"

datatype wakeup_strategy = Forced | NoWakeup

definition producer_new ::
  "os \<Rightarrow> aspace \<Rightarrow> fd \<Rightarrow> fd \<Rightarrow> usize \<Rightarrow> wakeup_strategy
   \<Rightarrow> (mpsc_buf_error + memory \<times> fd \<times> wakeup_strategy) \<times> aspace" where
  "producer_new os a memory_fd notification_fd n strategy =
     (case os_fstat os memory_fd of
        Some errno \<Rightarrow> (Inl (IoError errno), a)
      | None \<Rightarrow>
        (case os_fstat os notification_fd of
           Some errno \<Rightarrow> (Inl (IoError errno), a)
         | None \<Rightarrow>
           (case ringbuf_from_fd os a memory_fd n of
              (Inl e, a') \<Rightarrow> (Inl e, a')
            | (Inr m, a') \<Rightarrow> (Inr (m, notification_fd, strategy), a'))))"

section \<open>Data accesses\<close>

definition get :: "nat \<Rightarrow> (nat \<Rightarrow> u8) \<Rightarrow> nat \<Rightarrow> nat \<Rightarrow> bytes" where
  "get D f a n = map (\<lambda>i. f ((a + i) mod D)) [0..<n]"

fun put :: "nat \<Rightarrow> (nat \<Rightarrow> u8) \<Rightarrow> nat \<Rightarrow> bytes \<Rightarrow> (nat \<Rightarrow> u8)" where
  "put D f a [] = f"
| "put D f a (b # bs) = put D (f(a mod D := b)) (Suc a) bs"

definition read_data :: "ring \<Rightarrow> nat \<Rightarrow> nat \<Rightarrow> bytes" where
  "read_data r off n = get (unat (data_size r)) (data r) off n"

definition write_data :: "nat \<Rightarrow> bytes \<Rightarrow> ring \<Rightarrow> ring" where
  "write_data off bs r = r\<lparr>data := put (unat (data_size r)) (data r) off bs\<rparr>"

definition read_header :: "ring \<Rightarrow> nat \<Rightarrow> u64" where
  "read_header r off = u64_of_bytes (read_data r off 8)"

definition write_header :: "nat \<Rightarrow> u64 \<Rightarrow> ring \<Rightarrow> ring" where
  "write_header off h r = write_data off (bytes_of_u64 h) r"

definition record_offset :: "ring \<Rightarrow> u64 \<Rightarrow> nat" where
  "record_offset r pos = unat (pos AND size_mask r)"

lemmas [ring_defs] = consumer_pos_def producer_pos_def advance_producer_def advance_consumer_def

lemma length_get [simp]: "length (get D f a n) = n"
  by (simp add: get_def)

lemma get_mod [simp]: "get D f (a mod D) n = get D f a n"
  by (simp add: get_def mod_simps)

lemma get_mod_add [simp]: "get D f (a mod D + k) n = get D f (a + k) n"
  unfolding get_def by (rule map_cong) (simp_all add: add.assoc mod_simps)

lemma put_cong_mod: "a mod D = b mod D \<Longrightarrow> put D f a bs = put D f b bs"
proof (induction bs arbitrary: f a b)
  case (Cons x bs)
  then have "Suc a mod D = Suc b mod D" by (metis mod_Suc_eq)
  then have "put D (f(a mod D := x)) (Suc a) bs = put D (f(a mod D := x)) (Suc b) bs"
    by (rule Cons.IH)
  with Cons.prems show ?case by (simp only: put.simps)
qed simp

lemma put_mod [simp]: "put D f (a mod D) bs = put D f a bs"
  by (rule put_cong_mod) simp

lemma put_mod_add [simp]: "put D f (a mod D + k) bs = put D f (a + k) bs"
  by (rule put_cong_mod) (simp add: mod_add_left_eq)

lemma put_miss:
  "(\<And>j. j < length bs \<Longrightarrow> x mod D \<noteq> (a + j) mod D) \<Longrightarrow> put D f a bs (x mod D) = f (x mod D)"
proof (induction bs arbitrary: f a)
  case (Cons b bs)
  have "put D (f(a mod D := b)) (Suc a) bs (x mod D) = (f(a mod D := b)) (x mod D)"
    using Cons.prems [of "Suc _"] by (intro Cons.IH) simp
  then show ?case
    using Cons.prems [of 0] by simp
qed simp

lemma put_hit:
  "\<lbrakk>i < length bs; length bs \<le> D\<rbrakk> \<Longrightarrow> put D f a bs ((a + i) mod D) = bs ! i"
proof (induction bs arbitrary: f a i)
  case (Cons b bs)
  show ?case
  proof (cases i)
    case 0
    have "a mod D \<noteq> (Suc a + j) mod D" if "j < length bs" for j
      using mod_eq_close [of a D "Suc a + j"] that Cons.prems(2) by auto
    then show ?thesis
      using 0 put_miss [of bs a D "Suc a" "f(a mod D := b)"] by simp
  next
    case (Suc k)
    have "put D (f(a mod D := b)) (Suc a) bs ((Suc a + k) mod D) = bs ! k"
      using Cons.prems Suc by (intro Cons.IH) simp_all
    with Suc show ?thesis by simp
  qed
qed simp

lemma get_put_same: "length bs \<le> D \<Longrightarrow> n = length bs \<Longrightarrow> get D (put D f a bs) a n = bs"
  by (intro nth_equalityI) (simp_all add: get_def put_hit)

lemma get_put_other:
  assumes "c \<le> a" "a + n \<le> c + D" "c \<le> b" "b + length bs \<le> c + D"
    and "a + n \<le> b \<or> b + length bs \<le> a"
  shows "get D (put D f b bs) a n = get D f a n"
proof -
  have "put D f b bs ((a + i) mod D) = f ((a + i) mod D)" if "i < n" for i
  proof (rule put_miss)
    fix j
    assume "j < length bs"
    then have "a + i \<noteq> b + j" and "a + i < b + j + D" and "b + j < a + i + D"
      using assms that by linarith+
    then show "(a + i) mod D \<noteq> (b + j) mod D"
      using mod_eq_close by blast
  qed
  then show ?thesis by (simp add: get_def)
qed

text \<open>Writing inside an interval and reading the whole of it back.\<close>

lemma get_split: "k \<le> n \<Longrightarrow> get D f a n = get D f a k @ get D f (a + k) (n - k)"
proof -
  assume "k \<le> n"
  then have "[0..<n] = [0..<k] @ [k..<n]"
    by (metis le_add_diff_inverse upt_add_eq_append zero_le)
  moreover have "[k..<n] = map (\<lambda>i. i + k) [0..<n - k]"
    using \<open>k \<le> n\<close> by (simp add: map_add_upt)
  ultimately have "[0..<n] = [0..<k] @ map (\<lambda>i. i + k) [0..<n - k]" by simp
  then show ?thesis by (simp add: get_def ac_simps)
qed

section \<open>Operations\<close>

record reserved_buffer =
  rb_off :: nat
  rb_size :: usize

text \<open>The part of \<open>Producer::reserve\<close> that runs under the lock; \<open>cpos\<close> is the consumer
  position loaded before the lock was taken.\<close>

definition reserve_locked ::
  "usize \<Rightarrow> u64 \<Rightarrow> ring \<Rightarrow> (mpsc_buf_error + reserved_buffer) \<times> ring" where
  "reserve_locked sz cpos r =
     (let total_size = round_up_to_8 (sz + HEADER_SIZE);
          ppos = producer_pos r;
          new_prod_pos = ppos + total_size
      in if size_mask r < new_prod_pos - cpos
         then (Inl (InsufficientSpace new_prod_pos cpos (size_mask r)), r)
         else (let off = record_offset r ppos
               in (Inr \<lparr>rb_off = off, rb_size = sz\<rparr>,
                   advance_producer new_prod_pos (write_header off (header_new (ucast sz)) r))))"

definition reserve :: "bool \<Rightarrow> usize \<Rightarrow> ring \<Rightarrow> (mpsc_buf_error + reserved_buffer) \<times> ring" where
  "reserve locked sz r =
     (let cpos = consumer_pos r
      in if \<not> locked then (Inl LockTimeout, r)
         else (case reserve_locked sz cpos (r\<lparr>spinlock := True\<rparr>) of
                 (res, r') \<Rightarrow> (res, r'\<lparr>spinlock := False\<rparr>)))"

text \<open>A store into the slice \<open>as_mut_slice\<close> returns; outside the slice Rust panics.\<close>

definition buffer_write :: "reserved_buffer \<Rightarrow> nat \<Rightarrow> bytes \<Rightarrow> ring \<Rightarrow> ring option" where
  "buffer_write b k bs r =
     (if k + length bs \<le> unat (rb_size b)
      then Some (write_data (rb_off b + unat HEADER_SIZE + k) bs r) else None)"

definition buffer_commit :: "reserved_buffer \<Rightarrow> ring \<Rightarrow> ring" where
  "buffer_commit b r = write_header (rb_off b) (header_commit (read_header r (rb_off b))) r"

definition buffer_discard_header :: "reserved_buffer \<Rightarrow> ring \<Rightarrow> ring" where
  "buffer_discard_header b r = write_header (rb_off b) (header_discard (read_header r (rb_off b))) r"

definition buffer_drop ::
  "wakeup_strategy \<Rightarrow> string option \<Rightarrow> reserved_buffer \<Rightarrow> ring \<times> nat \<Rightarrow> ring \<times> nat" where
  "buffer_drop strategy write_error b s =
     (case s of (r, efd) \<Rightarrow>
        ((if header_is_discarded (read_header r (rb_off b)) then r else buffer_commit b r),
         (case strategy of Forced \<Rightarrow> snd (notify write_error efd) | NoWakeup \<Rightarrow> efd)))"

definition buffer_discard ::
  "wakeup_strategy \<Rightarrow> string option \<Rightarrow> reserved_buffer \<Rightarrow> ring \<times> nat \<Rightarrow> ring \<times> nat" where
  "buffer_discard strategy write_error b s =
     (case s of (r, efd) \<Rightarrow> buffer_drop strategy write_error b (buffer_discard_header b r, efd))"

record consumed =
  rec_data :: bytes
  rec_total_len :: u64

definition record_total_len :: "u32 \<Rightarrow> u64" where
  "record_total_len len = round_up_to_8 (HEADER_SIZE + ucast len)"

partial_function (option) consume :: "ring \<Rightarrow> (consumed option \<times> ring) option" where
  "consume r =
     (let cpos = consumer_pos r; ppos = producer_pos r
      in if ppos \<le> cpos then Some (None, r)
         else (let off = record_offset r cpos;
                   (len, flags) = header_len_and_flags (read_header r off)
               in if flags AND BUSY_FLAG \<noteq> 0 then Some (None, r)
                  else if flags AND DISCARD_FLAG = 0
                  then Some (Some \<lparr>rec_data = read_data r (off + unat HEADER_SIZE) (unat len),
                                   rec_total_len = cpos + record_total_len len\<rparr>, r)
                  else consume (advance_consumer (cpos + record_total_len len) r)))"

declare consume.simps [code]

definition record_drop :: "consumed \<Rightarrow> ring \<Rightarrow> ring" where
  "record_drop rec r = advance_consumer (rec_total_len rec) r"

definition available_records :: "ring \<Rightarrow> u64" where
  "available_records r = saturating_sub (producer_pos r) (consumer_pos r)"

section \<open>The records in the window between the two positions\<close>

text \<open>
  An entry describes one record: its absolute position, the length of its payload, and
  whether a producer is still filling it. \<open>linked r es\<close> says that the window of the ring
  is exactly the sequence \<open>es\<close> of records, one after the other, each with the header that
  its state requires. Positions are compared as naturals, below a limit that leaves room
  for one record before the 64-bit counters wrap.
\<close>

datatype entry_state = Busy nat | Committed | Discarded

record entry =
  e_pos :: nat
  e_len :: nat
  e_state :: entry_state

fun state_flags :: "entry_state \<Rightarrow> u32" where
  "state_flags (Busy i) = BUSY_FLAG"
| "state_flags Committed = 0"
| "state_flags Discarded = DISCARD_FLAG"

definition POS_LIMIT :: nat where "POS_LIMIT = 2 ^ 63"
definition SIZE_LIMIT :: nat where "SIZE_LIMIT = 2 ^ 32"

fun chain :: "nat \<Rightarrow> entry list \<Rightarrow> nat \<Rightarrow> bool" where
  "chain c [] p \<longleftrightarrow> c = p"
| "chain c (e # es) p \<longleftrightarrow> e_pos e = c \<and> chain (c + total_size (e_len e)) es p"

definition entry_ok :: "ring \<Rightarrow> entry \<Rightarrow> bool" where
  "entry_ok r e \<longleftrightarrow> e_len e < SIZE_LIMIT \<and>
     header_len_and_flags (read_header r (e_pos e)) = (of_nat (e_len e), state_flags (e_state e))"

definition size_ok :: "ring \<Rightarrow> bool" where
  "size_ok r \<longleftrightarrow> is_power_of_two (data_size r) \<and> 8 \<le> unat (data_size r)"

definition linked :: "ring \<Rightarrow> entry list \<Rightarrow> bool" where
  "linked r es \<longleftrightarrow> size_ok r \<and> 8 dvd unat (consumer r) \<and>
     chain (unat (consumer r)) es (unat (producer r)) \<and>
     unat (producer r) < unat (consumer r) + unat (data_size r) \<and>
     unat (producer r) < POS_LIMIT + 2 * SIZE_LIMIT \<and>
     list_all (entry_ok r) es"

definition payload :: "ring \<Rightarrow> entry \<Rightarrow> bytes" where
  "payload r e = read_data r (e_pos e + 8) (e_len e)"

lemma chain_append: "chain c (xs @ ys) p \<longleftrightarrow> (\<exists>m. chain c xs m \<and> chain m ys p)"
  by (induction xs arbitrary: c) auto

lemma chain_le: "chain c es p \<Longrightarrow> c \<le> p"
  by (induction es arbitrary: c) force+

lemma chain_inside: "chain c es p \<Longrightarrow> e \<in> set es \<Longrightarrow> c \<le> e_pos e \<and> e_pos e + total_size (e_len e) \<le> p"
proof (induction es arbitrary: c)
  case (Cons x es)
  then show ?case
    using chain_le [of "c + total_size (e_len x)" es p] by fastforce
qed simp

lemma chain_aligned: "chain c es p \<Longrightarrow> 8 dvd c \<Longrightarrow> 8 dvd p \<and> (\<forall>e \<in> set es. 8 dvd e_pos e)"
  by (induction es arbitrary: c) auto

lemma chain_split:
  assumes "chain c (xs @ e # ys) p"
  shows "\<forall>x \<in> set xs. e_pos x + total_size (e_len x) \<le> e_pos e"
    and "\<forall>y \<in> set ys. e_pos e + total_size (e_len e) \<le> e_pos y"
  using assms chain_inside by (auto simp: chain_append)

lemma chain_restate: "chain c (xs @ e # ys) p \<Longrightarrow> chain c (xs @ e\<lparr>e_state := st\<rparr> # ys) p"
  by (simp add: chain_append)

section \<open>Effect of the memory accesses on the records\<close>

lemma write_data_fields [simp]:
  "data_size (write_data off bs r) = data_size r" "consumer (write_data off bs r) = consumer r"
  "producer (write_data off bs r) = producer r" "spinlock (write_data off bs r) = spinlock r"
  "dropped (write_data off bs r) = dropped r"
  by (simp_all add: write_data_def)

lemma write_header_fields [simp]:
  "data_size (write_header off h r) = data_size r" "consumer (write_header off h r) = consumer r"
  "producer (write_header off h r) = producer r" "spinlock (write_header off h r) = spinlock r"
  "dropped (write_header off h r) = dropped r"
  by (simp_all add: write_header_def)

text \<open>A write that misses an entry's bytes leaves its header and its payload alone.\<close>

lemma write_data_misses:
  assumes "c \<le> e_pos e" "e_pos e + total_size (e_len e) \<le> c + unat (data_size r)"
    and "c \<le> b" "b + length bs \<le> c + unat (data_size r)"
    and "e_pos e + total_size (e_len e) \<le> b \<or> b + length bs \<le> e_pos e"
  shows "read_header (write_data b bs r) (e_pos e) = read_header r (e_pos e)"
    and "payload (write_data b bs r) e = payload r e"
proof -
  let ?D = "unat (data_size r)"
  have len: "e_len e + 8 \<le> total_size (e_len e)" by (rule total_size_bounds)
  have "get ?D (put ?D (data r) b bs) (e_pos e) 8 = get ?D (data r) (e_pos e) 8"
    by (rule get_put_other [of c]) (use assms len in linarith)+
  then show "read_header (write_data b bs r) (e_pos e) = read_header r (e_pos e)"
    by (simp add: read_header_def read_data_def write_data_def)
  have "get ?D (put ?D (data r) b bs) (e_pos e + 8) (e_len e) = get ?D (data r) (e_pos e + 8) (e_len e)"
    by (rule get_put_other [of c]) (use assms len in linarith)+
  then show "payload (write_data b bs r) e = payload r e"
    by (simp add: payload_def read_data_def write_data_def)
qed

lemma read_write_header:
  "8 \<le> unat (data_size r) \<Longrightarrow> read_header (write_header off h r) off = h"
  by (simp add: read_header_def write_header_def read_data_def write_data_def get_put_same)

lemma read_header_mod [simp]: "read_header r (a mod unat (data_size r)) = read_header r a"
  by (simp add: read_header_def read_data_def)

lemma write_header_mod [simp]: "write_header (a mod unat (data_size r)) h r = write_header a h r"
  by (simp add: write_header_def write_data_def)

lemma write_data_mod_add [simp]:
  "write_data (a mod unat (data_size r) + k) bs r = write_data (a + k) bs r"
  by (simp add: write_data_def)

lemma record_offset_mod: "size_ok r \<Longrightarrow> record_offset r pos = unat pos mod unat (data_size r)"
  by (simp add: record_offset_def size_mask_def size_ok_def mask_is_mod)

lemma payload_restate [simp]: "payload r (e\<lparr>e_state := st\<rparr>) = payload r e"
  by (simp add: payload_def)

lemma linked_bounds:
  assumes "linked r es" "e \<in> set es"
  shows "unat (consumer r) \<le> e_pos e" "e_pos e + total_size (e_len e) \<le> unat (producer r)"
    "e_pos e + total_size (e_len e) \<le> unat (consumer r) + unat (data_size r)"
  using assms chain_inside [of "unat (consumer r)" es "unat (producer r)" e]
  by (auto simp: linked_def)

lemma linked_miss:
  assumes "linked r es" "e \<in> set es"
    and "unat (consumer r) \<le> b" "b + length bs \<le> unat (consumer r) + unat (data_size r)"
    and "e_pos e + total_size (e_len e) \<le> b \<or> b + length bs \<le> e_pos e"
  shows "entry_ok (write_data b bs r) e" "payload (write_data b bs r) e = payload r e"
proof -
  note misses = write_data_misses [OF linked_bounds(1,3) [OF assms(1,2)] assms(3-5)]
  have "entry_ok r e" using assms(1,2) by (auto simp: linked_def list_all_iff)
  then show "entry_ok (write_data b bs r) e" by (simp add: entry_ok_def misses(1))
  show "payload (write_data b bs r) e = payload r e" by (rule misses(2))
qed

text \<open>Writes inside the bytes of one entry, for the other entries.\<close>

lemma linked_write_inside:
  assumes "linked r (xs @ e # ys)" and "e_pos e \<le> b"
    and "b + length bs \<le> e_pos e + total_size (e_len e)"
  shows "list_all (entry_ok (write_data b bs r)) (xs @ ys)"
    and "map (payload (write_data b bs r)) (xs @ ys) = map (payload r) (xs @ ys)"
proof -
  have ch: "chain (unat (consumer r)) (xs @ e # ys) (unat (producer r))"
    using assms(1) by (simp add: linked_def)
  have e: "unat (consumer r) \<le> e_pos e"
      "e_pos e + total_size (e_len e) \<le> unat (consumer r) + unat (data_size r)"
    using linked_bounds [OF assms(1), of e] by simp_all
  have *: "entry_ok (write_data b bs r) x \<and> payload (write_data b bs r) x = payload r x"
    if "x \<in> set (xs @ ys)" for x
  proof -
    have "e_pos x + total_size (e_len x) \<le> b \<or> b + length bs \<le> e_pos x"
      using that chain_split [OF ch] assms(2,3) by fastforce
    then show ?thesis
      using linked_miss [OF assms(1), of x b bs] that e assms(2,3) by auto
  qed
  show "list_all (entry_ok (write_data b bs r)) (xs @ ys)"
    using * by (simp add: list_all_iff)
  show "map (payload (write_data b bs r)) (xs @ ys) = map (payload r) (xs @ ys)"
    using * by simp
qed

lemma linked_set_state:
  assumes l: "linked r (xs @ e # ys)"
    and h: "header_len_and_flags h = (of_nat (e_len e), state_flags st)"
  shows "linked (write_header (e_pos e) h r) (xs @ e\<lparr>e_state := st\<rparr> # ys)"
    and "map (payload (write_header (e_pos e) h r)) (xs @ e\<lparr>e_state := st\<rparr> # ys) =
         map (payload r) (xs @ e # ys)"
proof -
  let ?r = "write_header (e_pos e) h r" and ?D = "unat (data_size r)"
  have len: "e_len e + 8 \<le> total_size (e_len e)" by (rule total_size_bounds)
  note inside = linked_write_inside [OF l, of "e_pos e" "bytes_of_u64 h"]
  have "entry_ok r e" and D: "8 \<le> ?D"
    using l by (auto simp: linked_def size_ok_def)
  then have "entry_ok ?r (e\<lparr>e_state := st\<rparr>)"
    using h by (simp add: entry_ok_def read_write_header)
  then show "linked ?r (xs @ e\<lparr>e_state := st\<rparr> # ys)"
    using l inside(1) len by (auto simp: linked_def size_ok_def write_header_def intro: chain_restate)
  have "get ?D (put ?D (data r) (e_pos e) (bytes_of_u64 h)) (e_pos e + 8) (e_len e)
      = get ?D (data r) (e_pos e + 8) (e_len e)"
    by (rule get_put_other [of "unat (consumer r)"])
      (use linked_bounds [OF l, of e] len in simp_all)
  then have "payload ?r e = payload r e"
    by (simp add: payload_def read_data_def write_header_def write_data_def)
  then show "map (payload ?r) (xs @ e\<lparr>e_state := st\<rparr> # ys) = map (payload r) (xs @ e # ys)"
    using inside(2) len by (simp add: write_header_def)
qed

lemma get_put_inside:
  assumes "k + length bs \<le> n" and "n \<le> D"
  shows "get D (put D f (a + k) bs) a n = take k (get D f a n) @ bs @ drop (k + length bs) (get D f a n)"
proof (rule nth_equalityI)
  show "length (get D (put D f (a + k) bs) a n)
      = length (take k (get D f a n) @ bs @ drop (k + length bs) (get D f a n))"
    using assms(1) by simp
next
  fix i
  assume "i < length (get D (put D f (a + k) bs) a n)"
  then have i: "i < n" by simp
  show "get D (put D f (a + k) bs) a n ! i
      = (take k (get D f a n) @ bs @ drop (k + length bs) (get D f a n)) ! i"
  proof (cases "k \<le> i \<and> i < k + length bs")
    case True
    then have "put D f (a + k) bs ((a + k + (i - k)) mod D) = bs ! (i - k)"
      using assms by (intro put_hit) linarith+
    moreover have "i - k < length bs" using True by linarith
    ultimately show ?thesis
      using True i assms by (simp add: get_def nth_append)
  next
    case False
    have "put D f (a + k) bs ((a + i) mod D) = f ((a + i) mod D)"
    proof (rule put_miss)
      fix j
      assume "j < length bs"
      then have "a + i \<noteq> a + k + j" "a + i < a + k + j + D" "a + k + j < a + i + D"
        using False i assms by linarith+
      then show "(a + i) mod D \<noteq> (a + k + j) mod D" using mod_eq_close by blast
    qed
    with False i assms show ?thesis
      by (auto simp: get_def nth_append)
  qed
qed

lemma linked_fill:
  assumes l: "linked r (xs @ e # ys)" and k: "k + length bs \<le> e_len e"
  defines "r' \<equiv> write_data (e_pos e + 8 + k) bs r"
  shows "linked r' (xs @ e # ys)"
    and "map (payload r') (xs @ ys) = map (payload r) (xs @ ys)"
    and "payload r' e = take k (payload r e) @ bs @ drop (k + length bs) (payload r e)"
proof -
  let ?D = "unat (data_size r)"
  have len: "e_len e + 8 \<le> total_size (e_len e)" by (rule total_size_bounds)
  have inside: "list_all (entry_ok r') (xs @ ys)" "map (payload r') (xs @ ys) = map (payload r) (xs @ ys)"
    unfolding r'_def by (rule linked_write_inside [OF l]; use k len in linarith)+
  have "get ?D (put ?D (data r) (e_pos e + 8 + k) bs) (e_pos e) 8 = get ?D (data r) (e_pos e) 8"
    by (rule get_put_other [of "unat (consumer r)"])
      (use linked_bounds [OF l, of e] len k in simp_all)
  then have "read_header r' (e_pos e) = read_header r (e_pos e)"
    by (simp add: r'_def read_header_def read_data_def write_data_def)
  then have "entry_ok r' e"
    using l by (simp add: linked_def entry_ok_def)
  then show "linked r' (xs @ e # ys)"
    using l inside(1) by (auto simp: linked_def size_ok_def r'_def)
  show "map (payload r') (xs @ ys) = map (payload r) (xs @ ys)" by (rule inside(2))
  have "e_len e \<le> ?D" using linked_bounds [OF l, of e] len by simp
  then show "payload r' e = take k (payload r e) @ bs @ drop (k + length bs) (payload r e)"
    using get_put_inside [OF k, of ?D "data r" "e_pos e + 8"]
    by (simp add: r'_def payload_def read_data_def write_data_def)
qed

lemma linked_header_ahead:
  assumes l: "linked r es" and room: "unat (producer r) + 8 \<le> unat (consumer r) + unat (data_size r)"
  shows "linked (write_header (unat (producer r)) h r) es"
    and "map (payload (write_header (unat (producer r)) h r)) es = map (payload r) es"
proof -
  let ?r = "write_header (unat (producer r)) h r"
  have cp: "unat (consumer r) \<le> unat (producer r)"
    using l chain_le by (auto simp: linked_def)
  have "entry_ok ?r e \<and> payload ?r e = payload r e" if "e \<in> set es" for e
    using linked_miss [OF l that, of "unat (producer r)" "bytes_of_u64 h"]
      linked_bounds [OF l that] cp room by (auto simp: write_header_def)
  then show "linked ?r es" and "map (payload ?r) es = map (payload r) es"
    using l by (auto simp: linked_def size_ok_def list_all_iff)
qed

lemma linked_push:
  assumes l: "linked r es" and n: "n < SIZE_LIMIT" and p: "unat (producer r) < POS_LIMIT"
    and room: "unat (producer r) + total_size n < unat (consumer r) + unat (data_size r)"
    and new: "unat new = unat (producer r) + total_size n"
    and h: "read_header r (unat (producer r)) = header_new (of_nat n)"
  shows "linked (advance_producer new r) (es @ [\<lparr>e_pos = unat (producer r), e_len = n, e_state = Busy i\<rparr>])"
    and "payload (advance_producer new r) e = payload r e"
proof -
  have same: "entry_ok (advance_producer new r) e = entry_ok r e"
    "payload (advance_producer new r) e = payload r e" for e
    by (simp_all add: entry_ok_def payload_def read_header_def read_data_def advance_producer_def)
  then show "payload (advance_producer new r) e = payload r e" by blast
  have "entry_ok r \<lparr>e_pos = unat (producer r), e_len = n, e_state = Busy i\<rparr>"
    using n h by (simp add: entry_ok_def)
  moreover have "total_size n < 2 * SIZE_LIMIT"
    using total_size_less [of n] n by (simp add: SIZE_LIMIT_def)
  ultimately show "linked (advance_producer new r)
      (es @ [\<lparr>e_pos = unat (producer r), e_len = n, e_state = Busy i\<rparr>])"
    using l new room p by (simp add: linked_def chain_append same size_ok_def list_all_iff)
      (simp add: advance_producer_def)
qed

lemma linked_pop:
  assumes l: "linked r (e # es)" and new: "unat new = unat (consumer r) + total_size (e_len e)"
  shows "linked (advance_consumer new r) es"
    and "payload (advance_consumer new r) x = payload r x"
proof -
  have same: "entry_ok (advance_consumer new r) e = entry_ok r e"
    "payload (advance_consumer new r) e = payload r e" for e
    by (simp_all add: entry_ok_def payload_def read_header_def read_data_def advance_consumer_def)
  then show "payload (advance_consumer new r) x = payload r x" by blast
  show "linked (advance_consumer new r) es"
    using l new by (simp add: linked_def same size_ok_def list_all_iff)
      (auto simp: advance_consumer_def)
qed

lemma linked_consumer_le: "linked r es \<Longrightarrow> unat (consumer r) \<le> unat (producer r)"
  by (auto simp: linked_def dest: chain_le)

lemma linked_empty: "linked r es \<Longrightarrow> producer r \<le> consumer r \<longleftrightarrow> es = []"
proof (cases es)
  case (Cons e es')
  assume "linked r es"
  with Cons have "chain (unat (consumer r) + total_size (e_len e)) es' (unat (producer r))"
    by (simp add: linked_def)
  then have "unat (consumer r) + total_size (e_len e) \<le> unat (producer r)"
    by (rule chain_le)
  moreover have "e_len e + 8 \<le> total_size (e_len e)" by (rule total_size_bounds)
  ultimately show ?thesis
    using Cons by (simp add: word_le_nat_alt)
qed (auto simp: linked_def word_le_nat_alt)

section \<open>Operations on linked rings\<close>

lemma unat_of_nat_u32: "n < SIZE_LIMIT \<Longrightarrow> unat (of_nat n :: u32) = n"
  by (rule unat_of_nat_small) (simp add: SIZE_LIMIT_def)

lemma unat_record_total_len:
  assumes "n < SIZE_LIMIT"
  shows "unat (record_total_len (of_nat n)) = total_size n"
proof -
  have n: "unat (ucast (of_nat n :: u32) :: u64) = n"
    using unat_of_nat_u32 [OF assms] by simp
  moreover have "unat (ucast (of_nat n :: u32) :: u64) + 15 < 2 ^ 64"
    using assms unfolding n by (simp add: SIZE_LIMIT_def)
  ultimately show ?thesis
    unfolding record_total_len_def using unat_total_size by (metis add.commute)
qed

lemma unat_next_pos:
  assumes "linked r es" "e \<in> set es"
  shows "unat (of_nat (e_pos e) + record_total_len (of_nat (e_len e))) = e_pos e + total_size (e_len e)"
proof -
  have n: "e_len e < SIZE_LIMIT"
    using assms by (auto simp: linked_def entry_ok_def list_all_iff)
  have le: "e_pos e + total_size (e_len e) \<le> unat (producer r)"
    by (rule linked_bounds [OF assms])
  have lt: "unat (producer r) < 2 ^ LENGTH(64)"
    by (rule unsigned_less)
  have "unat (of_nat (e_pos e) :: u64) = e_pos e"
    by (rule unat_of_nat_small) (use le lt in linarith)
  moreover have "unat (of_nat (e_pos e) + record_total_len (of_nat (e_len e))) =
      unat (of_nat (e_pos e) :: u64) + unat (record_total_len (of_nat (e_len e)))"
    by (rule unat_add_small) (use le lt calculation unat_record_total_len [OF n] in linarith)
  ultimately show ?thesis
    using unat_record_total_len [OF n] by simp
qed

lemma linked_head:
  assumes "linked r (e # es)"
  shows "e_pos e = unat (consumer r)"
    and "\<not> producer r \<le> consumer r"
    and "header_len_and_flags (read_header r (record_offset r (consumer r))) =
           (of_nat (e_len e), state_flags (e_state e))"
    and "unat (consumer r + record_total_len (of_nat (e_len e))) = unat (consumer r) + total_size (e_len e)"
proof -
  show pos: "e_pos e = unat (consumer r)" using assms by (simp add: linked_def)
  show "\<not> producer r \<le> consumer r" using linked_empty [OF assms] by simp
  show "header_len_and_flags (read_header r (record_offset r (consumer r))) =
           (of_nat (e_len e), state_flags (e_state e))"
    using assms by (auto simp: linked_def entry_ok_def record_offset_mod)
  show "unat (consumer r + record_total_len (of_nat (e_len e))) = unat (consumer r) + total_size (e_len e)"
    using unat_next_pos [OF assms, of e] by (simp add: pos)
qed

text \<open>What the consumer finds: the first entry that is not discarded.\<close>

fun skip_discarded :: "entry list \<Rightarrow> entry list" where
  "skip_discarded (e # es) = (if e_state e = Discarded then skip_discarded es else e # es)"
| "skip_discarded [] = []"

fun visible :: "ring \<Rightarrow> entry list \<Rightarrow> consumed option" where
  "visible r (e # es) =
     (if e_state e = Committed
      then Some \<lparr>rec_data = payload r e, rec_total_len = consumer r + record_total_len (of_nat (e_len e))\<rparr>
      else None)"
| "visible r [] = None"

lemma consume_linked:
  assumes "linked r es"
  shows "\<exists>r'. consume r = Some (visible r' (skip_discarded es), r') \<and>
           linked r' (skip_discarded es) \<and> payload r' = payload r \<and> producer r' = producer r"
  using assms
proof (induction es arbitrary: r)
  case Nil
  then have "producer r \<le> consumer r" using linked_empty by blast
  with Nil show ?case
    by (subst consume.simps) (simp add: ring_defs)
next
  case (Cons e es)
  note head = linked_head [OF Cons.prems]
  show ?case
  proof (cases "e_state e = Discarded")
    case True
    let ?r = "advance_consumer (consumer r + record_total_len (of_nat (e_len e))) r"
    have "linked ?r es" and pay: "payload ?r = payload r"
      using linked_pop [OF Cons.prems head(4)] by auto
    moreover have "consume r = consume ?r"
      using head(2,3) True by (subst consume.simps) (simp add: consumer_pos_def producer_pos_def Let_def)
    moreover have "producer ?r = producer r" by (simp add: advance_consumer_def)
    ultimately show ?thesis using Cons.IH [of ?r] True by simp
  next
    case False
    have off: "record_offset r (consumer r) = unat (consumer r) mod unat (data_size r)"
      using Cons.prems by (simp add: linked_def record_offset_mod)
    have "payload r e = read_data r (record_offset r (consumer r) + 8) (unat (of_nat (e_len e) :: u32))"
      using Cons.prems off by (simp add: payload_def read_data_def head(1) linked_def entry_ok_def unat_of_nat_u32)
    then have "consume r = Some (visible r (e # es), r)"
      using head(2,3) False by (cases "e_state e"; subst consume.simps)
        (simp_all add: consumer_pos_def producer_pos_def HEADER_SIZE_def Let_def)
    with False Cons.prems show ?thesis by simp
  qed
qed

lemma unat_new_prod_pos:
  assumes "unat (producer r) < POS_LIMIT + 2 * SIZE_LIMIT" and "unat sz < SIZE_LIMIT"
  shows "unat (producer r + round_up_to_8 (sz + HEADER_SIZE)) = unat (producer r) + total_size (unat sz)"
proof -
  have "unat (round_up_to_8 (sz + HEADER_SIZE)) = total_size (unat sz)"
    using assms(2) by (intro unat_total_size) (simp add: SIZE_LIMIT_def)
  moreover have "unat (producer r) + total_size (unat sz) < 2 ^ LENGTH(64)"
    using assms total_size_less [of "unat sz"] by (simp add: POS_LIMIT_def SIZE_LIMIT_def)
  ultimately show ?thesis using unat_add_small by metis
qed

text \<open>The space check, read on naturals: the new end stays within one buffer of the
  consumer position that was loaded.\<close>

lemma space_check:
  assumes l: "linked r es" and n: "unat sz < SIZE_LIMIT" and c: "unat cpos \<le> unat (consumer r)"
  shows "size_mask r < producer r + round_up_to_8 (sz + HEADER_SIZE) - cpos \<longleftrightarrow>
         unat cpos + unat (data_size r) \<le> unat (producer r) + total_size (unat sz)"
proof -
  have D: "1 \<le> unat (data_size r)" and p: "unat (producer r) < POS_LIMIT + 2 * SIZE_LIMIT"
    using l by (auto simp: linked_def size_ok_def)
  have "unat (size_mask r) = unat (data_size r) - 1"
    using D unat_sub_small [of 1 "data_size r"] by (simp add: size_mask_def)
  moreover have "unat (producer r + round_up_to_8 (sz + HEADER_SIZE) - cpos) =
      unat (producer r) + total_size (unat sz) - unat cpos"
    using linked_consumer_le [OF l] c unat_new_prod_pos [OF p n]
    by (simp add: unat_sub_small)
  ultimately show ?thesis
    using D linked_consumer_le [OF l] c by (auto simp: word_less_nat_alt)
qed

lemma reserve_locked_linked:
  assumes l: "linked r es" and n: "unat sz < SIZE_LIMIT" and p: "unat (producer r) < POS_LIMIT"
    and c: "unat cpos \<le> unat (consumer r)"
    and ok: "reserve_locked sz cpos r = (Inr b, r')"
  shows "linked r' (es @ [\<lparr>e_pos = unat (producer r), e_len = unat sz, e_state = Busy i\<rparr>])"
    and "map (payload r') es = map (payload r) es"
    and "b = \<lparr>rb_off = unat (producer r) mod unat (data_size r), rb_size = sz\<rparr>"
    and "unat (producer r') = unat (producer r) + total_size (unat sz)"
proof -
  let ?p = "unat (producer r)" and ?new = "producer r + round_up_to_8 (sz + HEADER_SIZE)"
  let ?h = "header_new (ucast sz)"
  let ?r = "write_header ?p ?h r"
  have so: "size_ok r" using l by (simp add: linked_def)
  have new: "unat ?new = ?p + total_size (unat sz)"
    using unat_new_prod_pos [of r sz] p n by (simp add: SIZE_LIMIT_def)
  from ok have nofull: "\<not> size_mask r < ?new - cpos"
    by (auto simp: reserve_locked_def Let_def producer_pos_def split: if_splits)
  with ok so have r': "r' = advance_producer ?new ?r"
    and b: "b = \<lparr>rb_off = ?p mod unat (data_size r), rb_size = sz\<rparr>"
    by (auto simp: reserve_locked_def Let_def producer_pos_def record_offset_mod)
  from b show "b = \<lparr>rb_off = ?p mod unat (data_size r), rb_size = sz\<rparr>" .
  have room: "?p + total_size (unat sz) < unat (consumer r) + unat (data_size r)"
    using nofull space_check [OF l n c] c by linarith
  then have "?p + 8 \<le> unat (consumer r) + unat (data_size r)"
    using total_size_bounds(1) [of "unat sz"] by linarith
  note ahead = linked_header_ahead [OF l this, of ?h]
  have "read_header ?r ?p = header_new (of_nat (unat sz))"
    using so by (simp add: read_write_header size_ok_def)
  note push = linked_push [OF ahead(1) n, where new = ?new]
  show "linked r' (es @ [\<lparr>e_pos = ?p, e_len = unat sz, e_state = Busy i\<rparr>])"
    using push(1) \<open>read_header ?r ?p = _\<close> room new p by (simp add: r')
  show "map (payload r') es = map (payload r) es"
    using push(2) \<open>read_header ?r ?p = _\<close> room new p ahead(2) by (simp add: r')
  show "unat (producer r') = ?p + total_size (unat sz)"
    using new by (simp add: r' advance_producer_def)
qed

lemma spinlock_indep [simp]:
  "linked (r\<lparr>spinlock := x\<rparr>) es = linked r es" "payload (r\<lparr>spinlock := x\<rparr>) e = payload r e"
  "read_header (r\<lparr>spinlock := x\<rparr>) a = read_header r a" "read_data (r\<lparr>spinlock := x\<rparr>) a n = read_data r a n"
  "record_offset (r\<lparr>spinlock := x\<rparr>) pos = record_offset r pos"
  "size_mask (r\<lparr>spinlock := x\<rparr>) = size_mask r"
  by (simp_all add: linked_def size_ok_def entry_ok_def [abs_def] payload_def read_header_def read_data_def
      record_offset_def size_mask_def)

lemma spinlock_write [simp]:
  "write_header a h (r\<lparr>spinlock := x\<rparr>) = (write_header a h r)\<lparr>spinlock := x\<rparr>"
  "write_data a bs (r\<lparr>spinlock := x\<rparr>) = (write_data a bs r)\<lparr>spinlock := x\<rparr>"
  "advance_producer v (r\<lparr>spinlock := x\<rparr>) = (advance_producer v r)\<lparr>spinlock := x\<rparr>"
  by (simp_all add: write_header_def write_data_def advance_producer_def)

lemma reserve_locked_spinlock:
  "reserve_locked sz cpos (r\<lparr>spinlock := x\<rparr>) =
     (case reserve_locked sz cpos r of (res, r') \<Rightarrow> (res, r'\<lparr>spinlock := x\<rparr>))"
  by (simp add: reserve_locked_def Let_def producer_pos_def)

text \<open>Committing and discarding the entry a buffer belongs to.\<close>

lemma buffer_commit_linked:
  assumes l: "linked r (xs @ e # ys)" and off: "rb_off b = e_pos e mod unat (data_size r)"
  shows "linked (buffer_commit b r) (xs @ e\<lparr>e_state := Committed\<rparr> # ys)"
    and "map (payload (buffer_commit b r)) (xs @ e\<lparr>e_state := Committed\<rparr> # ys) =
         map (payload r) (xs @ e # ys)"
proof -
  have "entry_ok r e" using l by (simp add: linked_def)
  then have "header_len_and_flags (header_commit (read_header r (e_pos e))) =
      (of_nat (e_len e), state_flags Committed)"
    by (simp add: entry_ok_def)
  from linked_set_state [OF l this]
  show "linked (buffer_commit b r) (xs @ e\<lparr>e_state := Committed\<rparr> # ys)"
    and "map (payload (buffer_commit b r)) (xs @ e\<lparr>e_state := Committed\<rparr> # ys) =
         map (payload r) (xs @ e # ys)"
    by (simp_all add: buffer_commit_def off)
qed

lemma buffer_discard_linked:
  assumes l: "linked r (xs @ e # ys)" and off: "rb_off b = e_pos e mod unat (data_size r)"
  shows "linked (buffer_discard_header b r) (xs @ e\<lparr>e_state := Discarded\<rparr> # ys)"
    and "map (payload (buffer_discard_header b r)) (xs @ e\<lparr>e_state := Discarded\<rparr> # ys) =
         map (payload r) (xs @ e # ys)"
proof -
  have "entry_ok r e" using l by (simp add: linked_def)
  then have "header_len_and_flags (header_discard (read_header r (e_pos e))) =
      (of_nat (e_len e), state_flags Discarded)"
    by (simp add: entry_ok_def)
  from linked_set_state [OF l this]
  show "linked (buffer_discard_header b r) (xs @ e\<lparr>e_state := Discarded\<rparr> # ys)"
    and "map (payload (buffer_discard_header b r)) (xs @ e\<lparr>e_state := Discarded\<rparr> # ys) =
         map (payload r) (xs @ e # ys)"
    by (simp_all add: buffer_discard_header_def off)
qed

lemma is_discarded_linked:
  assumes "linked r (xs @ e # ys)" and "rb_off b = e_pos e mod unat (data_size r)"
  shows "header_is_discarded (read_header r (rb_off b)) \<longleftrightarrow> e_state e = Discarded"
proof -
  have "entry_ok r e" using assms(1) by (simp add: linked_def)
  then show ?thesis
    using assms(2) by (cases "e_state e") (simp_all add: entry_ok_def header_is_discarded_iff)
qed

section \<open>First in, first out\<close>

primrec push_all :: "('m \<Rightarrow> 'q \<Rightarrow> 'q option) \<Rightarrow> 'm list \<Rightarrow> 'q \<Rightarrow> 'q option" where
  "push_all push [] q = Some q"
| "push_all push (m # ms) q = Option.bind (push m q) (push_all push ms)"

primrec pop_n :: "('q \<Rightarrow> ('m option \<times> 'q) option) \<Rightarrow> nat \<Rightarrow> 'q \<Rightarrow> ('m list \<times> 'q) option" where
  "pop_n pop 0 q = Some ([], q)"
| "pop_n pop (Suc n) q =
     (case pop q of
        Some (Some m, q') \<Rightarrow> map_option (\<lambda>(ms, q''). (m # ms, q'')) (pop_n pop n q')
      | Some (None, q') \<Rightarrow> Some ([], q')
      | None \<Rightarrow> None)"

text \<open>
  The interface a channel built on the ring relies on. \<open>rep k q ms\<close>: the queue \<open>q\<close> holds
  the messages \<open>ms\<close>, oldest first, and its counters leave room for \<open>k\<close> more bytes.
\<close>

locale fifo_queue =
  fixes rep :: "nat \<Rightarrow> 'q \<Rightarrow> 'm list \<Rightarrow> bool"
    and fits :: "'m \<Rightarrow> bool"
    and cost :: "'m \<Rightarrow> nat"
    and push :: "'m \<Rightarrow> 'q \<Rightarrow> 'q option"
    and pop :: "'q \<Rightarrow> ('m option \<times> 'q) option"
  assumes push_rep: "\<lbrakk>rep (k + cost m) q ms; fits m; push m q = Some q'\<rbrakk> \<Longrightarrow> rep k q' (ms @ [m])"
    and pop_empty: "rep k q [] \<Longrightarrow> \<exists>q'. pop q = Some (None, q') \<and> rep k q' []"
    and pop_next: "rep k q (m # ms) \<Longrightarrow> \<exists>q'. pop q = Some (Some m, q') \<and> rep k q' ms"
begin

lemma push_all_rep:
  "\<lbrakk>rep (k + sum_list (map cost new)) q ms; list_all fits new; push_all push new q = Some q'\<rbrakk>
   \<Longrightarrow> rep k q' (ms @ new)"
proof (induction new arbitrary: q ms)
  case (Cons m new)
  from Cons.prems(3) obtain q1 where q1: "push m q = Some q1" "push_all push new q1 = Some q'"
    by (auto simp: Option.bind_eq_Some_conv)
  have "rep (k + sum_list (map cost new) + cost m) q ms"
    using Cons.prems(1) by (simp add: ac_simps)
  with q1(1) Cons.prems(2) have "rep (k + sum_list (map cost new)) q1 (ms @ [m])"
    by (intro push_rep [of _ m q]) auto
  with q1(2) Cons.prems(2) Cons.IH [of q1 "ms @ [m]"] show ?case by simp
qed simp

lemma pop_n_drains: "rep k q ms \<Longrightarrow> \<exists>q'. pop_n pop (length ms) q = Some (ms, q') \<and> rep k q' []"
proof (induction ms arbitrary: q)
  case (Cons m ms)
  from pop_next [OF Cons.prems] obtain q1 where "pop q = Some (Some m, q1)" "rep k q1 ms" by blast
  with Cons.IH [of q1] show ?case by auto
qed auto

lemma fifo:
  assumes "rep (k + sum_list (map cost new)) q ms" "list_all fits new" "push_all push new q = Some q'"
  shows "\<exists>q''. pop_n pop (length (ms @ new)) q' = Some (ms @ new, q'') \<and>
           (\<exists>q3. pop q'' = Some (None, q3))"
  using pop_n_drains [OF push_all_rep [OF assms]] pop_empty by blast

end

text \<open>
  The ring as such a queue: a message is sent by reserving a record, filling it and
  dropping the reserved buffer, and received by consuming a record and dropping it.
\<close>

definition ring_push ::
  "wakeup_strategy \<Rightarrow> string option \<Rightarrow> bytes \<Rightarrow> ring \<times> nat \<Rightarrow> (ring \<times> nat) option" where
  "ring_push strategy write_error m s =
     (case s of (r, efd) \<Rightarrow>
        (case reserve True (of_nat (length m)) r of
           (Inl e, r1) \<Rightarrow> None
         | (Inr b, r1) \<Rightarrow>
             map_option (\<lambda>r2. buffer_drop strategy write_error b (r2, efd)) (buffer_write b 0 m r1)))"

definition ring_pop :: "ring \<times> nat \<Rightarrow> (bytes option \<times> ring \<times> nat) option" where
  "ring_pop s =
     (case s of (r, efd) \<Rightarrow>
        (case consume r of
           None \<Rightarrow> None
         | Some (None, r') \<Rightarrow> Some (None, r', efd)
         | Some (Some rec, r') \<Rightarrow> Some (Some (rec_data rec), record_drop rec r', efd)))"

definition settled :: "entry list \<Rightarrow> bool" where
  "settled es \<longleftrightarrow> list_all (\<lambda>e. e_state e = Committed \<or> e_state e = Discarded) es"

definition messages :: "ring \<Rightarrow> entry list \<Rightarrow> bytes list" where
  "messages r es = map (payload r) (filter (\<lambda>e. e_state e = Committed) es)"

definition ring_rep :: "nat \<Rightarrow> ring \<times> nat \<Rightarrow> bytes list \<Rightarrow> bool" where
  "ring_rep k s ms \<longleftrightarrow>
     (\<exists>es. linked (fst s) es \<and> settled es \<and> messages (fst s) es = ms \<and>
           unat (producer (fst s)) + k \<le> POS_LIMIT)"

definition msg_fits :: "bytes \<Rightarrow> bool" where
  "msg_fits m \<longleftrightarrow> length m < SIZE_LIMIT"

definition msg_cost :: "bytes \<Rightarrow> nat" where
  "msg_cost m = total_size (length m)"

lemma messages_cong:
  "map (payload r') es = map (payload r) es \<Longrightarrow> messages r' es = messages r es"
  by (auto simp: messages_def)

lemma messages_skip: "messages r (skip_discarded es) = messages r es"
  by (induction es) (auto simp: messages_def)

lemma settled_skip: "settled es \<Longrightarrow> settled (skip_discarded es)"
  by (induction es) (auto simp: settled_def)

text \<open>Filling a fresh record completely and publishing it.\<close>

lemma send_linked:
  assumes l: "linked r (es @ [e])" and e: "e_state e = Busy i" and m: "length m = e_len e"
    and b: "rb_off b = e_pos e mod unat (data_size r)" "unat (rb_size b) = e_len e"
  shows "\<exists>r2. buffer_write b 0 m r = Some r2 \<and>
    (let r' = fst (buffer_drop strategy err b (r2, efd)) in
       linked r' (es @ [e\<lparr>e_state := Committed\<rparr>]) \<and> map (payload r') es = map (payload r) es \<and>
       payload r' e = m \<and> producer r' = producer r)"
proof -
  let ?r2 = "write_data (e_pos e + 8) m r"
  have w: "buffer_write b 0 m r = Some ?r2"
    using m b by (simp add: buffer_write_def HEADER_SIZE_def)
  have fill: "linked ?r2 (es @ [e])" "map (payload ?r2) es = map (payload r) es" "payload ?r2 e = m"
    using linked_fill [OF l, of 0 m] m by (simp_all add: payload_def read_data_def)
  have off: "rb_off b = e_pos e mod unat (data_size ?r2)" using b by simp
  have "fst (buffer_drop strategy err b (?r2, efd)) = buffer_commit b ?r2"
    using is_discarded_linked [OF fill(1) off] e by (simp add: buffer_drop_def)
  moreover have "producer (buffer_commit b ?r2) = producer r" by (simp add: buffer_commit_def)
  ultimately show ?thesis
    using w buffer_commit_linked [OF fill(1) off] fill(2,3) by (simp add: Let_def)
qed

lemma ring_push_rep:
  assumes rep: "ring_rep (k + msg_cost m) q ms" and fits: "msg_fits m"
    and push: "ring_push strategy err m q = Some q'"
  shows "ring_rep k q' (ms @ [m])"
proof -
  obtain r efd where q: "q = (r, efd)" by force
  from rep q obtain es where es: "linked r es" "settled es" "messages r es = ms"
    "unat (producer r) + k + msg_cost m \<le> POS_LIMIT" by (auto simp: ring_rep_def)
  let ?sz = "of_nat (length m) :: usize"
  have sz: "unat ?sz = length m"
    by (rule unat_of_nat_small) (use fits in \<open>simp add: msg_fits_def SIZE_LIMIT_def\<close>)
  from push q obtain b r1 where res: "reserve_locked ?sz (consumer r) r = (Inr b, r1)"
    and q': "map_option (\<lambda>r2. buffer_drop strategy err b (r2, efd))
               (buffer_write b 0 m (r1\<lparr>spinlock := False\<rparr>)) = Some q'"
    by (auto simp: ring_push_def reserve_def Let_def consumer_pos_def reserve_locked_spinlock
        split: prod.splits sum.splits)
  let ?e = "\<lparr>e_pos = unat (producer r), e_len = length m, e_state = Busy 0\<rparr>"
  have p: "unat (producer r) < POS_LIMIT"
    using es(4) total_size_bounds(1) [of "length m"] by (simp add: msg_cost_def)
  note rl = reserve_locked_linked [OF es(1) _ p order.refl res, unfolded sz]
  have small: "length m < SIZE_LIMIT" using fits by (simp add: msg_fits_def)
  have ds: "data_size r1 = data_size r"
    using res by (auto simp: reserve_locked_def Let_def advance_producer_def split: if_splits)
  have "linked (r1\<lparr>spinlock := False\<rparr>) (es @ [?e])" using rl(1) [of 0] small by simp
  from send_linked [OF this, of 0 m b strategy err efd] rl(3) small ds sz q'
  have fin: "linked (fst q') (es @ [?e\<lparr>e_state := Committed\<rparr>])" "map (payload (fst q')) es = map (payload r) es"
    "payload (fst q') ?e = m" "producer (fst q') = producer r1"
    using rl(2) by (auto simp: Let_def)
  have "messages (fst q') (es @ [?e\<lparr>e_state := Committed\<rparr>]) = ms @ [m]"
  proof -
    have "messages (fst q') (es @ [e]) = messages (fst q') es @ messages (fst q') [e]" for e
      by (simp add: messages_def)
    moreover have "messages (fst q') [?e\<lparr>e_state := Committed\<rparr>] = [m]"
      using fin(3) by (simp add: messages_def payload_def)
    ultimately show ?thesis
      using messages_cong [OF fin(2)] es(3) by simp
  qed
  moreover have "settled (es @ [?e\<lparr>e_state := Committed\<rparr>])"
    using es(2) by (simp add: settled_def)
  ultimately show ?thesis
    using fin(1,4) rl(4) small es(4) unfolding ring_rep_def msg_cost_def by force
qed

lemma ring_pop_visible:
  assumes rep: "linked r es" "settled es" "unat (producer r) + k \<le> POS_LIMIT"
  shows "\<exists>s'. ring_pop (r, efd) =
           Some (if messages r es = [] then None else Some (hd (messages r es)), s') \<and>
         ring_rep k s' (tl (messages r es))"
proof -
  from consume_linked [OF rep(1)] obtain r' where
    r': "consume r = Some (visible r' (skip_discarded es), r')" "linked r' (skip_discarded es)"
      "payload r' = payload r" "producer r' = producer r" by blast
  have ms: "messages r es = messages r' (skip_discarded es)"
    using r'(3) by (simp add: messages_def [of r] messages_def [of r'] messages_skip
        flip: messages_skip [of r es])
  show ?thesis
  proof (cases "skip_discarded es")
    case Nil
    with r' rep(3) ms show ?thesis
      unfolding ring_rep_def ring_pop_def by (auto simp: messages_def settled_def)
  next
    case (Cons e es')
    have st: "settled (e # es')" using settled_skip [OF rep(2)] Cons by simp
    have "e_state e \<noteq> Discarded"
      using Cons by (induction es) (auto split: if_splits)
    with st have e: "e_state e = Committed" by (auto simp: settled_def)
    let ?new = "consumer r' + record_total_len (of_nat (e_len e))"
    have "linked r' (e # es')" using r'(2) Cons by simp
    note pop = linked_pop [OF this linked_head(4) [OF this]]
    have "messages (advance_consumer ?new r') es' = messages r' es'"
      by (rule messages_cong) (simp add: pop(2))
    moreover have "producer (advance_consumer ?new r') = producer r"
      using r'(4) by (simp add: advance_consumer_def)
    ultimately have "ring_rep k (advance_consumer ?new r', efd) (messages r' es')"
      using pop(1) st rep(3) unfolding ring_rep_def settled_def by auto
    with r'(1) Cons e ms show ?thesis
      by (simp add: ring_pop_def record_drop_def messages_def)
  qed
qed

interpretation ring_queue: fifo_queue ring_rep msg_fits msg_cost "ring_push strategy err" ring_pop
  for strategy err
proof (unfold_locales, goal_cases)
  case (1 k m q ms q')
  then show ?case by (rule ring_push_rep)
next
  case (2 k q)
  then show ?case
    using ring_pop_visible [of "fst q" _ k "snd q"] by (fastforce simp: ring_rep_def)
next
  case (3 k q m ms)
  then show ?case
    using ring_pop_visible [of "fst q" _ k "snd q"] by (fastforce simp: ring_rep_def)
qed

section \<open>Evaluation\<close>

text \<open>Rules that run the operations on concrete rings: a header read sees the last header
  write at its offset, and ignores writes elsewhere.\<close>

lemma read_header_other:
  assumes "a + 8 \<le> b \<or> b + length bs \<le> a" "a + 8 \<le> unat (data_size r)" "b + length bs \<le> unat (data_size r)"
  shows "read_header (write_data b bs r) a = read_header r a"
  using get_put_other [of 0 a 8 "unat (data_size r)" b bs "data r"] assms
  by (simp add: read_header_def read_data_def write_data_def)

lemma read_header_other':
  assumes "a + 8 \<le> b \<or> b + 8 \<le> a" "a + 8 \<le> unat (data_size r)" "b + 8 \<le> unat (data_size r)"
  shows "read_header (write_header b h r) a = read_header r a"
  using read_header_other [of a b "bytes_of_u64 h"] assms by (simp add: write_header_def)

lemma advance_fields [simp]:
  "data_size (advance_producer v r) = data_size r" "consumer (advance_producer v r) = consumer r"
  "producer (advance_producer v r) = v" "spinlock (advance_producer v r) = spinlock r"
  "data_size (advance_consumer v r) = data_size r" "consumer (advance_consumer v r) = v"
  "producer (advance_consumer v r) = producer r" "spinlock (advance_consumer v r) = spinlock r"
  by (simp_all add: advance_producer_def advance_consumer_def)

lemma size_mask_fields [simp]:
  "size_mask (write_header a h r) = size_mask r" "size_mask (write_data a bs r) = size_mask r"
  "size_mask (advance_consumer v r) = size_mask r" "size_mask (advance_producer v r) = size_mask r"
  by (simp_all add: size_mask_def)

lemma read_header_advance [simp]:
  "read_header (advance_producer v r) a = read_header r a"
  "read_header (advance_consumer v r) a = read_header r a"
  by (simp_all add: read_header_def read_data_def advance_producer_def advance_consumer_def)

lemma read_data_same: "length bs \<le> unat (data_size r) \<Longrightarrow> n = length bs \<Longrightarrow> read_data (write_data a bs r) a n = bs"
  by (simp add: read_data_def write_data_def get_put_same)

lemma read_data_other:
  assumes "a + n \<le> b \<or> b + 8 \<le> a" "a + n \<le> unat (data_size r)" "b + 8 \<le> unat (data_size r)"
  shows "read_data (write_header b h r) a n = read_data r a n"
  using get_put_other [of 0 a n "unat (data_size r)" b "bytes_of_u64 h" "data r"] assms
  by (simp add: read_data_def write_data_def write_header_def)

lemmas ring_eval = Let_def reserve_def reserve_locked_def record_offset_def HEADER_SIZE_def
  round_up_to_8_def div_ceil_def header_is_discarded_iff buffer_discard_header_def buffer_commit_def
  buffer_write_def buffer_drop_def buffer_discard_def read_write_header read_header_other
  read_header_other' consumer_pos_def producer_pos_def record_total_len_def notify_def

section \<open>Properties of the sequential operations\<close>

definition ring_init :: "usize \<Rightarrow> ring" where
  "ring_init n = metadata.extend metadata_new \<lparr>data_size = n, data = (\<lambda>_. 0)\<rparr>"

lemma ring_init_simps [simp]:
  "consumer (ring_init n) = 0" "producer (ring_init n) = 0" "data_size (ring_init n) = n"
  "size_mask (ring_init n) = n - 1" "spinlock (ring_init n) = False" "dropped (ring_init n) = 0" "data (ring_init n) = (\<lambda>_. 0)"
  by (simp_all add: ring_init_def metadata_new_def metadata.defs size_mask_def)

lemma linked_init: "is_power_of_two n \<Longrightarrow> 8 \<le> unat n \<Longrightarrow> linked (ring_init n) []"
  by (simp add: linked_def size_ok_def POS_LIMIT_def)

lemma ring_rep_init:
  "is_power_of_two n \<Longrightarrow> 8 \<le> unat n \<Longrightarrow> k \<le> POS_LIMIT \<Longrightarrow> ring_rep k (ring_init n, efd) []"
  unfolding ring_rep_def using linked_init [of n] by (auto simp: settled_def messages_def)



text \<open>
  \<open>Consumer::consume\<close> always returns on such a ring. It skips exactly the discarded
  records at the front, returns the payload of the next record if that record is committed
  and nothing if it is busy or absent, and changes no payload. Dropping the returned record
  then removes that record and no other.
\<close>

theorem consume_outcome:
  assumes "linked r es"
  shows "\<exists>r'. consume r = Some (visible r' (skip_discarded es), r') \<and>
           linked r' (skip_discarded es) \<and> payload r' = payload r \<and>
           (case visible r' (skip_discarded es) of
              None \<Rightarrow> True
            | Some rec \<Rightarrow> linked (record_drop rec r') (tl (skip_discarded es)))"
proof -
  from consume_linked [OF assms] obtain r' where
    r': "consume r = Some (visible r' (skip_discarded es), r')" "linked r' (skip_discarded es)"
      "payload r' = payload r" by blast
  moreover have "case visible r' (skip_discarded es) of None \<Rightarrow> True
            | Some rec \<Rightarrow> linked (record_drop rec r') (tl (skip_discarded es))"
    using r'(2) linked_pop(1) linked_head(4)
    by (cases "skip_discarded es") (auto simp: record_drop_def)
  ultimately show ?thesis by blast
qed

text \<open>
  C12: messages sent through the ring (reserve, fill, drop) are received (consume, drop)
  completely, unchanged and in order, after the messages that were already waiting; then the
  ring is empty. The hypotheses bound each message by 4 GiB and the bytes that pass through
  the ring by the range of its counters.
\<close>

theorem ring_fifo:
  assumes "ring_rep (k + sum_list (map msg_cost new)) q ms" and "list_all msg_fits new"
    and "push_all (ring_push strategy err) new q = Some q'"
  shows "\<exists>q''. pop_n ring_pop (length (ms @ new)) q' = Some (ms @ new, q'') \<and>
           (\<exists>q3. ring_pop q'' = Some (None, q3))"
  using ring_queue.fifo [OF assms] .

theorem ring_fifo_witness:
  "\<exists>q' q''. push_all (ring_push Forced None) [[1, 2, 3], [4]] (ring_init 64, 0) = Some q' \<and>
     pop_n ring_pop 2 q' = Some ([[1, 2, 3], [4]], q'') \<and> (\<exists>q3. ring_pop q'' = Some (None, q3))"
proof -
  obtain q' where q': "push_all (ring_push Forced None) [[1, 2, 3], [4]] (ring_init 64, 0) = Some q'"
    by (simp add: ring_push_def ring_eval)
  have "ring_rep (0 + sum_list (map msg_cost [[1, 2, 3], [4]])) (ring_init 64, 0) []"
    by (intro ring_rep_init) (simp_all add: msg_cost_def total_size_def round8_def POS_LIMIT_def)
  from ring_fifo [OF this _ q'] q' show ?thesis
    by (simp add: msg_fits_def SIZE_LIMIT_def) (simp add: numeral_2_eq_2)
qed

text \<open>A ring that holds a discarded record followed by a committed one.\<close>

definition sample_ring :: ring where
  "sample_ring =
     (let r = snd (reserve True 8 (ring_init 64));
          s = buffer_discard NoWakeup None \<lparr>rb_off = 0, rb_size = 8\<rparr> (r, 0)
      in fst (the (ring_push Forced None [1, 2, 3] s)))"

definition sample_entries :: "entry list" where
  "sample_entries =
     [\<lparr>e_pos = 0, e_len = 8, e_state = Discarded\<rparr>, \<lparr>e_pos = 16, e_len = 3, e_state = Committed\<rparr>]"

lemma sample_linked: "linked sample_ring sample_entries"
proof -
  have "producer sample_ring = 32" "consumer sample_ring = 0" "data_size sample_ring = 64"
    "is_power_of_two 64"
    "header_len_and_flags (read_header sample_ring 0) = (8, DISCARD_FLAG)"
    "header_len_and_flags (read_header sample_ring 16) = (3, 0)"
    by (simp_all add: sample_ring_def ring_push_def ring_eval)
  then show ?thesis
    by (simp add: linked_def size_ok_def sample_entries_def entry_ok_def total_size_def round8_def
        POS_LIMIT_def SIZE_LIMIT_def)
qed

theorem consume_outcome_witness:
  "\<exists>rec r'. consume sample_ring = Some (Some rec, r') \<and> rec_data rec = [1, 2, 3] \<and>
     linked (record_drop rec r') []"
proof -
  have "payload sample_ring \<lparr>e_pos = 16, e_len = 3, e_state = Committed\<rparr> = [1, 2, 3]"
    by (simp add: sample_ring_def ring_push_def ring_eval payload_def read_data_same
        read_data_other)
  with consume_outcome [OF sample_linked] show ?thesis
    by (auto simp: sample_entries_def)
qed

end
