(* ===== verification/Mpsc_Concurrent.thy ===== *)
theory Mpsc_Concurrent
  imports Mpsc_Ring
begin

text \<open>
  The ring buffer under concurrent use: any number of producers and one consumer, each
  executing \<^verbatim>\<open>producer.rs\<close> / \<^verbatim>\<open>consumer.rs\<close> as a sequence of steps that touch the shared memory
  at most once, interleaved arbitrarily (sequentially consistent interleaving; the
  acquire/release orderings of the source are what makes it a sound reading on hardware).
  The program counter and the local variables of each thread are \<open>pstate\<close> and \<open>cstate\<close>;
  \<open>exec\<close> is the step of one thread. The invariant \<open>inv\<close> ties the threads' local variables
  to the records in the window, and the abstract queue \<open>mq\<close> is the specification that the
  steps refine.
\<close>

section \<open>Threads and their steps\<close>

datatype pstate =
    PIdle
  | PLoaded usize u64
  | PLocked usize u64
  | PChecked usize u64 u64
  | PHeader usize u64 u64
  | PAdvanced reserved_buffer
  | PReserved reserved_buffer
  | PDiscarded reserved_buffer
  | PCommitting reserved_buffer
  | PNotifying

datatype cstate = CIdle | CLoaded u64 | CSeen u64 | CRecord nat u32 u64 | CSkip u64

record sys =
  rb :: ring
  pst :: "nat \<Rightarrow> pstate"
  cst :: cstate
  efd :: nat
  strategy :: wakeup_strategy
  delivered :: "bytes list"

datatype label =
    PStart nat usize
  | PLock nat
  | PTimeout nat
  | PCheck nat
  | PHdr nat
  | PAdvance nat
  | PUnlock nat
  | PWrite nat nat bytes
  | PDiscard nat
  | PDrop nat
  | PCommit nat
  | PNotify nat
  | PCountDropped nat
  | CLoadConsumer
  | CLoadProducer
  | CReadHeader
  | CAdvance
  | CDropRecord

text \<open>\<open>Producer::reserve\<close>, one access at a time. The lock is taken when the
  compare-exchange finds it free (\<open>PLock\<close>) or given up (\<open>PTimeout\<close>).\<close>

definition exec_reserve :: "label \<Rightarrow> nat \<Rightarrow> sys \<Rightarrow> sys option" where
  "exec_reserve l i s =
     (let r = rb s in
      case (l, pst s i) of
        (PStart _ sz, PIdle) \<Rightarrow> Some (s\<lparr>pst := (pst s)(i := PLoaded sz (consumer_pos r))\<rparr>)
      | (PLock _, PLoaded sz cpos) \<Rightarrow>
          if spinlock r then None
          else Some (s\<lparr>rb := r\<lparr>spinlock := True\<rparr>, pst := (pst s)(i := PLocked sz cpos)\<rparr>)
      | (PTimeout _, PLoaded sz cpos) \<Rightarrow> Some (s\<lparr>pst := (pst s)(i := PIdle)\<rparr>)
      | (PCheck _, PLocked sz cpos) \<Rightarrow>
          (let ppos = producer_pos r; new_prod_pos = ppos + round_up_to_8 (sz + HEADER_SIZE)
           in if size_mask r < new_prod_pos - cpos
              then Some (s\<lparr>rb := r\<lparr>spinlock := False\<rparr>, pst := (pst s)(i := PIdle)\<rparr>)
              else Some (s\<lparr>pst := (pst s)(i := PChecked sz ppos new_prod_pos)\<rparr>))
      | (PHdr _, PChecked sz ppos new_prod_pos) \<Rightarrow>
          Some (s\<lparr>rb := write_header (record_offset r ppos) (header_new (ucast sz)) r,
                  pst := (pst s)(i := PHeader sz ppos new_prod_pos)\<rparr>)
      | (PAdvance _, PHeader sz ppos new_prod_pos) \<Rightarrow>
          Some (s\<lparr>rb := advance_producer new_prod_pos r,
                  pst := (pst s)(i := PAdvanced \<lparr>rb_off = record_offset r ppos, rb_size = sz\<rparr>)\<rparr>)
      | (PUnlock _, PAdvanced b) \<Rightarrow>
          Some (s\<lparr>rb := r\<lparr>spinlock := False\<rparr>, pst := (pst s)(i := PReserved b)\<rparr>)
      | _ \<Rightarrow> None)"

text \<open>The life of a \<open>ReservedBuffer\<close>: stores into its slice, \<open>discard\<close>, and \<open>drop\<close>.\<close>

definition exec_buffer :: "label \<Rightarrow> nat \<Rightarrow> sys \<Rightarrow> sys option" where
  "exec_buffer l i s =
     (let r = rb s in
      case (l, pst s i) of
        (PWrite _ k bs, PReserved b) \<Rightarrow> map_option (\<lambda>r'. s\<lparr>rb := r'\<rparr>) (buffer_write b k bs r)
      | (PDiscard _, PReserved b) \<Rightarrow>
          Some (s\<lparr>rb := buffer_discard_header b r, pst := (pst s)(i := PDiscarded b)\<rparr>)
      | (PDrop _, PReserved b) \<Rightarrow>
          Some (s\<lparr>pst := (pst s)(i := if header_is_discarded (read_header r (rb_off b))
                                      then PNotifying else PCommitting b)\<rparr>)
      | (PDrop _, PDiscarded b) \<Rightarrow>
          Some (s\<lparr>pst := (pst s)(i := if header_is_discarded (read_header r (rb_off b))
                                      then PNotifying else PCommitting b)\<rparr>)
      | (PCommit _, PCommitting b) \<Rightarrow>
          Some (s\<lparr>rb := buffer_commit b r, pst := (pst s)(i := PNotifying)\<rparr>)
      | (PNotify _, PNotifying) \<Rightarrow>
          Some (s\<lparr>efd := (case strategy s of Forced \<Rightarrow> snd (notify None (efd s)) | NoWakeup \<Rightarrow> efd s),
                  pst := (pst s)(i := PIdle)\<rparr>)
      | (PCountDropped _, PIdle) \<Rightarrow> Some (s\<lparr>rb := increment_dropped r\<rparr>)
      | _ \<Rightarrow> None)"

text \<open>\<open>Consumer::consume\<close> and the drop of the \<open>Record\<close> it returns.\<close>

definition exec_consumer :: "label \<Rightarrow> sys \<Rightarrow> sys option" where
  "exec_consumer l s =
     (let r = rb s in
      case (l, cst s) of
        (CLoadConsumer, CIdle) \<Rightarrow> Some (s\<lparr>cst := CLoaded (consumer_pos r)\<rparr>)
      | (CLoadProducer, CLoaded cpos) \<Rightarrow>
          Some (s\<lparr>cst := if producer_pos r \<le> cpos then CIdle else CSeen cpos\<rparr>)
      | (CReadHeader, CSeen cpos) \<Rightarrow>
          (let off = record_offset r cpos;
               (len, flags) = header_len_and_flags (read_header r off)
           in if flags AND BUSY_FLAG \<noteq> 0 then Some (s\<lparr>cst := CIdle\<rparr>)
              else if flags AND DISCARD_FLAG = 0
              then Some (s\<lparr>cst := CRecord (off + unat HEADER_SIZE) len (cpos + record_total_len len)\<rparr>)
              else Some (s\<lparr>cst := CSkip (cpos + record_total_len len)\<rparr>))
      | (CAdvance, CSkip new_pos) \<Rightarrow> Some (s\<lparr>rb := advance_consumer new_pos r, cst := CIdle\<rparr>)
      | (CDropRecord, CRecord off len new_pos) \<Rightarrow>
          Some (s\<lparr>rb := advance_consumer new_pos r, cst := CIdle,
                  delivered := delivered s @ [read_data r off (unat len)]\<rparr>)
      | _ \<Rightarrow> None)"

fun exec :: "label \<Rightarrow> sys \<Rightarrow> sys option" where
  "exec (PStart i sz) s = exec_reserve (PStart i sz) i s"
| "exec (PLock i) s = exec_reserve (PLock i) i s"
| "exec (PTimeout i) s = exec_reserve (PTimeout i) i s"
| "exec (PCheck i) s = exec_reserve (PCheck i) i s"
| "exec (PHdr i) s = exec_reserve (PHdr i) i s"
| "exec (PAdvance i) s = exec_reserve (PAdvance i) i s"
| "exec (PUnlock i) s = exec_reserve (PUnlock i) i s"
| "exec (PWrite i k bs) s = exec_buffer (PWrite i k bs) i s"
| "exec (PDiscard i) s = exec_buffer (PDiscard i) i s"
| "exec (PDrop i) s = exec_buffer (PDrop i) i s"
| "exec (PCommit i) s = exec_buffer (PCommit i) i s"
| "exec (PNotify i) s = exec_buffer (PNotify i) i s"
| "exec (PCountDropped i) s = exec_buffer (PCountDropped i) i s"
| "exec l s = exec_consumer l s"

primrec run :: "label list \<Rightarrow> sys \<Rightarrow> sys option" where
  "run [] s = Some s"
| "run (l # ls) s = Option.bind (exec l s) (run ls)"

definition sys_init :: "usize \<Rightarrow> wakeup_strategy \<Rightarrow> sys" where
  "sys_init n w = \<lparr>rb = ring_init n, pst = (\<lambda>_. PIdle), cst = CIdle, efd = 0, strategy = w, delivered = []\<rparr>"

lemmas [step_defs] = exec_reserve_def exec_buffer_def exec_consumer_def Let_def

section \<open>The specification: a queue whose entries are filled in place\<close>

text \<open>
  An entry is owned by a producer until it is published. Nobody but the owner changes an
  entry, and only published entries at the front are delivered.
\<close>

record mq =
  queue :: "(nat option \<times> bytes) list"
  out :: "bytes list"

inductive qstep :: "mq \<Rightarrow> mq \<Rightarrow> bool" where
  stutter: "qstep q q"
| enqueue: "\<forall>e \<in> set (queue q). fst e \<noteq> Some i \<Longrightarrow> qstep q (q\<lparr>queue := queue q @ [(Some i, bs)]\<rparr>)"
| fill: "queue q = xs @ (Some i, bs) # ys \<Longrightarrow> length bs' = length bs \<Longrightarrow>
    qstep q (q\<lparr>queue := xs @ (Some i, bs') # ys\<rparr>)"
| publish: "queue q = xs @ (Some i, bs) # ys \<Longrightarrow> qstep q (q\<lparr>queue := xs @ (None, bs) # ys\<rparr>)"
| deliver: "queue q = (None, bs) # rest \<Longrightarrow> qstep q (q\<lparr>queue := rest, out := out q @ [bs]\<rparr>)"

fun entry_owner :: "entry_state \<Rightarrow> nat option" where
  "entry_owner (Busy i) = Some i"
| "entry_owner _ = None"

definition absq :: "sys \<Rightarrow> entry list \<Rightarrow> mq" where
  "absq s es = \<lparr>queue = map (\<lambda>e. (entry_owner (e_state e), payload (rb s) e)) es, out = delivered s\<rparr>"

section \<open>The invariant\<close>

fun in_lock :: "pstate \<Rightarrow> bool" where
  "in_lock (PLocked _ _) = True"
| "in_lock (PChecked _ _ _) = True"
| "in_lock (PHeader _ _ _) = True"
| "in_lock (PAdvanced _) = True"
| "in_lock _ = False"

definition owns :: "nat \<Rightarrow> entry list \<Rightarrow> entry list" where
  "owns i es = filter (\<lambda>e. e_state e = Busy i) es"

definition own_buf :: "ring \<Rightarrow> entry list \<Rightarrow> nat \<Rightarrow> reserved_buffer \<Rightarrow> bool" where
  "own_buf r es i b \<longleftrightarrow>
     (\<exists>e. owns i es = [e] \<and> rb_off b = e_pos e mod unat (data_size r) \<and> unat (rb_size b) = e_len e)"

definition room_ok :: "ring \<Rightarrow> usize \<Rightarrow> u64 \<Rightarrow> u64 \<Rightarrow> bool" where
  "room_ok r sz ppos new \<longleftrightarrow>
     unat sz < SIZE_LIMIT \<and> ppos = producer r \<and> unat ppos < POS_LIMIT \<and>
     unat new = unat ppos + total_size (unat sz) \<and>
     unat ppos + total_size (unat sz) < unat (consumer r) + unat (data_size r)"

fun pinv :: "ring \<Rightarrow> entry list \<Rightarrow> nat \<Rightarrow> pstate \<Rightarrow> bool" where
  "pinv r es i (PLoaded sz c) \<longleftrightarrow> owns i es = [] \<and> unat sz < SIZE_LIMIT \<and> unat c \<le> unat (consumer r)"
| "pinv r es i (PLocked sz c) \<longleftrightarrow> owns i es = [] \<and> unat sz < SIZE_LIMIT \<and> unat c \<le> unat (consumer r)"
| "pinv r es i (PChecked sz p n) \<longleftrightarrow> owns i es = [] \<and> room_ok r sz p n"
| "pinv r es i (PHeader sz p n) \<longleftrightarrow> owns i es = [] \<and> room_ok r sz p n \<and>
     read_header r (unat (producer r)) = header_new (of_nat (unat sz))"
| "pinv r es i (PAdvanced b) \<longleftrightarrow> own_buf r es i b"
| "pinv r es i (PReserved b) \<longleftrightarrow> own_buf r es i b"
| "pinv r es i (PCommitting b) \<longleftrightarrow> own_buf r es i b"
| "pinv r es i (PDiscarded b) \<longleftrightarrow> False"
| "pinv r es i PIdle \<longleftrightarrow> owns i es = []"
| "pinv r es i PNotifying \<longleftrightarrow> owns i es = []"

fun cinv :: "ring \<Rightarrow> entry list \<Rightarrow> cstate \<Rightarrow> bool" where
  "cinv r es CIdle \<longleftrightarrow> True"
| "cinv r es (CLoaded c) \<longleftrightarrow> c = consumer r"
| "cinv r es (CSeen c) \<longleftrightarrow> c = consumer r \<and> es \<noteq> []"
| "cinv r es (CRecord off len new) \<longleftrightarrow>
     (\<exists>e es'. es = e # es' \<and> e_state e = Committed \<and> off = unat (consumer r) mod unat (data_size r) + 8 \<and>
        unat len = e_len e \<and> unat new = unat (consumer r) + total_size (e_len e))"
| "cinv r es (CSkip new) \<longleftrightarrow> False"

definition lock_inv :: "sys \<Rightarrow> bool" where
  "lock_inv s \<longleftrightarrow> (spinlock (rb s) \<longleftrightarrow> (\<exists>i. in_lock (pst s i))) \<and>
     (\<forall>i j. in_lock (pst s i) \<and> in_lock (pst s j) \<longrightarrow> i = j)"

definition inv :: "sys \<Rightarrow> entry list \<Rightarrow> bool" where
  "inv s es \<longleftrightarrow> linked (rb s) es \<and> list_all (\<lambda>e. e_state e \<noteq> Discarded) es \<and> lock_inv s \<and>
     (\<forall>i. pinv (rb s) es i (pst s i)) \<and> cinv (rb s) es (cst s)"

section \<open>Framing\<close>

lemma pinv_frame:
  assumes "pinv r es i st" and "owns i es' = owns i es" and "data_size r' = data_size r"
    and "unat (consumer r) \<le> unat (consumer r')"
    and "in_lock st \<Longrightarrow> producer r' = producer r"
    and "in_lock st \<Longrightarrow> unat (producer r) + 8 \<le> unat (consumer r) + unat (data_size r) \<Longrightarrow>
           read_header r' (unat (producer r)) = read_header r (unat (producer r))"
  shows "pinv r' es' i st"
proof (cases st)
  case (PHeader sz p n)
  with assms(1) have "unat (producer r) + 8 \<le> unat (consumer r) + unat (data_size r)"
    using total_size_bounds(1) [of "unat sz"] by (auto simp: room_ok_def)
  with PHeader assms show ?thesis by (auto simp: room_ok_def)
qed (use assms in \<open>auto simp: room_ok_def own_buf_def\<close>)

lemma read_header_increment_dropped [simp]: "read_header (increment_dropped r) a = read_header r a"
  by (simp add: read_header_def read_data_def increment_dropped_def)

lemma increment_dropped_fields [simp]:
  "data_size (increment_dropped r) = data_size r" "consumer (increment_dropped r) = consumer r"
  "producer (increment_dropped r) = producer r" "spinlock (increment_dropped r) = spinlock r"
  "linked (increment_dropped r) es = linked r es" "payload (increment_dropped r) e = payload r e"
  by (simp_all add: increment_dropped_def linked_def size_ok_def entry_ok_def [abs_def] payload_def
      read_header_def read_data_def)

lemma owns_append [simp]: "owns i (xs @ ys) = owns i xs @ owns i ys"
  by (simp add: owns_def)

lemma owns_Cons [simp]: "owns i (e # es) = (if e_state e = Busy i then e # owns i es else owns i es)"
  by (simp add: owns_def)

lemma owns_Nil [simp]: "owns i [] = []"
  by (simp add: owns_def)

lemma owns_split:
  assumes "owns i es = [e]"
  obtains xs ys where "es = xs @ e # ys" "owns i xs = []" "owns i ys = []" "e_state e = Busy i"
proof -
  from assms obtain xs ys where "es = xs @ e # ys" "\<forall>x \<in> set xs. e_state x \<noteq> Busy i"
    "e_state e = Busy i" "filter (\<lambda>e. e_state e = Busy i) ys = []"
    unfolding owns_def filter_eq_Cons_iff by metis
  with that show ?thesis by (simp add: owns_def filter_empty_conv)
qed

text \<open>A write inside a record does not reach the header being prepared after the window.\<close>

lemma header_ahead_kept:
  assumes l: "linked r (xs @ e # ys)" and b: "e_pos e \<le> b" "b + length bs \<le> e_pos e + total_size (e_len e)"
    and room: "unat (producer r) + 8 \<le> unat (consumer r) + unat (data_size r)"
  shows "read_header (write_data b bs r) (unat (producer r)) = read_header r (unat (producer r))"
proof -
  let ?D = "unat (data_size r)" and ?p = "unat (producer r)"
  have "get ?D (put ?D (data r) b bs) ?p 8 = get ?D (data r) ?p 8"
    by (rule get_put_other [of "unat (consumer r)"])
      (use linked_bounds [OF l, of e] linked_consumer_le [OF l] b room in \<open>simp_all\<close>)
  then show ?thesis by (simp add: read_header_def read_data_def write_data_def)
qed

lemma lock_inv_update:
  assumes "lock_inv s" and "pst s' = (pst s)(i := st)"
    and "in_lock st = in_lock (pst s i)" and "spinlock (rb s') = spinlock (rb s)"
  shows "lock_inv s'"
  using assms unfolding lock_inv_def by (auto split: if_splits)

lemma lock_inv_acquire:
  assumes "lock_inv s" "\<not> spinlock (rb s)" "pst s' = (pst s)(i := st)" "in_lock st" "spinlock (rb s')"
  shows "lock_inv s'"
  using assms unfolding lock_inv_def by auto

lemma lock_inv_release:
  assumes "lock_inv s" "in_lock (pst s i)" "pst s' = (pst s)(i := st)" "\<not> in_lock st" "\<not> spinlock (rb s')"
  shows "lock_inv s'"
proof -
  have "\<not> in_lock (pst s j)" if "j \<noteq> i" for j
    using assms(1,2) that by (auto simp: lock_inv_def)
  then show ?thesis using assms(3-5) by (simp add: lock_inv_def)
qed

text \<open>Steps that change only a thread's local state, or the lock.\<close>

lemma inv_local:
  assumes "inv s es" and "pst s' = (pst s)(i := st)" and "cst s' = cst s"
    and r: "rb s' = (rb s)\<lparr>spinlock := x\<rparr>"
    and "lock_inv s'" and "pinv (rb s) es i st"
  shows "inv s' es"
proof -
  have "pinv (rb s') es j (pst s' j)" for j
  proof -
    have "pinv (rb s) es j (pst s' j)" using assms(1,2,6) by (simp add: inv_def)
    then show ?thesis by (rule pinv_frame) (simp_all add: r)
  qed
  moreover have "cinv (rb s') es (cst s')"
    using assms(1,3) by (cases "cst s") (auto simp: r inv_def)
  ultimately show ?thesis
    using assms(1,5) by (simp add: inv_def r)
qed

lemma absq_local:
  "delivered s' = delivered s \<Longrightarrow> rb s' = (rb s)\<lparr>spinlock := x\<rparr> \<Longrightarrow> absq s' es = absq s es"
  by (simp add: absq_def)

section \<open>Preservation, step by step\<close>

text \<open>Steps outside \<open>discard\<close>, with sizes and positions below the limits.\<close>

fun admissible :: "label \<Rightarrow> sys \<Rightarrow> bool" where
  "admissible (PStart i sz) s \<longleftrightarrow> unat sz < SIZE_LIMIT"
| "admissible (PCheck i) s \<longleftrightarrow> unat (producer (rb s)) < POS_LIMIT"
| "admissible (PDiscard i) s \<longleftrightarrow> False"
| "admissible _ s \<longleftrightarrow> True"

lemma pinv_upd_other:
  assumes "inv s es" and "\<And>j. j \<noteq> i \<Longrightarrow> owns j es' = owns j es" and "data_size r' = data_size (rb s)"
    and "unat (consumer (rb s)) \<le> unat (consumer r')"
    and "\<And>j. j \<noteq> i \<Longrightarrow> in_lock (pst s j) \<Longrightarrow> producer r' = producer (rb s)"
    and "\<And>j. j \<noteq> i \<Longrightarrow> in_lock (pst s j) \<Longrightarrow>
           unat (producer (rb s)) + 8 \<le> unat (consumer (rb s)) + unat (data_size (rb s)) \<Longrightarrow>
           read_header r' (unat (producer (rb s))) = read_header (rb s) (unat (producer (rb s)))"
    and "pinv r' es' i st"
  shows "\<forall>j. pinv r' es' j (((pst s)(i := st)) j)"
proof
  fix j
  show "pinv r' es' j (((pst s)(i := st)) j)"
  proof (cases "j = i")
    case False
    have "pinv (rb s) es j (pst s j)" using assms(1) by (simp add: inv_def)
    then have "pinv r' es' j (pst s j)"
      by (rule pinv_frame) (use assms(2-6) False in auto)
    with False show ?thesis by simp
  qed (use assms(7) in simp)
qed

lemma only_one_in_lock:
  "inv s es \<Longrightarrow> in_lock (pst s i) \<Longrightarrow> j \<noteq> i \<Longrightarrow> \<not> in_lock (pst s j)"
  by (auto simp: inv_def lock_inv_def)

lemma step_hdr:
  assumes I: "inv s es" and st: "pst s i = PChecked sz p n"
  shows "inv (s\<lparr>rb := write_header (record_offset (rb s) p) (header_new (ucast sz)) (rb s),
               pst := (pst s)(i := PHeader sz p n)\<rparr>) es"
    and "map (payload (write_header (record_offset (rb s) p) (header_new (ucast sz)) (rb s))) es
           = map (payload (rb s)) es"
proof -
  let ?r = "rb s" and ?p = "unat (producer (rb s))"
  let ?r' = "write_header ?p (header_new (ucast sz)) ?r"
  have pi: "pinv ?r es i (PChecked sz p n)" and l: "linked ?r es" and c: "cinv ?r es (cst s)"
    using I st [symmetric] by (auto simp: inv_def)
  then have p: "p = producer ?r" and room: "?p + 8 \<le> unat (consumer ?r) + unat (data_size ?r)"
    using total_size_bounds(1) [of "unat sz"] by (auto simp: room_ok_def)
  have so: "size_ok ?r" using l by (simp add: linked_def)
  have off: "write_header (record_offset ?r p) (header_new (ucast sz)) ?r = ?r'"
    by (simp add: record_offset_mod [OF so] p)
  note ahead = linked_header_ahead [OF l room, of "header_new (ucast sz)"]
  then show "map (payload (write_header (record_offset ?r p) (header_new (ucast sz)) ?r)) es
           = map (payload ?r) es" by (simp add: off)
  have "read_header ?r' ?p = header_new (ucast sz)"
    using so by (intro read_write_header) (simp add: size_ok_def)
  then have "pinv ?r' es i (PHeader sz p n)"
    using pi by (auto simp: room_ok_def)
  moreover have "in_lock (pst s i)" by (simp add: st)
  ultimately have "\<forall>j. pinv ?r' es j (((pst s)(i := PHeader sz p n)) j)"
    using only_one_in_lock [OF I] by (intro pinv_upd_other [OF I]) auto
  moreover have "cinv ?r' es (cst s)" using c by (cases "cst s") auto
  moreover have "lock_inv (s\<lparr>rb := ?r', pst := (pst s)(i := PHeader sz p n)\<rparr>)"
    by (rule lock_inv_update [of s _ i "PHeader sz p n"]) (use I st in \<open>auto simp: inv_def\<close>)
  ultimately show "inv (s\<lparr>rb := write_header (record_offset ?r p) (header_new (ucast sz)) ?r,
               pst := (pst s)(i := PHeader sz p n)\<rparr>) es"
    using I ahead(1) by (simp add: inv_def off)
qed

lemma step_advance:
  assumes I: "inv s es" and st: "pst s i = PHeader sz p n"
  defines "b \<equiv> \<lparr>rb_off = record_offset (rb s) p, rb_size = sz\<rparr>"
    and "e \<equiv> \<lparr>e_pos = unat (producer (rb s)), e_len = unat sz, e_state = Busy i\<rparr>"
  shows "inv (s\<lparr>rb := advance_producer n (rb s), pst := (pst s)(i := PAdvanced b)\<rparr>) (es @ [e])"
    and "payload (advance_producer n (rb s)) x = payload (rb s) x"
    and "owns i es = []"
proof -
  let ?r = "rb s" and ?r' = "advance_producer n (rb s)"
  have pi: "pinv ?r es i (PHeader sz p n)" and l: "linked ?r es" and c: "cinv ?r es (cst s)"
    using I st [symmetric] by (auto simp: inv_def)
  then show own: "owns i es = []" by simp
  have so: "size_ok ?r" using l by (simp add: linked_def)
  have push: "linked ?r' (es @ [e])" "payload ?r' x = payload ?r x" for x
    unfolding e_def using linked_push [OF l, of "unat sz" n] pi by (auto simp: room_ok_def)
  then show "payload ?r' x = payload ?r x" by blast
  have "own_buf ?r' (es @ [e]) i b"
    using pi own by (simp add: own_buf_def b_def e_def record_offset_mod [OF so] room_ok_def)
  moreover have "in_lock (pst s i)" by (simp add: st)
  ultimately have "\<forall>j. pinv ?r' (es @ [e]) j (((pst s)(i := PAdvanced b)) j)"
    using only_one_in_lock [OF I] by (intro pinv_upd_other [OF I]) (auto simp: e_def)
  moreover have "cinv ?r' (es @ [e]) (cst s)" using c by (cases "cst s") auto
  moreover have "lock_inv (s\<lparr>rb := ?r', pst := (pst s)(i := PAdvanced b)\<rparr>)"
    by (rule lock_inv_update [of s _ i "PAdvanced b"]) (use I st in \<open>auto simp: inv_def\<close>)
  ultimately show "inv (s\<lparr>rb := ?r', pst := (pst s)(i := PAdvanced b)\<rparr>) (es @ [e])"
    using I push(1) by (simp add: inv_def e_def)
qed

text \<open>A producer's buffer is one entry of the window.\<close>

lemma own_bufE:
  assumes "own_buf r es i b"
  obtains xs e ys where "es = xs @ e # ys" "owns i xs = []" "owns i ys = []" "e_state e = Busy i"
    "rb_off b = e_pos e mod unat (data_size r)" "unat (rb_size b) = e_len e"
  using assms owns_split unfolding own_buf_def by metis

lemma cinv_other:
  assumes "cinv r (xs @ e # ys) c" and "e_state e \<noteq> Committed" and "data_size r' = data_size r"
    and "consumer r' = consumer r"
  shows "cinv r' (xs @ e' # ys) c"
  using assms by (cases c; cases xs) auto

lemma step_write:
  assumes I: "inv s (xs @ e # ys)" and st: "pst s i = PReserved b" and e: "e_state e = Busy i"
    and b: "rb_off b = e_pos e mod unat (data_size (rb s))" "unat (rb_size b) = e_len e"
    and k: "k + length bs \<le> e_len e"
  defines "r' \<equiv> write_data (rb_off b + unat HEADER_SIZE + k) bs (rb s)"
  shows "inv (s\<lparr>rb := r'\<rparr>) (xs @ e # ys)"
    and "map (payload r') (xs @ ys) = map (payload (rb s)) (xs @ ys)"
proof -
  let ?r = "rb s"
  have l: "linked ?r (xs @ e # ys)" and c: "cinv ?r (xs @ e # ys) (cst s)"
    using I by (auto simp: inv_def)
  have r': "r' = write_data (e_pos e + 8 + k) bs ?r"
    by (simp add: r'_def b HEADER_SIZE_def add.assoc)
  note fill = linked_fill [OF l k, folded r']
  show "map (payload r') (xs @ ys) = map (payload ?r) (xs @ ys)" by (rule fill(2))
  have hdr: "read_header r' (unat (producer ?r)) = read_header ?r (unat (producer ?r))"
    if "unat (producer ?r) + 8 \<le> unat (consumer ?r) + unat (data_size ?r)"
    unfolding r' by (rule header_ahead_kept [OF l _ _ that])
      (use k total_size_bounds(1) [of "e_len e"] in linarith)+
  have "pinv r' (xs @ e # ys) j (pst s j)" for j
  proof -
    have "pinv ?r (xs @ e # ys) j (pst s j)" using I by (simp add: inv_def)
    then show ?thesis by (rule pinv_frame) (use hdr in \<open>simp_all add: r'\<close>)
  qed
  moreover have "cinv r' (xs @ e # ys) (cst s)"
    using cinv_other [OF c] e by (simp add: r')
  moreover have "lock_inv (s\<lparr>rb := r'\<rparr>)" using I by (simp add: inv_def lock_inv_def r')
  ultimately show "inv (s\<lparr>rb := r'\<rparr>) (xs @ e # ys)"
    using I fill(1) by (simp add: inv_def)
qed

lemma step_commit:
  assumes I: "inv s (xs @ e # ys)" and st: "pst s i = PCommitting b" and e: "e_state e = Busy i"
    and own: "owns i xs = []" "owns i ys = []"
    and b: "rb_off b = e_pos e mod unat (data_size (rb s))"
  shows "inv (s\<lparr>rb := buffer_commit b (rb s), pst := (pst s)(i := PNotifying)\<rparr>)
           (xs @ e\<lparr>e_state := Committed\<rparr> # ys)"
    and "map (payload (buffer_commit b (rb s))) (xs @ e # ys) = map (payload (rb s)) (xs @ e # ys)"
proof -
  let ?r = "rb s" and ?r' = "buffer_commit b (rb s)" and ?e = "e\<lparr>e_state := Committed\<rparr>"
  have l: "linked ?r (xs @ e # ys)" and c: "cinv ?r (xs @ e # ys) (cst s)"
    using I by (auto simp: inv_def)
  note com = buffer_commit_linked [OF l b]
  from com(2) show "map (payload ?r') (xs @ e # ys) = map (payload ?r) (xs @ e # ys)" by simp
  have r': "?r' = write_data (e_pos e) (bytes_of_u64 (header_commit (read_header ?r (e_pos e)))) ?r"
    by (simp add: buffer_commit_def b write_header_def [of "e_pos e"])
  have hdr: "read_header ?r' (unat (producer ?r)) = read_header ?r (unat (producer ?r))"
    if "unat (producer ?r) + 8 \<le> unat (consumer ?r) + unat (data_size ?r)"
    unfolding r' by (rule header_ahead_kept [OF l _ _ that])
      (use total_size_bounds(1) [of "e_len e"] in simp_all)
  have "pinv ?r' (xs @ ?e # ys) i PNotifying" using own by simp
  then have "\<forall>j. pinv ?r' (xs @ ?e # ys) j (((pst s)(i := PNotifying)) j)"
    using e hdr by (intro pinv_upd_other [OF I]) (auto simp: r')
  moreover have "cinv ?r' (xs @ ?e # ys) (cst s)"
    using cinv_other [OF c] e by (simp add: r')
  moreover have "lock_inv (s\<lparr>rb := ?r', pst := (pst s)(i := PNotifying)\<rparr>)"
    by (rule lock_inv_update [of s _ i PNotifying]) (use I st in \<open>auto simp: inv_def r'\<close>)
  ultimately show "inv (s\<lparr>rb := ?r', pst := (pst s)(i := PNotifying)\<rparr>) (xs @ ?e # ys)"
    using I com(1) by (simp add: inv_def)
qed

lemma step_drop_record:
  assumes I: "inv s es" and st: "cst s = CRecord off len new"
  obtains e es' where "es = e # es'" "e_state e = Committed" "read_data (rb s) off (unat len) = payload (rb s) e"
    "inv (s\<lparr>rb := advance_consumer new (rb s), cst := CIdle, delivered := d\<rparr>) es'"
    "\<And>x. payload (advance_consumer new (rb s)) x = payload (rb s) x"
proof -
  let ?r = "rb s" and ?r' = "advance_consumer new (rb s)"
  from I st obtain e es' where e: "es = e # es'" "e_state e = Committed"
    "off = unat (consumer ?r) mod unat (data_size ?r) + 8" "unat len = e_len e"
    "unat new = unat (consumer ?r) + total_size (e_len e)" and l: "linked ?r es"
    by (auto simp: inv_def)
  note pop = linked_pop [OF l [unfolded e(1)] e(5)]
  have "read_data ?r off (unat len) = payload ?r e"
    using l e by (simp add: payload_def read_data_def linked_def)
  moreover have "\<forall>j. pinv ?r' es' j (pst s j)"
  proof
    fix j
    have "pinv ?r es j (pst s j)" using I by (simp add: inv_def)
    then show "pinv ?r' es' j (pst s j)" by (rule pinv_frame) (use e in simp_all)
  qed
  moreover have "lock_inv (s\<lparr>rb := ?r', cst := CIdle, delivered := d\<rparr>)"
    using I by (simp add: inv_def lock_inv_def)
  ultimately show ?thesis
    using that [OF e(1,2)] pop I e(1) by (simp add: inv_def)
qed

section \<open>Simulation\<close>

definition simulates :: "sys \<Rightarrow> entry list \<Rightarrow> sys \<Rightarrow> bool" where
  "simulates s es s' \<longleftrightarrow> (\<exists>es'. inv s' es' \<and> qstep (absq s es) (absq s' es'))"

lemma simulates_stutter: "inv s' es \<Longrightarrow> absq s' es = absq s es \<Longrightarrow> simulates s es s'"
  unfolding simulates_def using qstep.stutter by metis

lemma simulates_local:
  assumes "inv s es" "pst s' = (pst s)(i := st)" "cst s' = cst s" "rb s' = (rb s)\<lparr>spinlock := x\<rparr>"
    "delivered s' = delivered s" "lock_inv s'" "pinv (rb s) es i st"
  shows "simulates s es s'"
  using inv_local [OF assms(1-4,6,7)] absq_local [OF assms(5,4)] by (rule simulates_stutter)

lemma spinlock_same: "r = r\<lparr>spinlock := spinlock r\<rparr>" for r :: ring
  by simp

lemma pinv_of: "inv s es \<Longrightarrow> pst s i = st \<Longrightarrow> pinv (rb s) es i st"
  by (auto simp: inv_def)

lemma lock_inv_of: "inv s es \<Longrightarrow> lock_inv s"
  by (simp add: inv_def)

lemma check_pinv:
  assumes I: "inv s es" and st: "pst s i = PLocked sz cpos" and p: "unat (producer (rb s)) < POS_LIMIT"
    and ok: "\<not> size_mask (rb s) < producer (rb s) + round_up_to_8 (sz + HEADER_SIZE) - cpos"
  shows "pinv (rb s) es i (PChecked sz (producer (rb s)) (producer (rb s) + round_up_to_8 (sz + HEADER_SIZE)))"
proof -
  have pi: "owns i es = []" "unat sz < SIZE_LIMIT" "unat cpos \<le> unat (consumer (rb s))"
    using pinv_of [OF I st] by simp_all
  have l: "linked (rb s) es" using I by (simp add: inv_def)
  have "unat (producer (rb s)) + total_size (unat sz) < unat cpos + unat (data_size (rb s))"
    using ok space_check [OF l pi(2,3)] by simp
  moreover have "unat (producer (rb s) + round_up_to_8 (sz + HEADER_SIZE)) =
      unat (producer (rb s)) + total_size (unat sz)"
    using p pi(2) by (intro unat_new_prod_pos) simp_all
  ultimately show ?thesis using pi p by (simp add: room_ok_def)
qed

lemma sim_start:
  assumes I: "inv s es" and adm: "admissible (PStart i sz) s" and ex: "exec (PStart i sz) s = Some s'"
  shows "simulates s es s'"
proof -
  let ?st = "PLoaded sz (consumer (rb s))"
  from ex have st: "pst s i = PIdle" and s': "s' = s\<lparr>pst := (pst s)(i := ?st)\<rparr>"
    by (auto simp: step_defs consumer_pos_def split: pstate.splits)
  have "lock_inv s'"
    by (rule lock_inv_update [OF lock_inv_of [OF I], of s' i ?st]) (simp_all add: s' st)
  then show ?thesis
    using pinv_of [OF I st] adm
    by (intro simulates_local [OF I, of s' i ?st "spinlock (rb s)"]) (simp_all add: s')
qed

lemma sim_lock: "\<lbrakk>inv s es; exec (PLock i) s = Some s'\<rbrakk> \<Longrightarrow> simulates s es s'"
proof -
  assume I: "inv s es" and ex: "exec (PLock i) s = Some s'"
  from ex obtain sz c where st: "pst s i = PLoaded sz c" and free: "\<not> spinlock (rb s)"
    and s': "s' = s\<lparr>rb := (rb s)\<lparr>spinlock := True\<rparr>, pst := (pst s)(i := PLocked sz c)\<rparr>"
    by (auto simp: step_defs split: pstate.splits if_splits)
  have "lock_inv s'"
    by (rule lock_inv_acquire [OF lock_inv_of [OF I] free, of s' i "PLocked sz c"]) (simp_all add: s')
  then show ?thesis
    using pinv_of [OF I st] by (intro simulates_local [OF I, of s' i "PLocked sz c" True]) (simp_all add: s')
qed

lemma sim_timeout: "\<lbrakk>inv s es; exec (PTimeout i) s = Some s'\<rbrakk> \<Longrightarrow> simulates s es s'"
proof -
  assume I: "inv s es" and ex: "exec (PTimeout i) s = Some s'"
  from ex obtain sz c where st: "pst s i = PLoaded sz c" and s': "s' = s\<lparr>pst := (pst s)(i := PIdle)\<rparr>"
    by (auto simp: step_defs split: pstate.splits if_splits)
  have "lock_inv s'"
    by (rule lock_inv_update [OF lock_inv_of [OF I], of s' i PIdle]) (simp_all add: s' st)
  then show ?thesis
    using pinv_of [OF I st]
    by (intro simulates_local [OF I, of s' i PIdle "spinlock (rb s)"]) (simp_all add: s')
qed

lemma sim_check:
  assumes I: "inv s es" and adm: "admissible (PCheck i) s" and ex: "exec (PCheck i) s = Some s'"
  shows "simulates s es s'"
proof -
  from ex obtain sz c where st: "pst s i = PLocked sz c"
    by (auto simp: step_defs split: pstate.splits)
  let ?new = "producer (rb s) + round_up_to_8 (sz + HEADER_SIZE)"
  show ?thesis
  proof (cases "size_mask (rb s) < ?new - c")
    case True
    with ex st have s': "s' = s\<lparr>rb := (rb s)\<lparr>spinlock := False\<rparr>, pst := (pst s)(i := PIdle)\<rparr>"
      by (simp add: step_defs producer_pos_def)
    have "lock_inv s'"
      by (rule lock_inv_release [OF lock_inv_of [OF I], of i s' PIdle]) (simp_all add: s' st)
    then show ?thesis
      using pinv_of [OF I st] by (intro simulates_local [OF I, of s' i PIdle False]) (simp_all add: s')
  next
    case False
    with ex st have s': "s' = s\<lparr>pst := (pst s)(i := PChecked sz (producer (rb s)) ?new)\<rparr>"
      by (simp add: step_defs producer_pos_def)
    have "lock_inv s'"
      by (rule lock_inv_update [OF lock_inv_of [OF I], of s' i "PChecked sz (producer (rb s)) ?new"])
        (simp_all add: s' st)
    then show ?thesis
      using check_pinv [OF I st _ False] adm
      by (intro simulates_local [OF I, of s' i "PChecked sz (producer (rb s)) ?new" "spinlock (rb s)"])
        (simp_all add: s')
  qed
qed

lemma sim_hdr: "\<lbrakk>inv s es; exec (PHdr i) s = Some s'\<rbrakk> \<Longrightarrow> simulates s es s'"
proof -
  assume I: "inv s es" and ex: "exec (PHdr i) s = Some s'"
  from ex obtain sz p n where st: "pst s i = PChecked sz p n"
    and s': "s' = s\<lparr>rb := write_header (record_offset (rb s) p) (header_new (ucast sz)) (rb s),
               pst := (pst s)(i := PHeader sz p n)\<rparr>"
    by (auto simp: step_defs split: pstate.splits)
  show ?thesis
    using step_hdr [OF I st] by (intro simulates_stutter) (simp_all add: s' absq_def)
qed

lemma sim_advance: "\<lbrakk>inv s es; exec (PAdvance i) s = Some s'\<rbrakk> \<Longrightarrow> simulates s es s'"
proof -
  assume I: "inv s es" and ex: "exec (PAdvance i) s = Some s'"
  from ex obtain sz p n where st: "pst s i = PHeader sz p n"
    and s': "s' = s\<lparr>rb := advance_producer n (rb s),
               pst := (pst s)(i := PAdvanced \<lparr>rb_off = record_offset (rb s) p, rb_size = sz\<rparr>)\<rparr>"
    by (auto simp: step_defs split: pstate.splits)
  let ?e = "\<lparr>e_pos = unat (producer (rb s)), e_len = unat sz, e_state = Busy i\<rparr>"
  note adv = step_advance [OF I st]
  have "\<forall>x \<in> set (queue (absq s es)). fst x \<noteq> Some i"
    using adv(3) by (auto simp: absq_def owns_def filter_empty_conv elim: entry_owner.elims)
  from qstep.enqueue [OF this, of "payload (rb s) ?e"]
  have "qstep (absq s es) (absq s' (es @ [?e]))"
    using adv(2) by (simp add: absq_def s')
  with adv(1) show ?thesis unfolding simulates_def s' by blast
qed

lemma sim_unlock: "\<lbrakk>inv s es; exec (PUnlock i) s = Some s'\<rbrakk> \<Longrightarrow> simulates s es s'"
proof -
  assume I: "inv s es" and ex: "exec (PUnlock i) s = Some s'"
  from ex obtain b where st: "pst s i = PAdvanced b"
    and s': "s' = s\<lparr>rb := (rb s)\<lparr>spinlock := False\<rparr>, pst := (pst s)(i := PReserved b)\<rparr>"
    by (auto simp: step_defs split: pstate.splits)
  have "lock_inv s'"
    by (rule lock_inv_release [OF lock_inv_of [OF I], of i s' "PReserved b"]) (simp_all add: s' st)
  then show ?thesis
    using pinv_of [OF I st] by (intro simulates_local [OF I, of s' i "PReserved b" False]) (simp_all add: s')
qed

lemma sim_write: "\<lbrakk>inv s es; exec (PWrite i k bs) s = Some s'\<rbrakk> \<Longrightarrow> simulates s es s'"
proof -
  assume I: "inv s es" and ex: "exec (PWrite i k bs) s = Some s'"
  from ex obtain b r' where st: "pst s i = PReserved b" and w: "buffer_write b k bs (rb s) = Some r'"
    and s': "s' = s\<lparr>rb := r'\<rparr>"
    by (auto simp: step_defs split: pstate.splits)
  from pinv_of [OF I st] have "own_buf (rb s) es i b" by simp
  then obtain xs e ys where e: "es = xs @ e # ys" "e_state e = Busy i"
    "rb_off b = e_pos e mod unat (data_size (rb s))" "unat (rb_size b) = e_len e"
    by (rule own_bufE)
  from w e(4) have k: "k + length bs \<le> e_len e"
    and r': "r' = write_data (rb_off b + unat HEADER_SIZE + k) bs (rb s)"
    by (auto simp: buffer_write_def split: if_splits)
  note wr = step_write [OF I [unfolded e(1)] st e(2-4) k, folded r']
  let ?f = "\<lambda>r e. (entry_owner (e_state e), payload r e)"
  have "queue (absq s es) = map (?f (rb s)) xs @ (Some i, payload (rb s) e) # map (?f (rb s)) ys"
    by (simp add: absq_def e)
  moreover have "length (payload r' e) = length (payload (rb s) e)"
    by (simp add: payload_def read_data_def)
  ultimately have "qstep (absq s es)
      ((absq s es)\<lparr>queue := map (?f (rb s)) xs @ (Some i, payload r' e) # map (?f (rb s)) ys\<rparr>)"
    by (rule qstep.fill)
  moreover have "(absq s es)\<lparr>queue := map (?f (rb s)) xs @ (Some i, payload r' e) # map (?f (rb s)) ys\<rparr>
      = absq s' es"
    using wr(2) by (simp add: absq_def s' e)
  ultimately show ?thesis
    using wr(1) unfolding simulates_def s' e(1) [symmetric] by auto
qed

lemma sim_drop: "\<lbrakk>inv s es; exec (PDrop i) s = Some s'\<rbrakk> \<Longrightarrow> simulates s es s'"
proof -
  assume I: "inv s es" and ex: "exec (PDrop i) s = Some s'"
  have "\<not> (\<exists>b. pst s i = PDiscarded b)" using I by (metis inv_def pinv.simps(8))
  with ex obtain b where st: "pst s i = PReserved b"
    and s': "s' = s\<lparr>pst := (pst s)(i := if header_is_discarded (read_header (rb s) (rb_off b))
                                      then PNotifying else PCommitting b)\<rparr>"
    by (auto simp: step_defs split: pstate.splits)
  from pinv_of [OF I st] have own: "own_buf (rb s) es i b" by simp
  then obtain xs e ys where e: "es = xs @ e # ys" "e_state e = Busy i"
    "rb_off b = e_pos e mod unat (data_size (rb s))" by (rule own_bufE)
  have "linked (rb s) (xs @ e # ys)" using I by (simp add: inv_def e)
  then have "\<not> header_is_discarded (read_header (rb s) (rb_off b))"
    using is_discarded_linked [of "rb s" xs e ys b] e(2,3) by auto
  then have s': "s' = s\<lparr>pst := (pst s)(i := PCommitting b)\<rparr>" by (simp add: s')
  have "lock_inv s'"
    by (rule lock_inv_update [OF lock_inv_of [OF I], of s' i "PCommitting b"]) (simp_all add: s' st)
  then show ?thesis
    using own by (intro simulates_local [OF I, of s' i "PCommitting b" "spinlock (rb s)"]) (simp_all add: s')
qed

lemma sim_commit: "\<lbrakk>inv s es; exec (PCommit i) s = Some s'\<rbrakk> \<Longrightarrow> simulates s es s'"
proof -
  assume I: "inv s es" and ex: "exec (PCommit i) s = Some s'"
  from ex obtain b where st: "pst s i = PCommitting b"
    and s': "s' = s\<lparr>rb := buffer_commit b (rb s), pst := (pst s)(i := PNotifying)\<rparr>"
    by (auto simp: step_defs split: pstate.splits)
  from pinv_of [OF I st] have "own_buf (rb s) es i b" by simp
  then obtain xs e ys where e: "es = xs @ e # ys" "owns i xs = []" "owns i ys = []"
    "e_state e = Busy i" "rb_off b = e_pos e mod unat (data_size (rb s))" by (rule own_bufE)
  note com = step_commit [OF I [unfolded e(1)] st e(4,2,3,5)]
  let ?f = "\<lambda>e. (entry_owner (e_state e), payload (rb s) e)"
  have "queue (absq s es) = map ?f xs @ (Some i, payload (rb s) e) # map ?f ys"
    by (simp add: absq_def e)
  then have "qstep (absq s es) ((absq s es)\<lparr>queue := map ?f xs @ (None, payload (rb s) e) # map ?f ys\<rparr>)"
    by (rule qstep.publish)
  moreover have "(absq s es)\<lparr>queue := map ?f xs @ (None, payload (rb s) e) # map ?f ys\<rparr>
      = absq s' (xs @ e\<lparr>e_state := Committed\<rparr> # ys)"
    using com(2) by (simp add: absq_def s')
  ultimately show ?thesis
    using com(1) unfolding simulates_def s' by auto
qed

lemma sim_notify: "\<lbrakk>inv s es; exec (PNotify i) s = Some s'\<rbrakk> \<Longrightarrow> simulates s es s'"
proof -
  assume I: "inv s es" and ex: "exec (PNotify i) s = Some s'"
  from ex obtain n where st: "pst s i = PNotifying" and s': "s' = s\<lparr>efd := n, pst := (pst s)(i := PIdle)\<rparr>"
    by (auto simp: step_defs split: pstate.splits)
  have "lock_inv s'"
    by (rule lock_inv_update [OF lock_inv_of [OF I], of s' i PIdle]) (simp_all add: s' st)
  then show ?thesis
    using pinv_of [OF I st]
    by (intro simulates_local [OF I, of s' i PIdle "spinlock (rb s)"]) (simp_all add: s')
qed

lemma sim_count_dropped: "\<lbrakk>inv s es; exec (PCountDropped i) s = Some s'\<rbrakk> \<Longrightarrow> simulates s es s'"
proof -
  assume I: "inv s es" and ex: "exec (PCountDropped i) s = Some s'"
  then have s': "s' = s\<lparr>rb := increment_dropped (rb s)\<rparr>"
    by (auto simp: step_defs split: pstate.splits)
  have "pinv (rb s') es j (pst s' j)" for j
  proof -
    have "pinv (rb s) es j (pst s j)" using I by (simp add: inv_def)
    then show ?thesis using pinv_frame [of "rb s" es j "pst s j" es "rb s'"] by (simp add: s')
  qed
  moreover have "cinv (rb s') es (cst s')" using I by (cases "cst s") (auto simp: s' inv_def)
  ultimately have "inv s' es" using I by (simp add: inv_def lock_inv_def s')
  then show ?thesis by (rule simulates_stutter) (simp add: absq_def s')
qed

text \<open>The consumer's loads change only its local state.\<close>

lemma sim_consumer_local:
  assumes "inv s es" and "s' = s\<lparr>cst := c\<rparr>" and "cinv (rb s) es c"
  shows "simulates s es s'"
  using assms by (intro simulates_stutter) (auto simp: inv_def lock_inv_def absq_def)

lemma sim_load_consumer: "\<lbrakk>inv s es; exec CLoadConsumer s = Some s'\<rbrakk> \<Longrightarrow> simulates s es s'"
  by (rule sim_consumer_local [of s es s' "CLoaded (consumer (rb s))"])
    (auto simp: step_defs consumer_pos_def split: cstate.splits)

lemma sim_load_producer: "\<lbrakk>inv s es; exec CLoadProducer s = Some s'\<rbrakk> \<Longrightarrow> simulates s es s'"
proof -
  assume I: "inv s es" and ex: "exec CLoadProducer s = Some s'"
  from ex obtain c where st: "cst s = CLoaded c"
    and s': "s' = s\<lparr>cst := if producer (rb s) \<le> c then CIdle else CSeen c\<rparr>"
    by (auto simp: step_defs producer_pos_def split: cstate.splits)
  have "linked (rb s) es" and "c = consumer (rb s)" using I st by (auto simp: inv_def)
  then show ?thesis
    using linked_empty by (intro sim_consumer_local [OF I s']) auto
qed

lemma sim_read_header: "\<lbrakk>inv s es; exec CReadHeader s = Some s'\<rbrakk> \<Longrightarrow> simulates s es s'"
proof -
  assume I: "inv s es" and ex: "exec CReadHeader s = Some s'"
  from ex obtain c where st: "cst s = CSeen c"
    by (auto simp: step_defs split: cstate.splits)
  with I obtain e es' where es: "es = e # es'" and c: "c = consumer (rb s)"
    by (cases es) (auto simp: inv_def)
  have l: "linked (rb s) (e # es')" and nd: "e_state e \<noteq> Discarded" using I es by (auto simp: inv_def)
  note head = linked_head [OF l]
  show ?thesis
  proof (cases "e_state e")
    case (Busy j)
    then have "s' = s\<lparr>cst := CIdle\<rparr>" using ex st head(3) c by (simp add: step_defs)
    then show ?thesis by (rule sim_consumer_local [OF I]) simp
  next
    case Committed
    let ?n = "of_nat (e_len e) :: u32"
    have s': "s' = s\<lparr>cst := CRecord (record_offset (rb s) c + unat HEADER_SIZE) ?n (c + record_total_len ?n)\<rparr>"
      using ex st head(3) c Committed by (simp add: step_defs)
    have "e_len e < SIZE_LIMIT" "size_ok (rb s)" using l by (auto simp: linked_def entry_ok_def)
    then show ?thesis
      using Committed head(4) c es
      by (intro sim_consumer_local [OF I s']) (simp add: unat_of_nat_u32 record_offset_mod HEADER_SIZE_def)
  qed (use nd in simp)
qed

lemma sim_drop_record: "\<lbrakk>inv s es; exec CDropRecord s = Some s'\<rbrakk> \<Longrightarrow> simulates s es s'"
proof -
  assume I: "inv s es" and ex: "exec CDropRecord s = Some s'"
  from ex obtain off len new where st: "cst s = CRecord off len new"
    and s': "s' = s\<lparr>rb := advance_consumer new (rb s), cst := CIdle,
                  delivered := delivered s @ [read_data (rb s) off (unat len)]\<rparr>"
    by (auto simp: step_defs split: cstate.splits)
  from step_drop_record [OF I st, of "delivered s @ [read_data (rb s) off (unat len)]"] obtain e es'
    where e: "es = e # es'" "e_state e = Committed" "read_data (rb s) off (unat len) = payload (rb s) e"
      "inv s' es'" "\<And>x. payload (advance_consumer new (rb s)) x = payload (rb s) x"
    unfolding s' by blast
  let ?f = "\<lambda>e. (entry_owner (e_state e), payload (rb s) e)"
  have "queue (absq s es) = (None, payload (rb s) e) # map ?f es'"
    by (simp add: absq_def e)
  then have "qstep (absq s es)
      ((absq s es)\<lparr>queue := map ?f es', out := out (absq s es) @ [payload (rb s) e]\<rparr>)"
    by (rule qstep.deliver)
  moreover have "(absq s es)\<lparr>queue := map ?f es', out := out (absq s es) @ [payload (rb s) e]\<rparr> = absq s' es'"
    using e by (simp add: absq_def s')
  ultimately show ?thesis unfolding simulates_def using e(4) by auto
qed

lemma exec_simulates:
  assumes "inv s es" and "admissible l s" and "exec l s = Some s'"
  shows "simulates s es s'"
proof -
  have disc: "l \<noteq> PDiscard i" for i using assms(2) by auto
  have adv: "l \<noteq> CAdvance" using assms(1,3) by (auto simp: step_defs inv_def split: cstate.splits)
  show ?thesis
  proof (cases l)
    case (PStart i sz) with assms sim_start show ?thesis by blast
  next
    case (PLock i) with assms sim_lock show ?thesis by blast
  next
    case (PTimeout i) with assms sim_timeout show ?thesis by blast
  next
    case (PCheck i) with assms sim_check show ?thesis by blast
  next
    case (PHdr i) with assms sim_hdr show ?thesis by blast
  next
    case (PAdvance i) with assms sim_advance show ?thesis by blast
  next
    case (PUnlock i) with assms sim_unlock show ?thesis by blast
  next
    case (PWrite i k bs) with assms sim_write show ?thesis by blast
  next
    case (PDrop i) with assms sim_drop show ?thesis by blast
  next
    case (PCommit i) with assms sim_commit show ?thesis by blast
  next
    case (PNotify i) with assms sim_notify show ?thesis by blast
  next
    case (PCountDropped i) with assms sim_count_dropped show ?thesis by blast
  next
    case CLoadConsumer with assms sim_load_consumer show ?thesis by blast
  next
    case CLoadProducer with assms sim_load_producer show ?thesis by blast
  next
    case CReadHeader with assms sim_read_header show ?thesis by blast
  next
    case CDropRecord with assms sim_drop_record show ?thesis by blast
  qed (use disc adv in blast)+
qed

section \<open>Reachable states\<close>

inductive step :: "sys \<Rightarrow> sys \<Rightarrow> bool" where
  step: "admissible l s \<Longrightarrow> exec l s = Some s' \<Longrightarrow> step s s'"

inductive_cases stepE: "step s s'"

definition initial :: "sys \<Rightarrow> bool" where
  "initial s \<longleftrightarrow> (\<exists>n w. size_ok (ring_init n) \<and> s = sys_init n w)"

definition qinitial :: "mq \<Rightarrow> bool" where
  "qinitial q \<longleftrightarrow> queue q = [] \<and> out q = []"

definition implements :: "sys \<Rightarrow> mq \<Rightarrow> bool" where
  "implements s q \<longleftrightarrow> (\<exists>es. inv s es \<and> q = absq s es)"

lemma inv_init: "size_ok (ring_init n) \<Longrightarrow> inv (sys_init n w) []"
  by (simp add: inv_def sys_init_def lock_inv_def linked_init size_ok_def)

interpretation ring_sim: step_simulation initial step qinitial qstep implements
proof (unfold_locales, goal_cases)
  case (1 c)
  then obtain n w where c: "size_ok (ring_init n)" "c = sys_init n w" by (auto simp: initial_def)
  then have "implements c (absq c [])" unfolding implements_def using inv_init by blast
  moreover have "qinitial (absq c [])" by (simp add: qinitial_def absq_def c sys_init_def)
  ultimately show ?case by blast
next
  case (2 c a c')
  then obtain es l where "inv c es" "a = absq c es" "admissible l c" "exec l c = Some c'"
    by (auto simp: implements_def elim: stepE)
  with exec_simulates [of c es l c'] show ?case
    unfolding simulates_def implements_def by blast
qed

lemma reachable_inv: "\<lbrakk>initial s0; step\<^sup>*\<^sup>* s0 s\<rbrakk> \<Longrightarrow> \<exists>es. inv s es"
  using ring_sim.reach_rel unfolding implements_def by blast


text \<open>
  C20: mutual exclusion. At most one producer is between taking and releasing the spin lock,
  and the lock word is set exactly while one is.
\<close>

theorem reserve_mutual_exclusion:
  assumes "initial s0" and "step\<^sup>*\<^sup>* s0 s"
  shows "(spinlock (rb s) \<longleftrightarrow> (\<exists>i. in_lock (pst s i))) \<and>
         (in_lock (pst s i) \<and> in_lock (pst s j) \<longrightarrow> i = j)"
  using reachable_inv [OF assms] by (auto simp: inv_def lock_inv_def)

fun buffer_of :: "pstate \<Rightarrow> reserved_buffer option" where
  "buffer_of (PAdvanced b) = Some b"
| "buffer_of (PReserved b) = Some b"
| "buffer_of (PCommitting b) = Some b"
| "buffer_of _ = None"

definition buffer_bytes :: "ring \<Rightarrow> nat \<Rightarrow> nat \<Rightarrow> nat set" where
  "buffer_bytes r off n = (\<lambda>k. (off + k) mod unat (data_size r)) ` {..<n}"

lemma entry_bytes_disjoint:
  assumes l: "linked r (xs @ e # ys)" and x: "x \<in> set (xs @ ys)"
  shows "buffer_bytes r (e_pos e) (total_size (e_len e)) \<inter> buffer_bytes r (e_pos x) (total_size (e_len x)) = {}"
proof -
  let ?D = "unat (data_size r)"
  have "chain (unat (consumer r)) (xs @ e # ys) (unat (producer r))" using l by (simp add: linked_def)
  note split = chain_split [OF this]
  have sep: "e_pos x + total_size (e_len x) \<le> e_pos e \<or> e_pos e + total_size (e_len e) \<le> e_pos x"
    using x split by (cases "x \<in> set xs") auto
  have e: "e \<in> set (xs @ e # ys)" and x': "x \<in> set (xs @ e # ys)" using x by auto
  have "(e_pos e + j) mod ?D \<noteq> (e_pos x + k) mod ?D" if "j < total_size (e_len e)" "k < total_size (e_len x)" for j k
  proof
    assume "(e_pos e + j) mod ?D = (e_pos x + k) mod ?D"
    then have "e_pos e + j = e_pos x + k"
      by (rule mod_eq_close)
        (use linked_bounds(1,3) [OF l e] linked_bounds(1,3) [OF l x'] that in linarith)+
    with sep that show False by linarith
  qed
  then show ?thesis by (auto simp: buffer_bytes_def)
qed

lemma buffer_bytes_mod [simp]: "buffer_bytes r (a mod unat (data_size r)) n = buffer_bytes r a n"
  by (simp add: buffer_bytes_def mod_add_left_eq)

lemma buffer_of_own: "pinv r es i st \<Longrightarrow> buffer_of st = Some b \<Longrightarrow> own_buf r es i b"
  by (cases st) auto

lemma buffer_bytes_shift:
  "k + n \<le> m \<Longrightarrow> buffer_bytes r (a mod unat (data_size r) + k) n \<subseteq> buffer_bytes r a m"
proof
  fix y
  assume "k + n \<le> m" "y \<in> buffer_bytes r (a mod unat (data_size r) + k) n"
  then obtain x where "x < n" "y = (a + (k + x)) mod unat (data_size r)"
    by (auto simp: buffer_bytes_def add.assoc mod_add_left_eq)
  moreover from this have "k + x < m" using \<open>k + n \<le> m\<close> by linarith
  ultimately show "y \<in> buffer_bytes r a m" by (auto simp: buffer_bytes_def)
qed

lemma inv_disjoint:
  assumes I: "inv s (xs @ e # ys)" and x: "x \<in> set (xs @ ys)" and k: "k + n \<le> total_size (e_len x)"
    and b: "rb_off b = e_pos e mod unat (data_size (rb s))" "unat (rb_size b) = e_len e"
  shows "buffer_bytes (rb s) (rb_off b) (8 + unat (rb_size b)) \<inter>
         buffer_bytes (rb s) (e_pos x mod unat (data_size (rb s)) + k) n = {}"
proof -
  have "linked (rb s) (xs @ e # ys)" using I by (simp add: inv_def)
  note disj = entry_bytes_disjoint [OF this x]
  have "8 + unat (rb_size b) \<le> total_size (e_len e)"
    using total_size_bounds(1) [of "e_len e"] b(2) by linarith
  then have "buffer_bytes (rb s) (rb_off b) (8 + unat (rb_size b)) \<subseteq>
      buffer_bytes (rb s) (e_pos e) (total_size (e_len e))"
    using buffer_bytes_shift [of 0 "8 + unat (rb_size b)" "total_size (e_len e)" "rb s" "e_pos e"] b(1)
    by simp
  with disj buffer_bytes_shift [OF k, of "rb s" "e_pos x"] show ?thesis by blast
qed


section \<open>Executions\<close>

primrec admissible_run :: "label list \<Rightarrow> sys \<Rightarrow> bool" where
  "admissible_run [] s \<longleftrightarrow> True"
| "admissible_run (l # ls) s \<longleftrightarrow> admissible l s \<and>
     (case exec l s of None \<Rightarrow> False | Some s' \<Rightarrow> admissible_run ls s')"

lemma run_steps: "\<lbrakk>run ls s = Some s'; admissible_run ls s\<rbrakk> \<Longrightarrow> step\<^sup>*\<^sup>* s s'"
proof (induction ls arbitrary: s)
  case (Cons l ls)
  then obtain s1 where "exec l s = Some s1" "run ls s1 = Some s'" "admissible l s" "admissible_run ls s1"
    by (auto simp: Option.bind_eq_Some_conv split: option.splits)
  with Cons.IH show ?case by (meson converse_rtranclp_into_rtranclp step.intros)
qed simp

text \<open>Two producers that hold a record each while the consumer reads a third.\<close>

definition reserve_labels :: "nat \<Rightarrow> usize \<Rightarrow> label list" where
  "reserve_labels i sz = [PStart i sz, PLock i, PCheck i, PHdr i, PAdvance i, PUnlock i]"

definition sample_labels :: "label list" where
  "sample_labels = reserve_labels 0 2 @ [PWrite 0 0 [7, 9]] @ reserve_labels 1 3 @
     [PDrop 0, PCommit 0, PStart 2 1, CLoadConsumer, CLoadProducer, PLock 2, CReadHeader, PCheck 2]"

definition sample_sys :: sys where
  "sample_sys = the (run sample_labels (sys_init 4096 Forced))"

lemmas run_eval = step_defs ring_eval reserve_labels_def sys_init_def

lemma sample_reachable: "initial (sys_init 4096 Forced)" "step\<^sup>*\<^sup>* (sys_init 4096 Forced) sample_sys"
proof -
  show "initial (sys_init 4096 Forced)" 
    unfolding initial_def size_ok_def by (intro exI [of _ 4096] exI [of _ Forced]) simp
  have "run sample_labels (sys_init 4096 Forced) = Some sample_sys"
    by (simp add: sample_sys_def sample_labels_def run_eval)
  moreover have "admissible_run sample_labels (sys_init 4096 Forced)"
    by (simp add: sample_labels_def run_eval SIZE_LIMIT_def POS_LIMIT_def)
  ultimately show "step\<^sup>*\<^sup>* (sys_init 4096 Forced) sample_sys" by (rule run_steps)
qed


theorem reserve_mutual_exclusion_witness:
  "in_lock (pst sample_sys 2) \<and> spinlock (rb sample_sys) \<and> \<not> in_lock (pst sample_sys 1)"
proof -
  have "in_lock (pst sample_sys 2)" by (simp add: sample_sys_def sample_labels_def run_eval)
  with reserve_mutual_exclusion [OF sample_reachable, of 2 1] show ?thesis by auto
qed


section \<open>No torn reads\<close>

lemma exec_delivered:
  assumes "exec l s = Some s'" "cst s' \<noteq> CIdle"
  shows "delivered s' = delivered s"
  using assms by (cases l) (auto simp: step_defs split: pstate.splits cstate.splits if_splits prod.splits)

lemma reading_head:
  assumes "inv s es" "cst s = CRecord off len new"
  shows "es \<noteq> [] \<and> read_data (rb s) off (unat len) = snd (hd (queue (absq s es))) \<and>
         fst (hd (queue (absq s es))) = None"
  using assms by (auto simp: inv_def absq_def payload_def read_data_def linked_def)

lemma qstep_published_head:
  assumes "qstep q q'" "queue q \<noteq> []" "fst (hd (queue q)) = None" "out q' = out q"
  shows "hd (queue q') = hd (queue q)"
  using assms
proof (cases rule: qstep.cases)
  case (fill xs i bs ys bs')
  then show ?thesis using assms(3) by (cases xs) auto
next
  case (publish xs i bs ys)
  then show ?thesis using assms(3) by (cases xs) auto
qed auto



section \<open>Steps in sequence and the sequential operations\<close>



lemma drop_uninterrupted:
  assumes "pst s i = PReserved b" and "\<not> header_is_discarded (read_header (rb s) (rb_off b))"
  shows "run [PDrop i, PCommit i, PNotify i] s =
    (case buffer_drop (strategy s) None b (rb s, efd s) of
       (r', n) \<Rightarrow> Some (s\<lparr>rb := r', efd := n, pst := (pst s)(i := PIdle)\<rparr>))"
  using assms by (cases "strategy s") (simp_all add: step_defs buffer_drop_def)

section \<open>Discarding races with reuse\<close>

definition discard_race :: "label list" where
  "discard_race =
     reserve_labels 0 8 @ [PDiscard 0, CLoadConsumer, CLoadProducer, CReadHeader, CAdvance] @
     reserve_labels 1 4072 @ [PDiscard 1, PDrop 1, PNotify 1, CLoadConsumer, CLoadProducer, CReadHeader, CAdvance] @
     reserve_labels 1 8 @ [PDrop 0, PCommit 0] @
     [CLoadConsumer, CLoadProducer, CReadHeader, CDropRecord]"


end
