(* ===== verification/F64.thy ===== *)
theory F64
  imports Prelude
begin

text \<open>
  The floating-point operations of the counters: values of type \<open>f64\<close> as their bits, rounded
  to nearest with ties to even (IEEE 754 binary64). The program computes counter values from
  unsigned integers, positive constants and quotients of these, so only operands without
  sign bit occur.
\<close>

type_synonym f64_bits = "64 word"

definition f64_inf :: f64_bits where "f64_inf = 0x7FF0000000000000"
definition f64_nan :: f64_bits where "f64_nan = 0x7FF8000000000000"

fun bitlen :: "nat \<Rightarrow> nat" where
  "bitlen n = (if n = 0 then 0 else Suc (bitlen (n div 2)))"

declare bitlen.simps [simp del]

text \<open>The integer nearest to \<open>n / d\<close>.\<close>

definition round_half_even :: "nat \<Rightarrow> nat \<Rightarrow> nat" where
  "round_half_even n d =
     (let q = n div d; r = n mod d in if 2 * r < d \<or> (2 * r = d \<and> even q) then q else Suc q)"

text \<open>
  The value \<open>n / d\<close>, for \<open>d \<noteq> 0\<close>: a significand of 53 bits, or fewer for the smallest exponent,
  rounded; the exponent and the significand without its leading bit are adjacent bit fields,
  so that a significand rounded up to \<open>2\<^sup>5\<^sup>3\<close> carries into the exponent.
\<close>

definition f64_exponent :: "nat \<Rightarrow> nat \<Rightarrow> int" where
  "f64_exponent n d =
     (let e = int (bitlen n) - int (bitlen d) - 53
      in max (if 2 ^ 53 * (d * 2 ^ nat e) \<le> n * 2 ^ nat (- e) then e + 1 else e) (- 1074))"

definition f64_of_ratio :: "nat \<Rightarrow> nat \<Rightarrow> f64_bits" where
  "f64_of_ratio n d =
     (if n = 0 then 0
      else let e = f64_exponent n d;
               bits = nat (e + 1074) * 2 ^ 52 + round_half_even (n * 2 ^ nat (- e)) (d * 2 ^ nat e)
           in if 0x7FF0000000000000 \<le> bits then f64_inf else of_nat bits)"

text \<open>Significand and exponent of a finite value.\<close>

definition f64_parts :: "f64_bits \<Rightarrow> nat \<times> int" where
  "f64_parts b =
     (let ex = unat b div 2 ^ 52; f = unat b mod 2 ^ 52
      in if ex = 0 then (f, - 1074) else (f + 2 ^ 52, int ex - 1075))"

definition f64_num :: "f64_bits \<Rightarrow> nat" where
  "f64_num b = (case f64_parts b of (m, e) \<Rightarrow> m * 2 ^ nat e)"

definition f64_den :: "f64_bits \<Rightarrow> nat" where
  "f64_den b = (case f64_parts b of (m, e) \<Rightarrow> 2 ^ nat (- e))"

definition f64_is_nan :: "f64_bits \<Rightarrow> bool" where
  "f64_is_nan b \<longleftrightarrow> f64_inf < b"

definition f64_of_u64 :: "u64 \<Rightarrow> f64_bits" where
  "f64_of_u64 n = f64_of_ratio (unat n) 1"

definition f64_mul :: "f64_bits \<Rightarrow> f64_bits \<Rightarrow> f64_bits" where
  "f64_mul a b =
     (if f64_is_nan a \<or> f64_is_nan b then f64_nan
      else if a = f64_inf \<or> b = f64_inf then (if a = 0 \<or> b = 0 then f64_nan else f64_inf)
      else f64_of_ratio (f64_num a * f64_num b) (f64_den a * f64_den b))"

definition f64_div :: "f64_bits \<Rightarrow> f64_bits \<Rightarrow> f64_bits" where
  "f64_div a b =
     (if f64_is_nan a \<or> f64_is_nan b then f64_nan
      else if a = f64_inf then (if b = f64_inf then f64_nan else f64_inf)
      else if b = f64_inf then 0
      else if b = 0 then (if a = 0 then f64_nan else f64_inf)
      else f64_of_ratio (f64_num a * f64_den b) (f64_den a * f64_num b))"

text \<open>\<^verbatim>\<open>x.ceil() as u64\<close>, which saturates and takes NaN to 0, and \<^verbatim>\<open>clamp\<close>; without sign bit, values compare as their bits do.\<close>

definition f64_ceil_u64 :: "f64_bits \<Rightarrow> u64" where
  "f64_ceil_u64 b =
     (if f64_is_nan b then 0
      else if b = f64_inf then - 1
      else of_nat (min ((f64_num b + (f64_den b - 1)) div f64_den b) (2 ^ 64 - 1)))"

definition f64_clamp :: "f64_bits \<Rightarrow> f64_bits \<Rightarrow> f64_bits \<Rightarrow> f64_bits" where
  "f64_clamp lo hi b = (if f64_is_nan b then b else if b < lo then lo else if hi < b then hi else b)"

section \<open>Integers below \<open>2\<^sup>5\<^sup>3\<close> are exact\<close>

lemma bitlen_bounds: "0 < n \<Longrightarrow> 2 ^ (bitlen n - 1) \<le> n \<and> n < 2 ^ bitlen n \<and> 0 < bitlen n"
proof (induction n rule: bitlen.induct)
  case (1 n)
  show ?case
  proof (cases "n div 2 = 0")
    case True
    with 1(2) have "n = 1" by auto
    then show ?thesis by (simp add: bitlen.simps [of "Suc 0"] bitlen.simps [of 0])
  next
    case False
    let ?k = "bitlen (n div 2)"
    have "2 ^ (?k - 1) \<le> n div 2 \<and> n div 2 < 2 ^ ?k \<and> 0 < ?k"
      by (rule 1(1)) (use False 1(2) in linarith)+
    then have IH: "2 ^ (?k - 1) \<le> n div 2" "n div 2 < 2 ^ ?k" "0 < ?k" by blast+
    have b: "bitlen n = Suc ?k" using 1(2) by (simp add: bitlen.simps [of n])
    have "(2 :: nat) ^ ?k = 2 * 2 ^ (?k - 1)" using IH(3) by (cases ?k) simp_all
    then have "2 ^ ?k \<le> n" using IH(1) by linarith
    moreover have "n < 2 ^ Suc ?k" using IH(2) by simp
    ultimately show ?thesis by (simp add: b)
  qed
qed

lemma bitlen_le: "0 < n \<Longrightarrow> n < 2 ^ k \<Longrightarrow> bitlen n \<le> k"
proof -
  assume "0 < n" "n < 2 ^ k"
  with bitlen_bounds [of n] have "(2 :: nat) ^ (bitlen n - 1) < 2 ^ k" by linarith
  then show ?thesis by (simp add: power_strict_increasing_iff)
qed

text \<open>Quotients of moderate size: the exponent is \<open>- k\<close> with a significand of 53 bits.\<close>

lemma f64_exponent_moderate:
  assumes n: "0 < n" and d: "0 < d" and ge: "d \<le> 2 * n" and lt: "n < 2 ^ 53 * d"
  obtains k where "f64_exponent n d = - int k" "k \<le> 54" "2 ^ 52 * d \<le> n * 2 ^ k" "n * 2 ^ k < 2 ^ 53 * d"
proof -
  define bn bd where "bn = bitlen n" and "bd = bitlen d"
  have bn: "2 ^ (bn - 1) \<le> n" "n < 2 ^ bn" "0 < bn" and bd: "2 ^ (bd - 1) \<le> d" "d < 2 ^ bd" "0 < bd"
    using bitlen_bounds [OF n] bitlen_bounds [OF d] by (auto simp: bn_def bd_def)
  have "(2 :: nat) ^ (bd - 1) < 2 ^ Suc bn" using bd(1) bn(2) ge by simp
  then have "bd - 1 < Suc bn" by (rule power_less_imp_less_exp [rotated]) simp
  then have near: "bd \<le> bn + 1" by simp
  have e: "f64_exponent n d = (let e = int bn - int bd - 53
      in max (if 2 ^ 53 * (d * 2 ^ nat e) \<le> n * 2 ^ nat (- e) then e + 1 else e) (- 1074))"
    by (simp add: f64_exponent_def bn_def bd_def)
  show ?thesis
  proof (cases "bd + 53 \<le> bn")
    case True
    have "bn = bd + 53"
    proof (rule ccontr)
      assume "bn \<noteq> bd + 53"
      then have "(2 :: nat) ^ (53 + bd) \<le> 2 ^ (bn - 1)" using True by (intro power_increasing) auto
      then have "2 ^ 53 * 2 ^ bd \<le> n" using bn(1) by (simp add: power_add)
      moreover have "2 ^ 53 * d \<le> 2 ^ 53 * 2 ^ bd" using bd(2) by simp
      ultimately show False using lt by simp
    qed
    moreover from this have "2 ^ 52 * d \<le> n"
    proof -
      have "2 ^ 52 * d \<le> 2 ^ 52 * 2 ^ bd" using bd(2) by simp
      also have "\<dots> = 2 ^ (bn - 1)" using \<open>bn = bd + 53\<close> by (simp add: power_add)
      finally show ?thesis using bn(1) by simp
    qed
    ultimately show ?thesis using that [of 0] lt e by (simp add: Let_def)
  next
    case False
    define k where "k = 53 + bd - bn"
    have k: "int bn - int bd - 53 = - int k" "0 < k" "k \<le> 54" using False near by (simp_all add: k_def)
    have low: "2 ^ 52 * d \<le> n * 2 ^ k"
    proof -
      have "2 ^ 52 * d \<le> 2 ^ 52 * 2 ^ bd" using bd(2) by simp
      also have "\<dots> = 2 ^ (bn - 1) * 2 ^ k" using bn(3) False near by (simp add: k_def power_add [symmetric] del: power_numeral)
      also have "\<dots> \<le> n * 2 ^ k" using bn(1) by simp
      finally show ?thesis .
    qed
    have high: "n * 2 ^ k < 2 ^ 54 * d"
    proof -
      have "n * 2 ^ k < 2 ^ bn * 2 ^ k" using bn(2) by simp
      also have "\<dots> = 2 ^ 54 * 2 ^ (bd - 1)" using bd(3) False near by (simp add: k_def power_add [symmetric] del: power_numeral)
      also have "\<dots> \<le> 2 ^ 54 * d" using bd(1) by simp
      finally show ?thesis .
    qed
    show ?thesis
    proof (cases "2 ^ 53 * d \<le> n * 2 ^ k")
      case True
      obtain j where j: "k = Suc j" using k(2) by (cases k) simp_all
      have "f64_exponent n d = - int k + 1" using e k True by (simp add: Let_def)
      then have "f64_exponent n d = - int j" by (simp add: j)
      then show ?thesis using that [of j] True high k(3) by (simp add: j)
    next
      case False
      have "f64_exponent n d = - int k" using e k False by (simp add: Let_def)
      then show ?thesis using that [of k] False low k by simp
    qed
  qed
qed

lemma round_half_even_bounds:
  assumes "0 < d" "a * d \<le> n" "n \<le> b * d"
  shows "a \<le> round_half_even n d" "round_half_even n d \<le> b"
proof -
  have q: "a \<le> n div d" using assms by (simp add: less_eq_div_iff_mult_less_eq)
  then show "a \<le> round_half_even n d" by (simp add: round_half_even_def Let_def)
  show "round_half_even n d \<le> b"
  proof (cases "n mod d = 0")
    case True
    then have "n div d \<le> b" using assms by (metis div_le_mono nonzero_mult_div_cancel_right not_gr_zero)
    then show ?thesis using True assms(1) by (simp add: round_half_even_def)
  next
    case False
    have "n div d * d + n mod d \<le> b * d" using assms(3) by simp
    then have "n div d * d < b * d" using False by linarith
    then have "Suc (n div d) \<le> b" by simp
    then show ?thesis by (simp add: round_half_even_def Let_def)
  qed
qed

text \<open>The value of such a quotient is its significand, rounded, over \<open>2\<^sup>k\<close>.\<close>

lemma f64_ratio_value:
  assumes "0 < n" "0 < d" "d \<le> 2 * n" "n < 2 ^ 53 * d"
  obtains k where "f64_num (f64_of_ratio n d) * 2 ^ k = round_half_even (n * 2 ^ k) d * f64_den (f64_of_ratio n d)"
    "2 ^ 52 \<le> round_half_even (n * 2 ^ k) d" "f64_of_ratio n d < f64_inf" "k \<le> 54"
proof -
  obtain k where e: "f64_exponent n d = - int k" "k \<le> 54" and b: "2 ^ 52 * d \<le> n * 2 ^ k" "n * 2 ^ k < 2 ^ 53 * d"
    by (rule f64_exponent_moderate [OF assms])
  define m where "m = round_half_even (n * 2 ^ k) d"
  have m: "2 ^ 52 \<le> m" "m \<le> 2 ^ 53"
    using round_half_even_bounds [OF assms(2) b(1), of "2 ^ 53"] b(2) by (simp_all add: m_def)
  let ?bits = "(1074 - k) * 2 ^ 52 + m"
  have small: "?bits < 0x7FF0000000000000"
  proof -
    have "(1074 - k) * 2 ^ 52 \<le> 1074 * 2 ^ 52" by (intro mult_le_mono1) simp
    with m(2) show ?thesis by simp
  qed
  have nk: "nat (- int k + 1074) = 1074 - k" "nat (- (- int k)) = k" "nat (- int k) = 0" using e(2) by auto
  have bits: "f64_of_ratio n d = of_nat ?bits"
    using assms(1) small unfolding f64_of_ratio_def e(1) Let_def nk power_0 mult_1_right m_def [symmetric]
    by (simp only: if_False not_le [symmetric] simp_thms) simp
  have u: "unat (of_nat ?bits :: f64_bits) = ?bits"
    by (rule unat_of_nat_small) (use small in simp)
  have fin: "f64_of_ratio n d < f64_inf"
    using small unfolding bits word_less_nat_alt u by (simp add: f64_inf_def)
  have val: "f64_num (f64_of_ratio n d) * 2 ^ k = m * f64_den (f64_of_ratio n d)"
  proof (cases "m = 2 ^ 53")
    case False
    obtain f where f: "m = f + 2 ^ 52" using m(1) by (metis le_add_diff_inverse2)
    have lt: "f < 2 ^ 52" using m(2) False f by simp
    have bf: "?bits = f + (1074 - k + 1) * 2 ^ 52" unfolding f by (simp only: distrib_left distrib_right mult_1 ac_simps)
    have "?bits mod 2 ^ 52 = f" unfolding bf mod_mult_self1 by (rule mod_less [OF lt])
    moreover have "?bits div 2 ^ 52 = 1074 - k + 1"
      unfolding bf using div_mult_self1 [of "2 ^ 52 :: nat" f] div_less [OF lt] by simp
    ultimately have dm: "?bits div 2 ^ 52 = 1074 - k + 1" "?bits mod 2 ^ 52 = m - 2 ^ 52" using f by simp_all
    have "f64_parts (f64_of_ratio n d) = (m, - int k)"
      using m(1) e(2) unfolding f64_parts_def bits u dm Let_def by simp
    then show ?thesis unfolding f64_num_def f64_den_def by simp
  next
    case True
    have "(2 :: nat) ^ 53 = 2 * 2 ^ 52" by simp
    then have bf: "?bits = (1074 - k + 2) * 2 ^ 52" unfolding True by (simp only: add_mult_distrib)
    have dm: "?bits div 2 ^ 52 = 1074 - k + 2" "?bits mod 2 ^ 52 = 0"
      unfolding bf by (simp_all only: div_mult_self_is_m mod_mult_self2_is_0) simp_all
    have "f64_parts (f64_of_ratio n d) = (2 ^ 52, 1 - int k)"
      using e(2) unfolding f64_parts_def bits u dm Let_def by simp
    then show ?thesis
      unfolding f64_num_def f64_den_def True by (cases k) (simp_all add: nat_diff_distrib)
  qed
  from that [OF val [unfolded m_def] m(1) [unfolded m_def] fin e(2)] show ?thesis .
qed

text \<open>Rounding never passes an integer.\<close>

lemma f64_ratio_le:
  assumes "0 < n" "0 < d" "d \<le> 2 * n" "n \<le> N * d" "N < 2 ^ 53"
  shows "f64_num (f64_of_ratio n d) \<le> N * f64_den (f64_of_ratio n d)" "0 < f64_num (f64_of_ratio n d)"
    "f64_of_ratio n d < f64_inf"
proof -
  have "N * d < 2 ^ 53 * d" using assms(2,5) by simp
  then have lt: "n < 2 ^ 53 * d" using assms(4) by linarith
  obtain k where v: "f64_num (f64_of_ratio n d) * 2 ^ k = round_half_even (n * 2 ^ k) d * f64_den (f64_of_ratio n d)"
      "2 ^ 52 \<le> round_half_even (n * 2 ^ k) d" "f64_of_ratio n d < f64_inf"
    using f64_ratio_value [OF assms(1-3) lt] by metis
  have "n * 2 ^ k \<le> N * 2 ^ k * d" using mult_le_mono1 [OF assms(4), of "2 ^ k"] by (simp add: algebra_simps)
  then have "round_half_even (n * 2 ^ k) d \<le> N * 2 ^ k"
    using round_half_even_bounds(2) [OF assms(2), of 0 "n * 2 ^ k" "N * 2 ^ k"] by simp
  then have "f64_num (f64_of_ratio n d) * 2 ^ k \<le> N * 2 ^ k * f64_den (f64_of_ratio n d)"
    using v(1) mult_le_mono1 by simp
  then have "f64_num (f64_of_ratio n d) * 2 ^ k \<le> (N * f64_den (f64_of_ratio n d)) * 2 ^ k" by (simp add: algebra_simps)
  then show "f64_num (f64_of_ratio n d) \<le> N * f64_den (f64_of_ratio n d)" by simp
  have "0 < f64_den (f64_of_ratio n d)" by (simp add: f64_den_def split: prod.split)
  then have "0 < f64_num (f64_of_ratio n d) * 2 ^ k" using v(1,2) by simp
  then show "0 < f64_num (f64_of_ratio n d)" by simp
  show "f64_of_ratio n d < f64_inf" by (rule v(3))
qed

lemma f64_of_u64_exact:
  assumes "0 < unat n" "unat n < 2 ^ 53"
  shows "f64_num (f64_of_u64 n) = unat n * f64_den (f64_of_u64 n)"
proof -
  obtain k where "f64_num (f64_of_ratio (unat n) 1) * 2 ^ k =
      round_half_even (unat n * 2 ^ k) 1 * f64_den (f64_of_ratio (unat n) 1)"
    using f64_ratio_value [of "unat n" 1] assms by (auto simp: Suc_le_eq)
  then show ?thesis by (simp add: f64_of_u64_def round_half_even_def algebra_simps)
qed

section \<open>Evaluation\<close>

lemmas f64_eval = f64_of_u64_def f64_of_ratio_def f64_exponent_def bitlen.simps round_half_even_def Let_def
  f64_div_def f64_mul_def f64_is_nan_def f64_inf_def f64_num_def f64_den_def f64_parts_def f64_nan_def

text \<open>Known bit patterns: 3, the double nearest to 0.1, ten times it, and the largest \<open>u64\<close>.\<close>

lemma f64_samples:
  "f64_of_u64 3 = 0x4008000000000000"
  "f64_div (f64_of_u64 1) (f64_of_u64 10) = 0x3FB999999999999A"
  "f64_mul (f64_of_u64 10) (f64_div (f64_of_u64 1) (f64_of_u64 10)) = 0x3FF0000000000000"
  "f64_of_u64 0xFFFFFFFFFFFFFFFF = 0x43F0000000000000"
  by (simp_all add: f64_eval)

end
