(* ===== verification/Protocol.thy ===== *)
theory Protocol
  imports F64
begin

text \<open>
  \<^verbatim>\<open>protocol/src/lib.rs\<close>: the messages that agents, clients and the converter exchange, the
  stream identifiers, and the two writers that serialise a message, one that counts bytes
  and one that fills a slice. Data types that are also read in archived form are polymorphic
  in their integers: \<open>track_id\<close> is the native type, the same type over stored integers is the
  archived one, and \<open>to_native\<close> converts with the integers' own conversion functions.
  The serialiser (a library) is an arbitrary program of writes and position queries. A hash
  map is the list of its entries in iteration order. A floating-point number that is only
  passed on is its bit pattern.
\<close>

type_synonym stream_id = u16

definition VERSION :: string where "VERSION = ''0.1''"

section \<open>Stream identifiers\<close>

record stream_id_allocator =
  next_id :: stream_id

definition stream_id_allocator_new :: stream_id_allocator where
  "stream_id_allocator_new = \<lparr>next_id = 1\<rparr>"

definition allocate :: "stream_id_allocator \<Rightarrow> stream_id \<times> stream_id_allocator" where
  "allocate a = (let i = next_id a in (i, a\<lparr>next_id := saturating_add (next_id a) 1\<rparr>))"

section \<open>Messages\<close>

record labels =
  strings :: "(string \<times> string) list"
  ints :: "(string \<times> i64) list"
  bools :: "(string \<times> bool) list"
  floats :: "(string \<times> f64_bits) list"

definition labels_new :: labels where
  "labels_new = \<lparr>strings = [], ints = [], bools = [], floats = []\<rparr>"

datatype ('u, 'i, 'q) track_id_of =
    Cpu (tid_cpu: 'u)
  | Thread (tid_tid: 'i) (tid_pid: 'i)
  | Process (tid_process: 'i)
  | Custom (tid_custom: 'q)
  | CounterId (tid_counter: 'q)

type_synonym track_id = "(u32, i32, u64) track_id_of"

fun track_id_to_native ::
  "('u \<Rightarrow> u32) \<Rightarrow> ('i \<Rightarrow> i32) \<Rightarrow> ('q \<Rightarrow> u64) \<Rightarrow> ('u, 'i, 'q) track_id_of \<Rightarrow> track_id" where
  "track_id_to_native nu ni nq (Cpu cpu) = Cpu (nu cpu)"
| "track_id_to_native nu ni nq (Thread tid pid) = Thread (ni tid) (ni pid)"
| "track_id_to_native nu ni nq (Process pid) = Process (ni pid)"
| "track_id_to_native nu ni nq (Custom q) = Custom (nq q)"
| "track_id_to_native nu ni nq (CounterId q) = CounterId (nq q)"

datatype ('u, 'i, 'q) track_type_of =
    TyCpu 'u
  | TyThread 'i 'i
  | TyProcess 'i
  | TyCustom 'q
  | TyCounter 'q "string option"

type_synonym track_type = "(u32, i32, u64) track_type_of"

fun to_id :: "('u, 'i, 'q) track_type_of \<Rightarrow> ('u, 'i, 'q) track_id_of" where
  "to_id (TyCpu cpu) = Cpu cpu"
| "to_id (TyThread tid pid) = Thread tid pid"
| "to_id (TyProcess pid) = Process pid"
| "to_id (TyCustom q) = Custom q"
| "to_id (TyCounter q u) = CounterId q"

fun track_type_to_native ::
  "('u \<Rightarrow> u32) \<Rightarrow> ('i \<Rightarrow> i32) \<Rightarrow> ('q \<Rightarrow> u64) \<Rightarrow> ('u, 'i, 'q) track_type_of \<Rightarrow> track_type" where
  "track_type_to_native nu ni nq (TyCpu cpu) = TyCpu (nu cpu)"
| "track_type_to_native nu ni nq (TyThread tid pid) = TyThread (ni tid) (ni pid)"
| "track_type_to_native nu ni nq (TyProcess pid) = TyProcess (ni pid)"
| "track_type_to_native nu ni nq (TyCustom q) = TyCustom (nq q)"
| "track_type_to_native nu ni nq (TyCounter q u) = TyCounter (nq q) u"

record track =
  trk_name :: string
  trk_type :: track_type
  trk_parent :: "track_type option"

record counter =
  ctr_name :: string
  ctr_value :: f64_bits
  ctr_timestamp :: u64
  ctr_track_id :: track_id
  ctr_labels :: labels
  ctr_unit :: "string option"

record span =
  span_name :: string
  span_id :: u64
  start_timestamp :: u64
  end_timestamp :: u64
  span_track_id :: track_id
  span_labels :: labels

record instant =
  inst_name :: string
  inst_timestamp :: u64
  inst_track_id :: track_id
  inst_labels :: labels

record 'q interned_string_of =
  istr_iid :: 'q
  istr_str :: string

record 'q frame_of =
  frm_iid :: 'q
  function_name_id :: 'q
  mapping_id :: 'q
  rel_pc :: 'q

record 'q callstack_of =
  cs_iid :: 'q
  frame_ids :: "'q list"

record 'q mapping_of =
  map_iid :: 'q
  build_id :: 'q
  exact_offset :: 'q
  start_offset :: 'q
  map_start :: 'q
  map_end :: 'q
  load_bias :: 'q
  path_string_ids :: "'q list"

record 'q interned_data_of =
  function_names :: "'q interned_string_of list"
  frames :: "'q frame_of list"
  callstacks :: "'q callstack_of list"
  mappings :: "'q mapping_of list"
  build_ids :: "'q interned_string_of list"
  continuation :: bool

type_synonym interned_string = "u64 interned_string_of"
type_synonym frame = "u64 frame_of"
type_synonym callstack = "u64 callstack_of"
type_synonym mapping_rec = "u64 mapping_of"
type_synonym interned_data = "u64 interned_data_of"

definition interned_data_new :: "'q interned_data_of" where
  "interned_data_new = \<lparr>function_names = [], frames = [], callstacks = [], mappings = [],
     build_ids = [], continuation = False\<rparr>"

text \<open>What the accessor traits return on archived data: every stored integer converted.\<close>

definition interned_string_to_native :: "('q \<Rightarrow> u64) \<Rightarrow> 'q interned_string_of \<Rightarrow> interned_string" where
  "interned_string_to_native n s = \<lparr>istr_iid = n (istr_iid s), istr_str = istr_str s\<rparr>"

definition frame_to_native :: "('q \<Rightarrow> u64) \<Rightarrow> 'q frame_of \<Rightarrow> frame" where
  "frame_to_native n f = \<lparr>frm_iid = n (frm_iid f), function_name_id = n (function_name_id f),
     mapping_id = n (mapping_id f), rel_pc = n (rel_pc f)\<rparr>"

definition callstack_to_native :: "('q \<Rightarrow> u64) \<Rightarrow> 'q callstack_of \<Rightarrow> callstack" where
  "callstack_to_native n c = \<lparr>cs_iid = n (cs_iid c), frame_ids = map n (frame_ids c)\<rparr>"

definition mapping_to_native :: "('q \<Rightarrow> u64) \<Rightarrow> 'q mapping_of \<Rightarrow> mapping_rec" where
  "mapping_to_native n m = \<lparr>map_iid = n (map_iid m), build_id = n (build_id m),
     exact_offset = n (exact_offset m), start_offset = n (start_offset m), map_start = n (map_start m),
     map_end = n (map_end m), load_bias = n (load_bias m), path_string_ids = map n (path_string_ids m)\<rparr>"

definition interned_data_to_native :: "('q \<Rightarrow> u64) \<Rightarrow> 'q interned_data_of \<Rightarrow> interned_data" where
  "interned_data_to_native n d =
     \<lparr>function_names = map (interned_string_to_native n) (function_names d),
      frames = map (frame_to_native n) (frames d),
      callstacks = map (callstack_to_native n) (callstacks d),
      mappings = map (mapping_to_native n) (mappings d),
      build_ids = map (interned_string_to_native n) (build_ids d),
      continuation = continuation d\<rparr>"

datatype cpu_mode = CpuUnknown | CpuKernel | CpuUser
datatype log_level = LogError | LogWarn | LogInfo | LogDebug | LogTrace

record sample =
  smp_cpu :: u32
  smp_track_id :: track_id
  smp_timestamp :: u64
  callstack_iid :: u64
  smp_cpu_mode :: cpu_mode

datatype event =
    ECounter counter
  | ESpan span
  | EInstant instant
  | EInternedData interned_data
  | ESample sample
  | ETrack track

datatype message = MEvent event | MStream stream_id event

datatype timestamp_type = Monotonic | Boottime | Realtime

datatype arg_value = VString string | VInt i64 | VFloat f64_bits | VBool bool

record tracing_args =
  log_filter :: string
  timestamp_type_of :: timestamp_type

record args =
  tracing :: "tracing_args option"
  options :: "(string \<times> arg_value) list"

definition args_validate :: "args \<Rightarrow> string + unit" where
  "args_validate a =
     (case tracing a of None \<Rightarrow> Inl ''at least one arg must be non-empty'' | Some _ \<Rightarrow> Inr ())"

datatype control_message =
    Start u64 args
  | Stop
  | Continue
  | Ack
  | Nack string
  | Version
  | VersionResponse string

section \<open>Serialisation\<close>

datatype rkyv_error = OutOfSpaceError | SerializerError

text \<open>What the serialiser does to its writer: it writes chunks, and may ask for the current
  position (to align what follows) or give up.\<close>

datatype ser_prog = SDone | SFail | SWrite bytes ser_prog | SPos "usize \<Rightarrow> ser_prog"

record counting_writer =
  write_count :: usize
  total_bytes :: usize

definition counting_writer_new :: counting_writer where
  "counting_writer_new = \<lparr>write_count = 0, total_bytes = 0\<rparr>"

definition counting_write :: "counting_writer \<Rightarrow> bytes \<Rightarrow> (rkyv_error + unit) \<times> counting_writer" where
  "counting_write w bs =
     (Inr (), w\<lparr>write_count := write_count w + 1, total_bytes := total_bytes w + of_nat (length bs)\<rparr>)"

record slice_writer =
  sw_buf :: bytes
  sw_pos :: usize

definition slice_writer_new :: "bytes \<Rightarrow> slice_writer" where
  "slice_writer_new buf = \<lparr>sw_buf = buf, sw_pos = 0\<rparr>"

definition copy_from_slice :: "bytes \<Rightarrow> nat \<Rightarrow> bytes \<Rightarrow> bytes" where
  "copy_from_slice buf k bs = take k buf @ bs @ drop (k + length bs) buf"

definition slice_write :: "slice_writer \<Rightarrow> bytes \<Rightarrow> (rkyv_error + unit) \<times> slice_writer" where
  "slice_write w bs =
     (if of_nat (length (sw_buf w)) < sw_pos w + of_nat (length bs) then (Inl OutOfSpaceError, w)
      else (Inr (), w\<lparr>sw_buf := copy_from_slice (sw_buf w) (unat (sw_pos w)) bs,
                      sw_pos := sw_pos w + of_nat (length bs)\<rparr>))"

primrec to_bytes_in ::
  "('w \<Rightarrow> usize) \<Rightarrow> ('w \<Rightarrow> bytes \<Rightarrow> (rkyv_error + unit) \<times> 'w) \<Rightarrow> ser_prog \<Rightarrow> 'w
   \<Rightarrow> (rkyv_error + unit) \<times> 'w" where
  "to_bytes_in pos wr SDone w = (Inr (), w)"
| "to_bytes_in pos wr SFail w = (Inl SerializerError, w)"
| "to_bytes_in pos wr (SWrite bs p) w =
     (case wr w bs of (Inl e, w') \<Rightarrow> (Inl e, w') | (Inr _, w') \<Rightarrow> to_bytes_in pos wr p w')"
| "to_bytes_in pos wr (SPos k) w = to_bytes_in pos wr (k (pos w)) w"

definition serialize_to_buf :: "ser_prog \<Rightarrow> bytes \<Rightarrow> (rkyv_error + unit) \<times> bytes" where
  "serialize_to_buf p buf =
     (case to_bytes_in sw_pos slice_write p (slice_writer_new buf) of (res, w) \<Rightarrow> (res, sw_buf w))"

definition compute_length :: "ser_prog \<Rightarrow> rkyv_error + usize" where
  "compute_length p =
     (case to_bytes_in total_bytes counting_write p counting_writer_new of
        (Inl e, w) \<Rightarrow> Inl e | (Inr _, w) \<Rightarrow> Inr (total_bytes w))"

section \<open>Properties of stream identifiers\<close>

primrec allocate_n :: "nat \<Rightarrow> stream_id_allocator \<Rightarrow> stream_id list" where
  "allocate_n 0 a = []"
| "allocate_n (Suc n) a = (case allocate a of (i, a') \<Rightarrow> i # allocate_n n a')"

lemma unat_next_id: "unat (saturating_add (x :: u16) 1) = min (unat x + 1) 65535"
  by (simp add: unat_saturating_add)

lemma allocate_n_nth:
  "k < n \<Longrightarrow> unat (allocate_n n a ! k) = min (unat (next_id a) + k) 65535"
proof (induction n arbitrary: a k)
  case (Suc n)
  have "unat (next_id a) < 2 ^ LENGTH(16)" by (rule unsigned_less)
  then show ?case
    using Suc by (cases k) (auto simp: allocate_def Let_def unat_next_id)
qed simp

lemma length_allocate_n [simp]: "length (allocate_n n a) = n"
  by (induction n arbitrary: a) (simp_all add: allocate_def Let_def)

text \<open>
  The stream identifiers handed out by a new allocator count up from 1 and stay at the
  largest 16-bit value once they reach it: they are pairwise distinct exactly as long as at
  most 65535 are allocated.
\<close>

theorem stream_ids_distinct:
  "(\<forall>k < n. unat (allocate_n n stream_id_allocator_new ! k) = min (k + 1) 65535) \<and>
   (distinct (allocate_n n stream_id_allocator_new) \<longleftrightarrow> n \<le> 65535)"
proof -
  let ?ids = "allocate_n n stream_id_allocator_new"
  have nth: "k < n \<Longrightarrow> unat (?ids ! k) = min (k + 1) 65535" for k
    using allocate_n_nth [of k n stream_id_allocator_new] by (simp add: stream_id_allocator_new_def)
  have "distinct ?ids" if "n \<le> 65535"
  proof (rule distinct_conv_nth [THEN iffD2], intro allI impI)
    fix i j
    assume "i < length ?ids" "j < length ?ids" "i \<noteq> j"
    then show "?ids ! i \<noteq> ?ids ! j" using nth [of i] nth [of j] that by auto
  qed
  moreover have "\<not> distinct ?ids" if "\<not> n \<le> 65535"
  proof -
    have "unat (?ids ! 65534) = unat (?ids ! 65535)" using nth that by simp
    then have "?ids ! 65534 = ?ids ! 65535" by (simp only: word_unat_eq_iff)
    then show ?thesis
      using that unfolding distinct_conv_nth by (intro notI) (auto dest: spec [of _ 65534])
  qed
  ultimately show ?thesis using nth by blast
qed

theorem stream_ids_distinct_witness:
  "unat (allocate_n 3 stream_id_allocator_new ! 2) = 3 \<and> distinct (allocate_n 3 stream_id_allocator_new)"
  using stream_ids_distinct [of 3] by simp

section \<open>Archived data\<close>

text \<open>
  Reading archived track types, track ids and interned data through \<open>to_native\<close> gives
  back what was archived, whenever reading a stored integer gives back the integer, and the
  track id of an archived track type is the archive of its track id.
\<close>

theorem to_native_roundtrip:
  assumes "\<And>x. nu (au x) = x" and "\<And>x. ni (ai x) = x" and "\<And>x. nq (aq x) = x"
  shows "track_type_to_native nu ni nq (map_track_type_of au ai aq t) = t \<and>
         track_id_to_native nu ni nq (map_track_id_of au ai aq t') = t' \<and>
         to_id (map_track_type_of au ai aq t) = map_track_id_of au ai aq (to_id t) \<and>
         to_id (track_type_to_native nu ni nq ty) = track_id_to_native nu ni nq (to_id ty)"
  using assms by (cases t; cases t'; cases ty) simp_all

theorem to_native_roundtrip_witness:
  "track_type_to_native (\<lambda>x. x) (\<lambda>x. x) u64_of_bytes
     (map_track_type_of (\<lambda>x. x) (\<lambda>x. x) bytes_of_u64 (TyCounter 77 (Some ''ns''))) = TyCounter 77 (Some ''ns'')"
  using to_native_roundtrip [of "\<lambda>x. x" "\<lambda>x. x" "\<lambda>x. x" "\<lambda>x. x" u64_of_bytes bytes_of_u64 "TyCounter 77 (Some ''ns'')"]
  by simp

section \<open>Properties of serialisation\<close>

text \<open>The bytes a serialiser produces from a given position, and whether it gives up.\<close>

primrec prog_output :: "ser_prog \<Rightarrow> usize \<Rightarrow> bytes" where
  "prog_output SDone pos = []"
| "prog_output SFail pos = []"
| "prog_output (SWrite bs p) pos = bs @ prog_output p (pos + of_nat (length bs))"
| "prog_output (SPos k) pos = prog_output (k pos) pos"

primrec prog_fails :: "ser_prog \<Rightarrow> usize \<Rightarrow> bool" where
  "prog_fails SDone pos \<longleftrightarrow> False"
| "prog_fails SFail pos \<longleftrightarrow> True"
| "prog_fails (SWrite bs p) pos \<longleftrightarrow> prog_fails p (pos + of_nat (length bs))"
| "prog_fails (SPos k) pos \<longleftrightarrow> prog_fails (k pos) pos"

text \<open>The contract of the serialiser library's writer trait: a successful write advances the
  position by the number of bytes written.\<close>

locale positional_writer =
  fixes pos :: "'w \<Rightarrow> usize"
    and wr :: "'w \<Rightarrow> bytes \<Rightarrow> (rkyv_error + unit) \<times> 'w"
  assumes write_advances: "wr w bs = (Inr (), w') \<Longrightarrow> pos w' = pos w + of_nat (length bs)"
begin

lemma serialize_pos:
  "to_bytes_in pos wr p w = (Inr (), w') \<Longrightarrow>
     \<not> prog_fails p (pos w) \<and> pos w' = pos w + of_nat (length (prog_output p (pos w)))"
proof (induction p arbitrary: w)
  case (SWrite bs p)
  then obtain w1 where w1: "wr w bs = (Inr (), w1)" "to_bytes_in pos wr p w1 = (Inr (), w')"
    by (auto split: prod.splits sum.splits)
  with SWrite.IH [OF w1(2)] write_advances [OF w1(1)] show ?case by (simp add: add.assoc)
qed auto

end

locale infallible_writer = positional_writer +
  assumes write_succeeds: "fst (wr w bs) = Inr ()"
begin

lemma serialize_succeeds: "\<not> prog_fails p (pos w) \<Longrightarrow> fst (to_bytes_in pos wr p w) = Inr ()"
proof (induction p arbitrary: w)
  case (SWrite bs p)
  obtain w1 where w1: "wr w bs = (Inr (), w1)"
    using write_succeeds [of w bs] by (metis prod.collapse)
  with SWrite write_advances [OF w1] show ?case by simp
qed auto

end

interpretation counting: infallible_writer total_bytes counting_write
  by unfold_locales (auto simp: counting_write_def)

interpretation slice: positional_writer sw_pos slice_write
  by unfold_locales (auto simp: slice_write_def split: if_splits)

lemma compute_length_eq:
  "\<not> prog_fails p 0 \<Longrightarrow> compute_length p = Inr (of_nat (length (prog_output p 0)))"
proof -
  assume ok: "\<not> prog_fails p 0"
  let ?w = counting_writer_new
  have pos: "total_bytes ?w = 0" by (simp add: counting_writer_new_def)
  obtain w' where "to_bytes_in total_bytes counting_write p ?w = (Inr (), w')"
    using counting.serialize_succeeds [of p ?w] ok pos by (metis prod.collapse)
  with counting.serialize_pos [OF this] pos show ?thesis by (simp add: compute_length_def)
qed

lemma compute_length_fails: "prog_fails p 0 \<Longrightarrow> \<exists>e. compute_length p = Inl e"
  using counting.serialize_pos [of p counting_writer_new]
  by (auto simp: compute_length_def counting_writer_new_def split: prod.splits sum.splits)

lemma length_copy_from_slice [simp]:
  "k + length bs \<le> length buf \<Longrightarrow> length (copy_from_slice buf k bs) = length buf"
  by (simp add: copy_from_slice_def)

lemma copy_from_slice_append:
  "k + length bs + length bs' \<le> length buf \<Longrightarrow>
     copy_from_slice (copy_from_slice buf k bs) (k + length bs) bs' = copy_from_slice buf k (bs @ bs')"
  by (simp add: copy_from_slice_def ac_simps)

lemma copy_from_slice_Nil [simp]: "copy_from_slice buf k [] = buf"
  by (simp add: copy_from_slice_def)

text \<open>Lengths of Rust slices stay below \<open>isize::MAX\<close>, so positions do not wrap.\<close>

definition SLICE_MAX :: nat where "SLICE_MAX = 2 ^ 63"

lemma slice_pos_add:
  assumes "unat pos + n < 2 * SLICE_MAX"
  shows "unat (pos + of_nat n :: usize) = unat pos + n"
proof -
  have n: "unat (of_nat n :: usize) = n"
    by (rule unat_of_nat_small) (use assms in \<open>simp add: SLICE_MAX_def\<close>)
  have "unat pos + unat (of_nat n :: usize) < 2 ^ LENGTH(64)"
    unfolding n using assms by (simp add: SLICE_MAX_def)
  then have "unat (pos + of_nat n :: usize) = unat pos + unat (of_nat n :: usize)"
    by (rule unat_add_small)
  then show ?thesis by (simp only: n)
qed

lemma slice_write_check:
  assumes "length (sw_buf w) < SLICE_MAX" "length bs < SLICE_MAX" "unat (sw_pos w) \<le> length (sw_buf w)"
  shows "of_nat (length (sw_buf w)) < sw_pos w + of_nat (length bs) \<longleftrightarrow>
         length (sw_buf w) < unat (sw_pos w) + length bs"
proof -
  have "unat (of_nat (length (sw_buf w)) :: usize) = length (sw_buf w)"
    by (rule unat_of_nat_small) (use assms(1) in \<open>simp add: SLICE_MAX_def\<close>)
  moreover have "unat (sw_pos w + of_nat (length bs)) = unat (sw_pos w) + length bs"
    by (rule slice_pos_add) (use assms in linarith)
  ultimately show ?thesis by (simp only: word_less_nat_alt)
qed

lemma slice_serialize:
  assumes "length (sw_buf w) < SLICE_MAX" "\<not> prog_fails p (sw_pos w)"
    "unat (sw_pos w) + length (prog_output p (sw_pos w)) \<le> length (sw_buf w)"
  shows "to_bytes_in sw_pos slice_write p w =
    (Inr (), w\<lparr>sw_buf := copy_from_slice (sw_buf w) (unat (sw_pos w)) (prog_output p (sw_pos w)),
               sw_pos := sw_pos w + of_nat (length (prog_output p (sw_pos w)))\<rparr>)"
  using assms
proof (induction p arbitrary: w)
  case (SWrite bs p)
  let ?w = "w\<lparr>sw_buf := copy_from_slice (sw_buf w) (unat (sw_pos w)) bs,
               sw_pos := sw_pos w + of_nat (length bs)\<rparr>"
  have fits: "unat (sw_pos w) + length bs \<le> length (sw_buf w)" using SWrite.prems(3) by simp
  then have ok: "slice_write w bs = (Inr (), ?w)"
    using slice_write_check [of w bs] SWrite.prems(1) by (simp add: slice_write_def)
  have pos: "unat (sw_pos w + of_nat (length bs)) = unat (sw_pos w) + length bs"
    by (rule slice_pos_add) (use fits SWrite.prems(1) in linarith)
  have "to_bytes_in sw_pos slice_write p ?w =
    (Inr (), ?w\<lparr>sw_buf := copy_from_slice (sw_buf ?w) (unat (sw_pos ?w)) (prog_output p (sw_pos ?w)),
               sw_pos := sw_pos ?w + of_nat (length (prog_output p (sw_pos ?w)))\<rparr>)"
    by (rule SWrite.IH) (use SWrite.prems fits pos in simp_all)
  with ok pos SWrite.prems(3) show ?case
    by (simp add: copy_from_slice_append add.assoc)
qed simp_all

lemma slice_serialize_overflow:
  assumes "length (sw_buf w) < SLICE_MAX" "unat (sw_pos w) \<le> length (sw_buf w)"
    "length (sw_buf w) < unat (sw_pos w) + length (prog_output p (sw_pos w))"
    "length (prog_output p (sw_pos w)) < SLICE_MAX"
  shows "\<exists>w'. to_bytes_in sw_pos slice_write p w = (Inl OutOfSpaceError, w')"
  using assms
proof (induction p arbitrary: w)
  case (SWrite bs p)
  let ?w = "w\<lparr>sw_buf := copy_from_slice (sw_buf w) (unat (sw_pos w)) bs,
               sw_pos := sw_pos w + of_nat (length bs)\<rparr>"
  have bs: "length bs < SLICE_MAX" using SWrite.prems(4) by simp
  note check = slice_write_check [OF SWrite.prems(1) bs SWrite.prems(2)]
  show ?case
  proof (cases "length (sw_buf w) < unat (sw_pos w) + length bs")
    case True
    with check show ?thesis by (simp add: slice_write_def)
  next
    case False
    with check have "slice_write w bs = (Inr (), ?w)" by (simp add: slice_write_def)
    moreover have "unat (sw_pos w + of_nat (length bs)) = unat (sw_pos w) + length bs"
      by (rule slice_pos_add) (use SWrite.prems(1) False in linarith)
    ultimately show ?thesis using SWrite.IH [of ?w] SWrite.prems False by simp
  qed
qed simp_all

lemma unat_output_length:
  "length (prog_output p 0) < SLICE_MAX \<Longrightarrow>
     unat (of_nat (length (prog_output p 0)) :: usize) = length (prog_output p 0)"
  by (rule unat_of_nat_small) (simp add: SLICE_MAX_def)

lemma serialize_fits:
  assumes "\<not> prog_fails p 0" "length (prog_output p 0) \<le> length buf" "length buf < SLICE_MAX"
  shows "serialize_to_buf p buf = (Inr (), prog_output p 0 @ drop (length (prog_output p 0)) buf)"
  using slice_serialize [of "slice_writer_new buf" p] assms
  by (simp add: serialize_to_buf_def slice_writer_new_def copy_from_slice_def)

text \<open>
  C23: the length that \<open>compute_length\<close> returns is exact. A buffer of that length or more is
  filled by \<open>serialize_to_buf\<close> without error, with the serialised bytes at its start and the
  rest unchanged; a shorter buffer always gives the out-of-space error.
\<close>

theorem serialize_exact:
  assumes "compute_length p = Inr n" and "length (prog_output p 0) < SLICE_MAX"
    and "length buf < SLICE_MAX"
  shows "length (prog_output p 0) = unat n \<and>
    (if unat n \<le> length buf
     then serialize_to_buf p buf = (Inr (), prog_output p 0 @ drop (unat n) buf)
     else fst (serialize_to_buf p buf) = Inl OutOfSpaceError)"
proof -
  have ok: "\<not> prog_fails p 0" using assms(1) compute_length_fails by fastforce
  then have "n = of_nat (length (prog_output p 0))" using assms(1) compute_length_eq by simp
  then have n: "unat n = length (prog_output p 0)"
    using unat_output_length [OF assms(2)] by simp
  show ?thesis
  proof (cases "unat n \<le> length buf")
    case True
    then show ?thesis
      using serialize_fits [OF ok _ assms(3)] n by simp
  next
    case False
    then show ?thesis
      using slice_serialize_overflow [of "slice_writer_new buf" p] assms(2,3) n
      by (auto simp: serialize_to_buf_def slice_writer_new_def split: prod.splits)
  qed
qed

text \<open>A serialiser that writes a length byte, pads to four bytes and writes a payload.\<close>

definition sample_prog :: ser_prog where
  "sample_prog = SWrite [2] (SPos (\<lambda>pos. SWrite (replicate (unat ((4 - pos mod 4) mod 4)) 0) (SWrite [7, 9] SDone)))"

theorem serialize_exact_witness:
  "compute_length sample_prog = Inr 6 \<and>
   serialize_to_buf sample_prog [1, 1, 1, 1, 1, 1, 1] = (Inr (), [2, 0, 0, 0, 7, 9, 1])"
proof -
  have len: "compute_length sample_prog = Inr 6" by code_simp
  have "prog_output sample_prog 0 = [2, 0, 0, 0, 7, 9]" by code_simp
  with serialize_exact [OF len, of "[1, 1, 1, 1, 1, 1, 1]"] len show ?thesis
    by (simp add: SLICE_MAX_def)
qed

end
