(* ===== verification/Agent_State.thy ===== *)
theory Agent_State
  imports Protocol Mpsc_Ring
begin

text \<open>
  \<^verbatim>\<open>agent/src/agent_state.rs\<close> and the process id of \<^verbatim>\<open>agent/src/lib.rs\<close>: the agent's clients and
  the session that one of them may start. What the handlers read from outside is the record
  \<open>env\<close>: the clock, the validity of descriptors, the operating system under the ring buffer,
  the random number, the executable's name and the registered extension's answer. What they
  change outside is the record \<open>world\<close>: the process id, the address space and a log of the
  effects on the extension and on the ring. The iteration order of the client map is the
  argument \<open>order\<close> of \<open>timer\<close>.
\<close>

type_synonym client_id = u64

datatype io_error = OsError errno | TimedOut string | WouldBlock string | OtherIo string

datatype agent_error =
    AgentIo io_error
  | AgentNix errno
  | AgentMpscbuf mpsc_buf_error
  | AgentArchive rkyv_error
  | AgentNotEnabled
  | AgentOther string

datatype action = SendMessage client_id control_message | DeleteEpoll client_id

datatype client_state = Pending | Started

record agent_client_state =
  state :: client_state
  timestamp_ns :: u64

datatype message_result = RContinue | RStarted | RDisconnect | RError agent_error

datatype effect = SubmitEvent event | ExtStart tracing_args | ExtStop

record agent_state =
  clients :: "client_id \<Rightarrow> agent_client_state option"
  started_client :: "client_id option"
  next_client_id :: client_id
  another_started :: bool
  timeout_ns :: u64
  has_extension :: bool
  extension_active :: bool

record env =
  env_os :: os
  fd_valid :: "int \<Rightarrow> bool"
  random_i32 :: i32
  std_process_id :: i32
  exe_file_name :: "string option option"
  ext_start :: "tracing_args \<Rightarrow> string + unit"

record world =
  process_id :: i32
  aspace :: aspace
  effects :: "effect list"

definition CLIENT_TIMEOUT_NS :: u64 where "CLIENT_TIMEOUT_NS = 2000000000"
definition RANDOM_PROCESS_ID_OPTION :: string where "RANDOM_PROCESS_ID_OPTION = ''random_process_id''"

definition log_effect :: "effect \<Rightarrow> world \<Rightarrow> world" where
  "log_effect e w = w\<lparr>effects := effects w @ [e]\<rparr>"

definition get_process_id :: "world \<Rightarrow> i32" where
  "get_process_id w = process_id w"

definition set_process_id :: "i32 \<Rightarrow> world \<Rightarrow> world" where
  "set_process_id i w = w\<lparr>process_id := i\<rparr>"

definition reset_process_id :: "env \<Rightarrow> world \<Rightarrow> world" where
  "reset_process_id env w = w\<lparr>process_id := std_process_id env\<rparr>"

definition i32_abs :: "i32 \<Rightarrow> i32" where
  "i32_abs x = (if sint x < 0 then - x else x)"

section \<open>Operations\<close>

definition validate_and_convert_fd :: "env \<Rightarrow> int \<Rightarrow> fd option" where
  "validate_and_convert_fd env raw_fd =
     (if raw_fd < 0 then None
      else if fd_valid env raw_fd then Some (nat raw_fd) else None)"

definition agent_client_state_new :: "u64 \<Rightarrow> agent_client_state" where
  "agent_client_state_new now = \<lparr>state = Pending, timestamp_ns = now\<rparr>"

definition client_timer :: "u64 \<Rightarrow> u64 \<Rightarrow> agent_client_state \<Rightarrow> bool" where
  "client_timer now timeout c = (let elapsed = saturating_sub now (timestamp_ns c) in elapsed \<le> timeout)"

definition agent_state_new :: "u16 \<Rightarrow> bool \<Rightarrow> agent_state" where
  "agent_state_new timeout_ms ext =
     \<lparr>clients = Map.empty, started_client = None, next_client_id = 1, another_started = False,
      timeout_ns = ucast timeout_ms * 1000000, has_extension = ext, extension_active = False\<rparr>"

definition remove_client :: "client_id \<Rightarrow> agent_state \<Rightarrow> agent_state" where
  "remove_client token s = s\<lparr>clients := (clients s)(token := None)\<rparr>"

definition get_next_client_id :: "agent_state \<Rightarrow> client_id \<times> agent_state" where
  "get_next_client_id s = (let i = next_client_id s in (i, s\<lparr>next_client_id := next_client_id s + 1\<rparr>))"

definition timeout_ms :: "agent_state \<Rightarrow> u16" where
  "timeout_ms s = ucast (timeout_ns s div 1000000)"

definition register_client :: "u64 \<Rightarrow> client_id \<Rightarrow> agent_state \<Rightarrow> agent_state" where
  "register_client now cid s = s\<lparr>clients := (clients s)(cid \<mapsto> agent_client_state_new now)\<rparr>"

text \<open>Stopping the extension, common to disconnects and timeouts; its result is only logged.\<close>

definition stop_extension :: "agent_state \<Rightarrow> world \<Rightarrow> agent_state \<times> world" where
  "stop_extension s w =
     (if extension_active s \<and> has_extension s
      then (s\<lparr>extension_active := False\<rparr>, log_effect ExtStop w) else (s, w))"

definition handle_disconnect ::
  "client_id \<Rightarrow> agent_state \<Rightarrow> world \<Rightarrow> action list \<Rightarrow> agent_state \<times> world \<times> action list" where
  "handle_disconnect cid s w acts =
     (let (s1, w1) =
        (if started_client s = Some cid
         then (case stop_extension s w of
                 (s', w') \<Rightarrow> (s'\<lparr>another_started := False, started_client := None\<rparr>, w'))
         else (s, w))
      in (s1, w1, acts @ [DeleteEpoll cid]))"

definition choose_process_id :: "env \<Rightarrow> args \<Rightarrow> world \<Rightarrow> world" where
  "choose_process_id env a w =
     (case map_of (options a) RANDOM_PROCESS_ID_OPTION of
        Some (VBool use_random) \<Rightarrow>
          if use_random then set_process_id (i32_abs (random_i32 env)) w else reset_process_id env w
      | None \<Rightarrow> reset_process_id env w
      | _ \<Rightarrow> w)"

definition submit_process_name :: "env \<Rightarrow> world \<Rightarrow> world" where
  "submit_process_name env w =
     (case exe_file_name env of
        None \<Rightarrow> w
      | Some file_name \<Rightarrow>
          log_effect (SubmitEvent (ETrack
            \<lparr>trk_name = (case file_name of Some n \<Rightarrow> n | None \<Rightarrow> ''unknown''),
             trk_type = TyProcess (get_process_id w), trk_parent = None\<rparr>)) w)"

text \<open>The \<open>Start\<close> branch of \<open>handle_message\<close>. A \<open>None\<close> result is an early return: the
  reply is already queued and nothing follows.\<close>

definition handle_start ::
  "env \<Rightarrow> client_id \<Rightarrow> u64 \<Rightarrow> args \<Rightarrow> int list \<Rightarrow> agent_state \<Rightarrow> world \<Rightarrow> action list
   \<Rightarrow> message_result option \<times> agent_state \<times> world \<times> action list" where
  "handle_start env cid buffer_size a raw_fds s w acts =
     (let nack = (\<lambda>e. acts @ [SendMessage cid (Nack e)]) in
      if another_started s then (None, s, w, nack ''another client already started'')
      else if tracing a = None then (None, s, w, nack ''at least one arg must be non-empty'')
      else if length raw_fds < 2 then (None, s, w, nack ''missing file descriptors'')
      else (case validate_and_convert_fd env (raw_fds ! 0) of
              None \<Rightarrow> (None, s, w, nack ''invalid file descriptors'')
            | Some memory_fd \<Rightarrow>
        (case validate_and_convert_fd env (raw_fds ! 1) of
              None \<Rightarrow> (None, s, w, nack ''invalid file descriptors'')
            | Some notification_fd \<Rightarrow>
        (case producer_new (env_os env) (aspace w) memory_fd notification_fd buffer_size NoWakeup of
              (Inl e, as) \<Rightarrow> (Some (RError (AgentMpscbuf e)), s, w\<lparr>aspace := as\<rparr>, acts)
            | (Inr p, as) \<Rightarrow>
        (let w1 = submit_process_name env (choose_process_id env a (w\<lparr>aspace := as\<rparr>)) in
         if has_extension s
         then (case ext_start env (the (tracing a)) of
                 Inr _ \<Rightarrow> (Some RStarted, s\<lparr>extension_active := True\<rparr>,
                          log_effect (ExtStart (the (tracing a))) w1, acts @ [SendMessage cid Ack])
               | Inl e \<Rightarrow> (None, s, log_effect (ExtStart (the (tracing a))) w1,
                          acts @ [SendMessage cid (Nack e)]))
         else (Some RStarted, s, w1, acts @ [SendMessage cid Ack]))))))"

definition dispatch_message ::
  "env \<Rightarrow> u64 \<Rightarrow> client_id \<Rightarrow> agent_client_state \<Rightarrow> control_message \<Rightarrow> int list \<Rightarrow> agent_state \<Rightarrow> world
   \<Rightarrow> action list \<Rightarrow> message_result option \<times> agent_state \<times> world \<times> action list" where
  "dispatch_message env now cid client msg raw_fds s w acts =
     (case state client of
        Pending \<Rightarrow>
          (case msg of
             Start buffer_size a \<Rightarrow> handle_start env cid buffer_size a raw_fds s w acts
           | _ \<Rightarrow> (Some RContinue, s, w, acts))
      | Started \<Rightarrow>
          (case msg of
             Stop \<Rightarrow> (Some RDisconnect, s, w, acts @ [SendMessage cid Ack])
           | Continue \<Rightarrow>
               (Some RContinue, s\<lparr>clients := (clients s)(cid \<mapsto> client\<lparr>timestamp_ns := now\<rparr>)\<rparr>, w,
                acts @ [SendMessage cid Ack])
           | _ \<Rightarrow> (Some RContinue, s, w, acts)))"

definition handle_message ::
  "env \<Rightarrow> u64 \<Rightarrow> client_id \<Rightarrow> control_message \<Rightarrow> int list \<Rightarrow> agent_state \<Rightarrow> world \<Rightarrow> action list
   \<Rightarrow> agent_state \<times> world \<times> action list" where
  "handle_message env now cid msg raw_fds s w acts =
     (if msg = Version then (s, w, acts @ [SendMessage cid (VersionResponse VERSION)])
      else (case clients s cid of
              None \<Rightarrow> (s, w, acts)
            | Some client \<Rightarrow>
                (case dispatch_message env now cid client msg raw_fds s w acts of
                   (None, s1, w1, acts1) \<Rightarrow> (s1, w1, acts1)
                 | (Some RContinue, s1, w1, acts1) \<Rightarrow> (s1, w1, acts1)
                 | (Some RStarted, s1, w1, acts1) \<Rightarrow>
                     (s1\<lparr>another_started := True, started_client := Some cid,
                         clients := (clients s1)(cid \<mapsto> \<lparr>state = Started, timestamp_ns = now\<rparr>)\<rparr>, w1, acts1)
                 | (Some RDisconnect, s1, w1, acts1) \<Rightarrow> handle_disconnect cid s1 w1 acts1
                 | (Some (RError e), s1, w1, acts1) \<Rightarrow> handle_disconnect cid s1 w1 acts1)))"

text \<open>The periodic check. \<open>None\<close> is the panic of \<open>unwrap\<close> on a started client that is not
  registered. \<open>now\<close> gives the clock reading made for each client.\<close>

definition expired :: "(client_id \<Rightarrow> u64) \<Rightarrow> agent_state \<Rightarrow> client_id \<Rightarrow> bool" where
  "expired now s cid =
     (case clients s cid of None \<Rightarrow> False | Some c \<Rightarrow> \<not> client_timer (now cid) (timeout_ns s) c)"

definition timer ::
  "(client_id \<Rightarrow> u64) \<Rightarrow> client_id list \<Rightarrow> agent_state \<Rightarrow> world \<Rightarrow> action list
   \<Rightarrow> (agent_state \<times> world \<times> action list) option" where
  "timer now order s w acts =
     (let acts1 = acts @ map DeleteEpoll
            (filter (\<lambda>cid. Some cid \<noteq> started_client s \<and> expired now s cid) order)
      in case started_client s of
           None \<Rightarrow> Some (s, w, acts1)
         | Some cid \<Rightarrow>
             (case clients s cid of
                None \<Rightarrow> None
              | Some c \<Rightarrow>
                  if client_timer (now cid) (timeout_ns s) c then Some (s, w, acts1)
                  else (case stop_extension s w of
                          (s1, w1) \<Rightarrow> Some (s1\<lparr>started_client := None, another_started := False\<rparr>, w1,
                                           acts1 @ [DeleteEpoll cid]))))"

section \<open>The session invariant\<close>

text \<open>
  \<open>sess_ok ids s\<close>: the state is consistent up to the clients in \<open>ids\<close>, whose removal is
  queued. The started client is registered, in state \<open>Started\<close>, and the only one;
  \<open>another_started\<close> mirrors it; the extension is active only during a session; identifiers
  are handed out in increasing order from 1.
\<close>

definition sess_ok :: "client_id set \<Rightarrow> agent_state \<Rightarrow> bool" where
  "sess_ok ids s \<longleftrightarrow>
     (\<forall>c. started_client s = Some c \<longrightarrow>
        c \<notin> ids \<and> (\<exists>cl. clients s c = Some cl \<and> state cl = Started)) \<and>
     (\<forall>c cl. clients s c = Some cl \<and> state cl = Started \<longrightarrow> started_client s = Some c \<or> c \<in> ids) \<and>
     (another_started s \<longleftrightarrow> started_client s \<noteq> None) \<and>
     (extension_active s \<longrightarrow> started_client s \<noteq> None \<and> has_extension s) \<and>
     (\<forall>c. clients s c \<noteq> None \<longrightarrow> c \<noteq> 0 \<and> c < next_client_id s)"

fun tokens :: "action list \<Rightarrow> client_id list" where
  "tokens [] = []"
| "tokens (DeleteEpoll c # acts) = c # tokens acts"
| "tokens (SendMessage c m # acts) = tokens acts"

lemma tokens_append [simp]: "tokens (xs @ ys) = tokens xs @ tokens ys"
  by (induction xs rule: tokens.induct) auto

lemma tokens_map_delete [simp]: "tokens (map DeleteEpoll cs) = cs"
  by (induction cs) auto

lemma sess_okI:
  assumes "\<And>c. started_client s = Some c \<Longrightarrow> c \<notin> ids \<and> (\<exists>cl. clients s c = Some cl \<and> state cl = Started)"
    and "\<And>c cl. \<lbrakk>clients s c = Some cl; state cl = Started\<rbrakk> \<Longrightarrow> started_client s = Some c \<or> c \<in> ids"
    and "another_started s \<longleftrightarrow> started_client s \<noteq> None"
    and "extension_active s \<Longrightarrow> started_client s \<noteq> None \<and> has_extension s"
    and "\<And>c. clients s c \<noteq> None \<Longrightarrow> c \<noteq> 0 \<and> c < next_client_id s"
  shows "sess_ok ids s"
  using assms unfolding sess_ok_def by blast

lemma sess_okD:
  assumes "sess_ok ids s"
  shows "started_client s = Some c \<Longrightarrow> c \<notin> ids \<and> (\<exists>cl. clients s c = Some cl \<and> state cl = Started)"
    and "clients s c = Some cl \<Longrightarrow> state cl = Started \<Longrightarrow> started_client s = Some c \<or> c \<in> ids"
    and "another_started s \<longleftrightarrow> started_client s \<noteq> None"
    and "extension_active s \<Longrightarrow> started_client s \<noteq> None \<and> has_extension s"
    and "clients s c \<noteq> None \<Longrightarrow> c \<noteq> 0 \<and> c < next_client_id s"
  using assms unfolding sess_ok_def by blast+

lemma sess_ok_cong:
  assumes "sess_ok ids s" "clients s' = clients s" "started_client s' = started_client s"
    "another_started s' = another_started s" "next_client_id s' = next_client_id s"
    "has_extension s' = has_extension s" "extension_active s' \<longrightarrow> extension_active s"
  shows "sess_ok ids s'"
  using assms unfolding sess_ok_def by metis

lemma sess_ok_touch:
  assumes "sess_ok ids s" "clients s c = Some cl" "state cl' = state cl"
  shows "sess_ok ids (s\<lparr>clients := (clients s)(c \<mapsto> cl')\<rparr>)"
proof (rule sess_okI, goal_cases)
  case (1 d)
  then show ?case using sess_okD(1) [OF assms(1), of d] assms(2,3) by (cases "d = c") auto
next
  case (2 d dl)
  then show ?case using sess_okD(2) [OF assms(1), of d] assms(2,3) by (cases "d = c") auto
next
  case 3
  then show ?case using sess_okD(3) [OF assms(1)] by simp
next
  case 4
  then show ?case using sess_okD(4) [OF assms(1)] by simp
next
  case (5 d)
  then show ?case using sess_okD(5) [OF assms(1), of d] assms(2) by (cases "d = c") auto
qed

lemma sess_ok_new: "sess_ok {} (agent_state_new t e)"
  by (simp add: sess_ok_def agent_state_new_def)

lemma stop_extension_fields:
  assumes "stop_extension s w = (s', w')"
  shows "clients s' = clients s" "started_client s' = started_client s" "timeout_ns s' = timeout_ns s"
    "another_started s' = another_started s" "next_client_id s' = next_client_id s"
    "has_extension s' = has_extension s" "extension_active s' \<longrightarrow> extension_active s \<and> \<not> has_extension s"
  using assms by (auto simp: stop_extension_def split: if_splits)

lemma handle_disconnect_ok:
  assumes "sess_ok ids s" and "handle_disconnect cid s w acts = (s', w', acts')"
  shows "sess_ok (insert cid ids) s'" and "tokens acts' = tokens acts @ [cid]"
    and "clients s' = clients s" and "started_client s' \<noteq> Some cid"
proof -
  show "tokens acts' = tokens acts @ [cid]"
    using assms(2) by (auto simp: handle_disconnect_def Let_def split: prod.splits)
  show cl: "clients s' = clients s" and "started_client s' \<noteq> Some cid"
    using assms(2) stop_extension_fields(1) [of s w]
    by (auto simp: handle_disconnect_def Let_def split: prod.splits if_splits)
  show "sess_ok (insert cid ids) s'"
  proof (cases "started_client s = Some cid")
    case True
    obtain s1 w1 where st: "stop_extension s w = (s1, w1)" by force
    then have "s' = s1\<lparr>another_started := False, started_client := None\<rparr>"
      using assms(2) True by (simp add: handle_disconnect_def)
    then show ?thesis
      using assms(1) True stop_extension_fields [OF st] by (auto simp: sess_ok_def)
  next
    case False
    then have "s' = s" using assms(2) by (simp add: handle_disconnect_def)
    then show ?thesis using assms(1) False by (auto simp: sess_ok_def)
  qed
qed

lemma handle_start_result:
  assumes "handle_start env cid n a fds s w acts = (res, s', w', acts')"
  shows "clients s' = clients s" "started_client s' = started_client s" "another_started s' = another_started s"
    "next_client_id s' = next_client_id s" "has_extension s' = has_extension s" "timeout_ns s' = timeout_ns s"
    "tokens acts' = tokens acts"
    "extension_active s' \<longrightarrow> extension_active s \<or> res = Some RStarted \<and> has_extension s"
    "res = Some RStarted \<longrightarrow> \<not> another_started s \<and> acts' = acts @ [SendMessage cid Ack]"
    "res = None \<or> res = Some RStarted \<or> (\<exists>e. res = Some (RError e))"
  using assms
  by (auto simp: handle_start_def Let_def split: if_splits option.splits prod.splits sum.splits)

lemma start_session_ok:
  assumes "sess_ok {} s" "clients s cid \<noteq> None" "\<not> another_started s"
    and "clients s1 = clients s" "next_client_id s1 = next_client_id s"
    and "extension_active s1 \<longrightarrow> has_extension s1"
  shows "sess_ok {} (s1\<lparr>another_started := True, started_client := Some cid,
           clients := (clients s1)(cid \<mapsto> \<lparr>state = Started, timestamp_ns = now\<rparr>)\<rparr>)"
  using assms by (auto simp: sess_ok_def)

lemma dispatch_started:
  assumes "dispatch_message env now cid cl msg fds s w acts = (Some RStarted, s', w', acts')"
  obtains n a where "state cl = Pending" "msg = Start n a"
    "handle_start env cid n a fds s w acts = (Some RStarted, s', w', acts')"
  using assms by (auto simp: dispatch_message_def split: client_state.splits control_message.splits)

lemma dispatch_cases:
  assumes "dispatch_message env now cid cl msg fds s w acts = (res, s', w', acts')"
  obtains (Start) n a where "state cl = Pending" "msg = Start n a"
      "handle_start env cid n a fds s w acts = (res, s', w', acts')"
  | (Stop) "state cl = Started" "msg = Stop" "res = Some RDisconnect" "s' = s" "w' = w"
      "acts' = acts @ [SendMessage cid Ack]"
  | (Continue) "state cl = Started" "msg = Continue" "res = Some RContinue" "w' = w"
      "s' = s\<lparr>clients := (clients s)(cid \<mapsto> cl\<lparr>timestamp_ns := now\<rparr>)\<rparr>" "acts' = acts @ [SendMessage cid Ack]"
  | (Ignored) "res = Some RContinue" "s' = s" "w' = w" "acts' = acts"
  using assms by (cases "state cl"; cases msg) (auto simp: dispatch_message_def)

lemma dispatch_ok:
  assumes ok: "sess_ok {} s" and cl: "clients s cid = Some cl"
    and d: "dispatch_message env now cid cl msg fds s w [] = (res, s', w', acts')" and "res \<noteq> Some RStarted"
  shows "sess_ok {} s' \<and> tokens acts' = []"
  using d
proof (cases rule: dispatch_cases)
  case (Start n a)
  note r = handle_start_result [OF Start(3)]
  have "extension_active s' \<longrightarrow> extension_active s" using r(8) assms(4) by blast
  with r(7) sess_ok_cong [OF ok r(1-5)] show ?thesis by simp
next
  case Continue
  have "sess_ok {} (s\<lparr>clients := (clients s)(cid \<mapsto> cl\<lparr>timestamp_ns := now\<rparr>)\<rparr>)"
    by (rule sess_ok_touch [OF ok cl]) simp
  with Continue show ?thesis by simp
qed (use ok in simp_all)

lemma handle_message_ok:
  assumes ok: "sess_ok {} s" and hm: "handle_message env now cid msg fds s w [] = (s', w', acts')"
  shows "sess_ok (set (tokens acts')) s'"
proof (cases "msg = Version \<or> clients s cid = None")
  case True
  with ok hm show ?thesis by (auto simp: handle_message_def split: if_splits)
next
  case False
  then obtain cl where cl: "clients s cid = Some cl" and v: "msg \<noteq> Version" by auto
  obtain res s1 w1 acts1 where d: "dispatch_message env now cid cl msg fds s w [] = (res, s1, w1, acts1)"
    using prod_cases4 by blast
  have disc: "sess_ok (set (tokens acts')) s'"
    if "handle_disconnect cid s1 w1 acts1 = (s', w', acts')" "sess_ok {} s1" "tokens acts1 = []"
    using handle_disconnect_ok(1,2) [OF that(2,1)] that(3) by simp
  show ?thesis
  proof (cases "res = Some RStarted")
    case True
    from dispatch_started [OF d [unfolded True]] obtain n a where
      h: "handle_start env cid n a fds s w [] = (Some RStarted, s1, w1, acts1)" by blast
    note r = handle_start_result [OF h]
    have "extension_active s1 \<longrightarrow> has_extension s1" using r(5,8) sess_okD(4) [OF ok] by auto
    then have "sess_ok {} (s1\<lparr>another_started := True, started_client := Some cid,
           clients := (clients s1)(cid \<mapsto> \<lparr>state = Started, timestamp_ns = now\<rparr>)\<rparr>)"
      using cl r(9) by (intro start_session_ok [OF ok _ _ r(1,4)]) auto
    then have "sess_ok {} s'" using hm v cl d True by (simp add: handle_message_def)
    moreover have "tokens acts' = []" using hm v cl d True r(7) by (simp add: handle_message_def)
    ultimately show ?thesis by simp
  next
    case False
    have inv: "sess_ok {} s1" "tokens acts1 = []" using dispatch_ok [OF ok cl d False] by simp_all
    have "res = None \<or> res = Some RContinue \<or> res = Some RDisconnect \<or> (\<exists>e. res = Some (RError e))"
      using False by (metis message_result.exhaust not_Some_eq)
    then show ?thesis
      using hm v cl d inv disc [OF _ inv] by (elim disjE exE) (simp_all add: handle_message_def)
  qed
qed

lemma register_client_ok:
  assumes ok: "sess_ok {} s" and i: "get_next_client_id s = (cid, s1)" and room: "next_client_id s + 1 \<noteq> 0"
    and nz: "next_client_id s \<noteq> 0"
  shows "sess_ok {} (register_client now cid s1)" "next_client_id (register_client now cid s1) \<noteq> 0"
    "cid \<noteq> 0" "clients s cid = None"
proof -
  have s1: "cid = next_client_id s" "s1 = s\<lparr>next_client_id := next_client_id s + 1\<rparr>"
    using i by (auto simp: get_next_client_id_def Let_def)
  have "unat (1 + next_client_id s) = Suc (unat (next_client_id s))"
    using room by (intro unatSuc) (simp add: add.commute)
  then have lt: "next_client_id s < next_client_id s + 1"
    by (simp add: word_less_nat_alt add.commute)
  show "clients s cid = None" using sess_okD(5) [OF ok, of cid] s1 by (cases "clients s cid") auto
  have old: "c \<noteq> 0 \<and> c < next_client_id s + 1" if "clients s c \<noteq> None" for c
    using sess_okD(5) [OF ok that] lt less_trans by blast
  show "sess_ok {} (register_client now cid s1)"
    using ok old lt nz s1 \<open>clients s cid = None\<close>
    by (intro sess_okI) (auto simp: register_client_def agent_client_state_new_def
        split: if_splits dest: sess_okD(1,2) [OF ok] simp: sess_okD(3) [OF ok] dest: sess_okD(4) [OF ok])
  show "next_client_id (register_client now cid s1) \<noteq> 0" "cid \<noteq> 0"
    using room nz s1 by (simp_all add: register_client_def)
qed

lemma timer_ok:
  assumes ok: "sess_ok {} s" and order: "set order = dom (clients s)"
  obtains s' w' acts' where "timer now order s w [] = Some (s', w', acts')"
    "sess_ok (set (tokens acts')) s'" "clients s' = clients s" "timeout_ns s' = timeout_ns s"
    "next_client_id s' = next_client_id s" "set (tokens acts') = {c. expired now s c}"
proof -
  let ?pend = "filter (\<lambda>cid. Some cid \<noteq> started_client s \<and> expired now s cid) order"
  have dom: "expired now s c \<Longrightarrow> c \<in> set order" for c
    by (auto simp: expired_def order split: option.splits)
  show ?thesis
  proof (cases "started_client s")
    case None
    then have "timer now order s w [] = Some (s, w, map DeleteEpoll ?pend)" by (simp add: timer_def)
    moreover have "set ?pend = {c. expired now s c}" using dom None by auto
    moreover have "sess_ok {c. expired now s c} s"
      using ok None unfolding sess_ok_def by auto
    ultimately show ?thesis using that by simp
  next
    case (Some cid)
    with sess_okD(1) [OF ok] obtain cl where cl: "clients s cid = Some cl" by blast
    show ?thesis
    proof (cases "client_timer (now cid) (timeout_ns s) cl")
      case True
      have "timer now order s w [] = Some (s, w, map DeleteEpoll ?pend)"
        using Some cl True by (simp add: timer_def)
      moreover have "set ?pend = {c. expired now s c}" using dom Some cl True by (auto simp: expired_def)
      moreover have "sess_ok {c. expired now s c} s"
        using ok Some cl True unfolding sess_ok_def by (auto simp: expired_def)
      ultimately show ?thesis using that by simp
    next
      case False
      obtain s1 w1 where st: "stop_extension s w = (s1, w1)" by force
      note f = stop_extension_fields [OF st]
      let ?s = "s1\<lparr>started_client := None, another_started := False\<rparr>"
      have "timer now order s w [] = Some (?s, w1, map DeleteEpoll ?pend @ [DeleteEpoll cid])"
        using Some cl False st by (simp add: timer_def)
      moreover have toks: "set (tokens (map DeleteEpoll ?pend @ [DeleteEpoll cid])) = {c. expired now s c}"
        using dom Some cl False by (auto simp: expired_def)
      moreover have "sess_ok {c. expired now s c} ?s"
        using ok Some cl False f unfolding sess_ok_def by (auto simp: expired_def)
      ultimately show ?thesis using that f by simp
    qed
  qed
qed

lemma remove_clients_fields:
  "clients (fold remove_client ids s) = (\<lambda>c. if c \<in> set ids then None else clients s c)"
  "started_client (fold remove_client ids s) = started_client s"
  "another_started (fold remove_client ids s) = another_started s"
  "next_client_id (fold remove_client ids s) = next_client_id s"
  "has_extension (fold remove_client ids s) = has_extension s"
  "extension_active (fold remove_client ids s) = extension_active s"
  "timeout_ns (fold remove_client ids s) = timeout_ns s"
  by (induction ids arbitrary: s) (auto simp: remove_client_def)

lemma remove_clients_ok: "sess_ok (set ids) s \<Longrightarrow> sess_ok {} (fold remove_client ids s)"
  unfolding sess_ok_def remove_clients_fields by (auto split: if_splits)

section \<open>Properties of the handlers\<close>

text \<open>
  A session is exclusive. While one client has started, a \<open>Start\<close> from any registered
  pending client is answered by exactly one \<open>Nack\<close> and changes neither the agent's state
  nor anything outside it.
\<close>

theorem start_is_exclusive:
  assumes "sess_ok {} s" and "started_client s = Some c" and "clients s cid = Some cl" and "cid \<noteq> c"
  shows "handle_message env now cid (Start n a) fds s w acts =
         (s, w, acts @ [SendMessage cid (Nack ''another client already started'')])"
proof -
  have "another_started s" using sess_okD(3) [OF assms(1)] assms(2) by simp
  moreover have "state cl = Pending"
    using sess_okD(2) [OF assms(1,3)] assms(2,4) by (cases "state cl") auto
  ultimately show ?thesis
    using assms(3) by (simp add: handle_message_def dispatch_message_def handle_start_def)
qed

definition sample_env :: env where
  "sample_env = \<lparr>env_os = linux_os, fd_valid = (\<lambda>fd. fd < 10), random_i32 = 77, std_process_id = 42,
     exe_file_name = Some (Some ''app''), ext_start = (\<lambda>_. Inr ())\<rparr>"

definition sample_args :: args where
  "sample_args = \<lparr>tracing = Some \<lparr>log_filter = ''debug'', timestamp_type_of = Boottime\<rparr>, options = []\<rparr>"

definition sample_world :: world where
  "sample_world = \<lparr>process_id = 0, aspace = Map.empty, effects = []\<rparr>"

definition sample_agent :: agent_state where
  "sample_agent = (agent_state_new 2000 True)\<lparr>clients := [1 \<mapsto> \<lparr>state = Started, timestamp_ns = 5\<rparr>,
     2 \<mapsto> \<lparr>state = Pending, timestamp_ns = 9\<rparr>], started_client := Some 1, another_started := True,
     extension_active := True, next_client_id := 3\<rparr>"

lemma sample_agent_ok: "sess_ok {} sample_agent"
  by (rule sess_okI) (auto simp: sample_agent_def agent_state_new_def split: if_splits)

theorem start_is_exclusive_witness:
  "handle_message sample_env 10 2 (Start 4096 sample_args) [3, 4] sample_agent sample_world [] =
     (sample_agent, sample_world, [SendMessage 2 (Nack ''another client already started'')])"
  using start_is_exclusive [OF sample_agent_ok, of 1 2] by (simp add: sample_agent_def)

text \<open>
  The periodic check never panics, and queues for removal exactly the registered clients
  whose last activity is more than the timeout ago; when the started client is among them
  the session ends.
\<close>

theorem timer_outcome:
  assumes "sess_ok {} s" and "set order = dom (clients s)"
  shows "\<exists>s' w' acts'. timer now order s w [] = Some (s', w', acts') \<and>
    set (tokens acts') =
      {c. \<exists>cl. clients s c = Some cl \<and> timeout_ns s < saturating_sub (now c) (timestamp_ns cl)} \<and>
    sess_ok {} (fold remove_client (tokens acts') s')"
proof -
  have exp: "{c. expired now s c} =
      {c. \<exists>cl. clients s c = Some cl \<and> timeout_ns s < saturating_sub (now c) (timestamp_ns cl)}"
    by (auto simp: expired_def client_timer_def Let_def not_le split: option.splits)
  show ?thesis
    by (rule timer_ok [OF assms, of now w]) (use exp remove_clients_ok in auto)
qed

theorem timer_outcome_witness:
  "\<exists>s' w' acts'. timer (\<lambda>_. 2000000007) [2, 1] sample_agent sample_world [] = Some (s', w', acts') \<and>
     set (tokens acts') = {1}"
proof -
  have ord: "set [2, 1] = dom (clients sample_agent)"
    by (auto simp: sample_agent_def)
  have "timeout_ns sample_agent = 2000000000" by (simp add: sample_agent_def agent_state_new_def)
  then have "{c. \<exists>cl. clients sample_agent c = Some cl \<and>
      timeout_ns sample_agent < saturating_sub 2000000007 (timestamp_ns cl)} = {1}"
    by (auto simp: sample_agent_def saturating_sub_def split: if_splits)
  with timer_outcome [OF sample_agent_ok ord, of "\<lambda>_. 2000000007" sample_world] show ?thesis by auto
qed

definition start_accepted :: "env \<Rightarrow> u64 \<Rightarrow> args \<Rightarrow> int list \<Rightarrow> agent_state \<Rightarrow> world \<Rightarrow> bool" where
  "start_accepted env n a fds s w \<longleftrightarrow>
     \<not> another_started s \<and> tracing a \<noteq> None \<and> 2 \<le> length fds \<and>
     (case (validate_and_convert_fd env (fds ! 0), validate_and_convert_fd env (fds ! 1)) of
        (Some m, Some k) \<Rightarrow> \<not> isl (fst (producer_new (env_os env) (aspace w) m k n NoWakeup))
      | _ \<Rightarrow> False) \<and>
     (has_extension s \<longrightarrow> \<not> isl (ext_start env (the (tracing a))))"

lemma handle_start_accepted:
  assumes "handle_start env cid n a fds s w acts = (res, s', w', acts')"
  shows "res = Some RStarted \<longleftrightarrow> start_accepted env n a fds s w"
    and "res = None \<Longrightarrow> \<exists>e. acts' = acts @ [SendMessage cid (Nack e)]"
    and "res = Some (RError e) \<Longrightarrow> acts' = acts \<and> \<not> another_started s"
    and "res \<noteq> Some RStarted \<Longrightarrow> s' = s"
  using assms
  by (auto simp: handle_start_def start_accepted_def Let_def split: if_splits option.splits prod.splits sum.splits)


definition idle_agent :: agent_state where
  "idle_agent = (agent_state_new 2000 True)\<lparr>clients := [1 \<mapsto> \<lparr>state = Pending, timestamp_ns = 5\<rparr>],
     next_client_id := 2\<rparr>"


end
