(* ===== verification/Agent_Epoll.thy ===== *)
theory Agent_Epoll
  imports Agent_State
begin

text \<open>
  \<^verbatim>\<open>agent/src/epoll_thread.rs\<close>: the agent's listener thread. One iteration of its loop handles
  a batch of epoll events, then runs the timer; after each handler the queued actions are
  carried out and the clients queued for removal are removed. The thread ends with an error
  when an operation followed by \<open>?\<close> fails, which is the left injection of the results here.
  The serialiser of control messages, the decoder, and the results of the system calls are
  parameters (record \<open>io\<close>).
\<close>

datatype recv_result = RecvMsg bytes "int list" | RecvAgain | RecvError errno

datatype accept_result = AcceptOk "errno option" | AcceptWouldBlock | AcceptError errno

datatype epoll_event = ListenerEvent accept_result | ClientEvent client_id bool recv_result

datatype thread_exit = ExitError agent_error | ExitPanic

record io =
  io_env :: env
  ser :: "control_message \<Rightarrow> ser_prog"
  access :: "bytes \<Rightarrow> control_message option"
  epoll_add :: "client_id \<Rightarrow> errno option"
  epoll_delete :: "client_id \<Rightarrow> errno option"

record loop_state =
  ag :: agent_state
  client_sockets :: "client_id \<Rightarrow> bool"
  wrld :: world
  sent :: "(client_id \<times> bytes) list"

definition LISTENER_TOKEN :: u64 where "LISTENER_TOKEN = 0"

fun process_actions ::
  "io \<Rightarrow> (client_id \<Rightarrow> bool) \<Rightarrow> action list \<Rightarrow> (client_id \<times> bytes) list
   \<Rightarrow> (agent_error + client_id list) \<times> (client_id \<times> bytes) list" where
  "process_actions io socks [] out = (Inr [], out)"
| "process_actions io socks (SendMessage cid m # acts) out =
     (if socks cid
      then (case compute_length (ser io m) of
              Inl e \<Rightarrow> (Inl (AgentArchive e), out)
            | Inr n \<Rightarrow>
                (case serialize_to_buf (ser io m) (replicate (unat n) 0) of
                   (Inl e, _) \<Rightarrow> (Inl (AgentArchive e), out)
                 | (Inr _, buf) \<Rightarrow> process_actions io socks acts (out @ [(cid, buf)])))
      else process_actions io socks acts out)"
| "process_actions io socks (DeleteEpoll cid # acts) out =
     (case process_actions io socks acts out of
        (Inl e, out') \<Rightarrow> (Inl e, out') | (Inr ids, out') \<Rightarrow> (Inr (cid # ids), out'))"

fun remove_tokens :: "io \<Rightarrow> client_id list \<Rightarrow> loop_state \<Rightarrow> thread_exit + loop_state" where
  "remove_tokens io [] st = Inr st"
| "remove_tokens io (token # ids) st =
     (let st1 = st\<lparr>ag := remove_client token (ag st)\<rparr> in
      if client_sockets st1 token
      then (case epoll_delete io token of
              Some e \<Rightarrow> Inl (ExitError (AgentNix e))
            | None \<Rightarrow> remove_tokens io ids (st1\<lparr>client_sockets := (client_sockets st1)(token := False)\<rparr>))
      else remove_tokens io ids st1)"

definition carry_out ::
  "io \<Rightarrow> agent_state \<times> world \<times> action list \<Rightarrow> loop_state \<Rightarrow> thread_exit + loop_state" where
  "carry_out io h st =
     (case h of (s, w, acts) \<Rightarrow>
        (case process_actions io (client_sockets st) acts (sent st) of
           (Inl e, out) \<Rightarrow> Inl (ExitError e)
         | (Inr ids, out) \<Rightarrow> remove_tokens io ids (st\<lparr>ag := s, wrld := w, sent := out\<rparr>)))"

definition handle_accept :: "io \<Rightarrow> u64 \<Rightarrow> accept_result \<Rightarrow> loop_state \<Rightarrow> thread_exit + loop_state" where
  "handle_accept io now res st =
     (case res of
        AcceptWouldBlock \<Rightarrow> Inr st
      | AcceptError e \<Rightarrow> Inr st
      | AcceptOk (Some e) \<Rightarrow> Inl (ExitError (AgentIo (OsError e)))
      | AcceptOk None \<Rightarrow>
          (case get_next_client_id (ag st) of (cid, s1) \<Rightarrow>
             (case epoll_add io cid of
                Some e \<Rightarrow> Inl (ExitError (AgentNix e))
              | None \<Rightarrow>
                  carry_out io (register_client now cid s1, wrld st, [])
                    (st\<lparr>client_sockets := (client_sockets st)(cid := True)\<rparr>))))"

definition handle_client ::
  "io \<Rightarrow> u64 \<Rightarrow> client_id \<Rightarrow> bool \<Rightarrow> recv_result \<Rightarrow> loop_state \<Rightarrow> thread_exit + loop_state" where
  "handle_client io now cid hup_or_err recv st =
     (if hup_or_err then carry_out io (handle_disconnect cid (ag st) (wrld st) []) st
      else if client_sockets st cid
      then (case recv of
              RecvMsg msg_buf raw_fds \<Rightarrow>
                (if msg_buf = [] then Inr st
                 else (case access io (take 1024 msg_buf) of
                         None \<Rightarrow> Inr st
                       | Some msg \<Rightarrow>
                           carry_out io (handle_message (io_env io) now cid msg raw_fds (ag st) (wrld st) []) st))
            | RecvAgain \<Rightarrow> Inr st
            | RecvError e \<Rightarrow> carry_out io (handle_disconnect cid (ag st) (wrld st) []) st)
      else Inr st)"

fun handle_event :: "io \<Rightarrow> u64 \<Rightarrow> epoll_event \<Rightarrow> loop_state \<Rightarrow> thread_exit + loop_state" where
  "handle_event io now (ListenerEvent res) st = handle_accept io now res st"
| "handle_event io now (ClientEvent cid hup recv) st =
     (if cid = LISTENER_TOKEN then Inr st else handle_client io now cid hup recv st)"

fun handle_events :: "io \<Rightarrow> (u64 \<times> epoll_event) list \<Rightarrow> loop_state \<Rightarrow> thread_exit + loop_state" where
  "handle_events io [] st = Inr st"
| "handle_events io ((now, ev) # evs) st =
     (case handle_event io now ev st of Inl e \<Rightarrow> Inl e | Inr st' \<Rightarrow> handle_events io evs st')"

definition run_timer ::
  "io \<Rightarrow> (client_id \<Rightarrow> u64) \<Rightarrow> client_id list \<Rightarrow> loop_state \<Rightarrow> thread_exit + loop_state" where
  "run_timer io now order st =
     (case timer now order (ag st) (wrld st) [] of
        None \<Rightarrow> Inl ExitPanic
      | Some h \<Rightarrow> carry_out io h st)"

text \<open>One pass of the loop after \<open>epoll.wait\<close> returned at most ten events; an error of
  \<open>epoll.wait\<close> ends the thread. The order in which the timer visits the clients is a function
  of the state, as it is of the hash map.\<close>

record batch =
  wait_result :: "errno option"
  batch_events :: "(u64 \<times> epoll_event) list"
  timer_now :: "client_id \<Rightarrow> u64"
  timer_order :: "agent_state \<Rightarrow> client_id list"

definition loop_iteration :: "io \<Rightarrow> batch \<Rightarrow> loop_state \<Rightarrow> thread_exit + loop_state" where
  "loop_iteration io b st =
     (case wait_result b of
        Some e \<Rightarrow> Inl (ExitError (AgentNix e))
      | None \<Rightarrow>
          (case handle_events io (take 10 (batch_events b)) st of
             Inl e \<Rightarrow> Inl e
           | Inr st1 \<Rightarrow> run_timer io (timer_now b) (timer_order b (ag st1)) st1))"

fun epoll_listener_thread :: "io \<Rightarrow> (bool \<times> batch) list \<Rightarrow> loop_state \<Rightarrow> thread_exit + loop_state" where
  "epoll_listener_thread io [] st = Inr st"
| "epoll_listener_thread io ((shutdown, b) # bs) st =
     (if shutdown then Inr st
      else (case loop_iteration io b st of
              Inl e \<Rightarrow> Inl e | Inr st' \<Rightarrow> epoll_listener_thread io bs st'))"

definition loop_init :: "u16 \<Rightarrow> bool \<Rightarrow> i32 \<Rightarrow> loop_state" where
  "loop_init t ext pid = \<lparr>ag = agent_state_new t ext, client_sockets = (\<lambda>_. False),
     wrld = \<lparr>process_id = pid, aspace = Map.empty, effects = []\<rparr>, sent = []\<rparr>"

section \<open>The loop invariant\<close>

definition loop_inv :: "loop_state \<Rightarrow> bool" where
  "loop_inv st \<longleftrightarrow> sess_ok {} (ag st) \<and> next_client_id (ag st) \<noteq> 0 \<and>
     (\<forall>c. client_sockets st c \<longleftrightarrow> clients (ag st) c \<noteq> None)"

lemma process_actions_tokens:
  "process_actions io socks acts out = (Inr ids, out') \<Longrightarrow> ids = tokens acts"
  by (induction io socks acts out arbitrary: ids out' rule: process_actions.induct)
    (auto split: if_splits sum.splits prod.splits)

lemma remove_tokens_Inr:
  "remove_tokens io ids st = Inr st' \<Longrightarrow>
     ag st' = fold remove_client ids (ag st) \<and> wrld st' = wrld st \<and> sent st' = sent st \<and>
     client_sockets st' = (\<lambda>c. client_sockets st c \<and> c \<notin> set ids)"
  by (induction io ids st rule: remove_tokens.induct)
    (fastforce simp: Let_def fun_eq_iff split: if_splits option.splits)+

lemma carry_out_ok:
  assumes "carry_out io (s, w, acts) st = Inr st'" and "sess_ok (set (tokens acts)) s"
    and "next_client_id s \<noteq> 0" and "\<And>c. client_sockets st c \<longleftrightarrow> clients s c \<noteq> None"
  shows "loop_inv st'" and "ag st' = fold remove_client (tokens acts) s"
proof -
  from assms(1) obtain out where p: "process_actions io (client_sockets st) acts (sent st) = (Inr (tokens acts), out)"
    and r: "remove_tokens io (tokens acts) (st\<lparr>ag := s, wrld := w, sent := out\<rparr>) = Inr st'"
    by (auto simp: carry_out_def split: prod.splits sum.splits dest: process_actions_tokens)
  note st' = remove_tokens_Inr [OF r]
  then show "ag st' = fold remove_client (tokens acts) s" by simp
  show "loop_inv st'"
    using st' remove_clients_ok [OF assms(2)] assms(3,4) by (simp add: loop_inv_def remove_clients_fields)
qed

lemma handle_disconnect_keeps:
  "handle_disconnect cid s w acts = (s', w', acts') \<Longrightarrow> next_client_id s' = next_client_id s"
  by (auto simp: handle_disconnect_def Let_def split: prod.splits if_splits dest: stop_extension_fields(5))

lemma handle_disconnect_clients:
  "handle_disconnect cid s w acts = (s', w', acts') \<Longrightarrow> clients s' = clients s"
  by (auto simp: handle_disconnect_def Let_def split: prod.splits if_splits dest: stop_extension_fields(1))

lemma dispatch_keeps:
  assumes "dispatch_message env now cid cl msg fds s w acts = (res, s', w', acts')"
    and "clients s cid = Some cl"
  shows "next_client_id s' = next_client_id s \<and> dom (clients s') = dom (clients s)"
  using assms(1)
proof (cases rule: dispatch_cases)
  case (Start n a)
  then show ?thesis using handle_start_result(1,4) [OF Start(3)] by simp
qed (use assms(2) in \<open>auto simp: dom_def\<close>)

lemma handle_message_keeps:
  assumes hm: "handle_message env now cid msg fds s w acts = (s', w', acts')"
  shows "next_client_id s' = next_client_id s \<and> dom (clients s') = dom (clients s)"
proof (cases "msg = Version \<or> clients s cid = None")
  case True
  with hm show ?thesis by (auto simp: handle_message_def split: if_splits)
next
  case False
  then obtain cl where cl: "clients s cid = Some cl" and v: "msg \<noteq> Version" by auto
  obtain res s1 w1 acts1 where d: "dispatch_message env now cid cl msg fds s w acts = (res, s1, w1, acts1)"
    using prod_cases4 by blast
  note k = dispatch_keeps [OF d cl]
  have "cid \<in> dom (clients s)" using cl by auto
  then have upd: "dom ((clients s1)(cid \<mapsto> x)) = dom (clients s)" for x
    using k by auto
  show ?thesis
  proof (cases res)
    case None
    with hm v cl d k show ?thesis by (simp add: handle_message_def)
  next
    case (Some r)
    have disc: "handle_disconnect cid s1 w1 acts1 = (s', w', acts') \<Longrightarrow> ?thesis"
      using handle_disconnect_keeps handle_disconnect_clients k by metis
    show ?thesis
    proof (cases "r = RStarted")
      case True
      then have "s' = s1\<lparr>another_started := True, started_client := Some cid,
          clients := (clients s1)(cid \<mapsto> \<lparr>state = Started, timestamp_ns = now\<rparr>)\<rparr>"
        using hm v cl d Some by (auto simp: handle_message_def)
      with k upd [of "\<lparr>state = Started, timestamp_ns = now\<rparr>"] show ?thesis by simp
    next
      case False
      with Some hm v cl d k disc show ?thesis by (cases r) (simp_all add: handle_message_def)
    qed
  qed
qed

lemma accept_ok:
  assumes "loop_inv st" and "handle_accept io now res st = Inr st'" and "next_client_id (ag st) + 1 \<noteq> 0"
  shows "loop_inv st'"
proof (cases "res = AcceptOk None")
  case True
  obtain cid s1 where i: "get_next_client_id (ag st) = (cid, s1)" by force
  have inv: "sess_ok {} (ag st)" "next_client_id (ag st) \<noteq> 0" using assms(1) by (simp_all add: loop_inv_def)
  note reg = register_client_ok [OF inv(1) i assms(3) inv(2)]
  from True assms(2) i have c: "carry_out io (register_client now cid s1, wrld st, [])
      (st\<lparr>client_sockets := (client_sockets st)(cid := True)\<rparr>) = Inr st'"
    by (auto simp: handle_accept_def split: option.splits)
  have "s1 = (ag st)\<lparr>next_client_id := next_client_id (ag st) + 1\<rparr>"
    using i by (auto simp: get_next_client_id_def Let_def)
  then show ?thesis
    using reg(1,2) [of now] reg(4) assms(1)
    by (intro carry_out_ok(1) [OF c]) (auto simp: loop_inv_def register_client_def)
next
  case False
  with assms(1,2) show ?thesis
    by (auto simp: handle_accept_def split: accept_result.splits option.splits)
qed

lemma disconnect_carry_ok:
  assumes "loop_inv st" and "carry_out io (handle_disconnect cid (ag st) (wrld st) []) st = Inr st'"
  shows "loop_inv st'"
proof -
  obtain s w acts where h: "handle_disconnect cid (ag st) (wrld st) [] = (s, w, acts)" using prod_cases3 by blast
  have "sess_ok {} (ag st)" using assms(1) by (simp add: loop_inv_def)
  note d = handle_disconnect_ok [OF this h] and k = handle_disconnect_keeps [OF h]
  show ?thesis
    using d k assms by (intro carry_out_ok(1) [of io s w acts st st']) (auto simp: loop_inv_def h)
qed

lemma message_carry_ok:
  assumes "loop_inv st" and "carry_out io (handle_message env now cid msg fds (ag st) (wrld st) []) st = Inr st'"
  shows "loop_inv st'"
proof -
  obtain s w acts where h: "handle_message env now cid msg fds (ag st) (wrld st) [] = (s, w, acts)"
    using prod_cases3 by blast
  have "sess_ok {} (ag st)" using assms(1) by (simp add: loop_inv_def)
  note d = handle_message_ok [OF this h]
  have "next_client_id s = next_client_id (ag st)" "clients s c = None \<longleftrightarrow> clients (ag st) c = None" for c
    using handle_message_keeps [OF h] by auto
  then show ?thesis
    using d assms by (intro carry_out_ok(1) [of io s w acts st st']) (auto simp: loop_inv_def h)
qed

text \<open>How many identifiers a batch may hand out without the counter wrapping.\<close>

lemma carry_out_ids:
  assumes "carry_out io (s, w, acts) st = Inr st'"
  shows "next_client_id (ag st') = next_client_id s"
  using assms
  by (auto simp: carry_out_def remove_clients_fields split: prod.splits sum.splits dest!: remove_tokens_Inr)

lemma carry_out_disconnect_ids:
  assumes "carry_out io (handle_disconnect cid (ag st) w []) st = Inr st'"
  shows "next_client_id (ag st') = next_client_id (ag st)"
  using assms carry_out_ids handle_disconnect_keeps
  by (cases "handle_disconnect cid (ag st) w []") (metis prod_cases3)

lemma carry_out_message_ids:
  assumes "carry_out io (handle_message env now cid m fds (ag st) w []) st = Inr st'"
  shows "next_client_id (ag st') = next_client_id (ag st)"
  using assms carry_out_ids handle_message_keeps
  by (cases "handle_message env now cid m fds (ag st) w []") (metis prod_cases3)

lemma handle_client_Inr:
  assumes "handle_client io now cid hup recv st = Inr st'"
  shows "st' = st \<or> carry_out io (handle_disconnect cid (ag st) (wrld st) []) st = Inr st' \<or>
    (\<exists>m fds. carry_out io (handle_message (io_env io) now cid m fds (ag st) (wrld st) []) st = Inr st')"
proof (cases "hup \<or> \<not> client_sockets st cid")
  case True
  with assms show ?thesis by (cases hup) (simp_all add: handle_client_def)
next
  case False
  show ?thesis
  proof (cases recv)
    case (RecvMsg buf fds)
    show ?thesis
    proof (cases "buf = [] \<or> access io (take 1024 buf) = None")
      case True
      with assms False RecvMsg show ?thesis by (auto simp: handle_client_def split: if_splits)
    next
      case noempty: False
      then obtain m where "buf \<noteq> []" "access io (take 1024 buf) = Some m" by auto
      with assms False RecvMsg show ?thesis by (simp add: handle_client_def) blast
    qed
  qed (use assms False in \<open>simp_all add: handle_client_def\<close>)
qed

lemma client_event_cases:
  assumes "handle_event io now (ClientEvent cid hup recv) st = Inr st'"
  obtains (Same) "st' = st"
  | (Gone) "carry_out io (handle_disconnect cid (ag st) (wrld st) []) st = Inr st'"
  | (Message) m fds where "carry_out io (handle_message (io_env io) now cid m fds (ag st) (wrld st) []) st = Inr st'"
  using assms handle_client_Inr [of io now cid hup recv st st'] by (cases "cid = LISTENER_TOKEN") auto

lemma event_ids:
  assumes "handle_event io now ev st = Inr st'"
  shows "next_client_id (ag st') = next_client_id (ag st) \<or>
         next_client_id (ag st') = next_client_id (ag st) + 1"
proof (cases ev)
  case (ListenerEvent res)
  show ?thesis
  proof (cases "res = AcceptOk None")
    case True
    obtain cid s1 where i: "get_next_client_id (ag st) = (cid, s1)" by force
    have s1: "next_client_id (register_client now cid s1) = next_client_id (ag st) + 1"
      using i by (auto simp: get_next_client_id_def Let_def register_client_def)
    from True assms ListenerEvent i have "carry_out io (register_client now cid s1, wrld st, [])
        (st\<lparr>client_sockets := (client_sockets st)(cid := True)\<rparr>) = Inr st'"
      by (auto simp: handle_accept_def split: option.splits)
    from carry_out_ids [OF this] s1 show ?thesis by simp
  next
    case False
    with assms ListenerEvent show ?thesis
      by (auto simp: handle_accept_def split: accept_result.splits option.splits)
  qed
next
  case (ClientEvent cid hup recv)
  with assms have "handle_event io now (ClientEvent cid hup recv) st = Inr st'" by simp
  then show ?thesis
    using carry_out_disconnect_ids carry_out_message_ids by (cases rule: client_event_cases) auto
qed

lemma event_ok:
  assumes "loop_inv st" and "handle_event io now ev st = Inr st'" and "next_client_id (ag st) + 1 \<noteq> 0"
  shows "loop_inv st'"
proof (cases ev)
  case (ListenerEvent res)
  with assms accept_ok show ?thesis by simp
next
  case (ClientEvent cid hup recv)
  with assms(2) have "handle_event io now (ClientEvent cid hup recv) st = Inr st'" by simp
  then show ?thesis
  proof (cases rule: client_event_cases)
    case Same
    with assms(1) show ?thesis by simp
  next
    case Gone
    then show ?thesis by (rule disconnect_carry_ok [OF assms(1)])
  next
    case (Message m fds)
    then show ?thesis by (rule message_carry_ok [OF assms(1)])
  qed
qed

definition ids_left :: "nat \<Rightarrow> loop_state \<Rightarrow> bool" where
  "ids_left k st \<longleftrightarrow> unat (next_client_id (ag st)) + k < 2 ^ 64"

lemma ids_left_step:
  assumes "ids_left (Suc k) st"
  shows "next_client_id (ag st) + 1 \<noteq> 0"
    and "next_client_id (ag st') = next_client_id (ag st) \<or>
         next_client_id (ag st') = next_client_id (ag st) + 1 \<Longrightarrow> ids_left k st'"
proof -
  have "unat (next_client_id (ag st) + 1) = unat (next_client_id (ag st)) + 1"
    using assms by (simp add: ids_left_def unat_add_small)
  then show "next_client_id (ag st) + 1 \<noteq> 0"
    and "next_client_id (ag st') = next_client_id (ag st) \<or>
         next_client_id (ag st') = next_client_id (ag st) + 1 \<Longrightarrow> ids_left k st'"
    using assms by (auto simp: ids_left_def)
qed

lemma events_ok:
  "\<lbrakk>loop_inv st; handle_events io evs st = Inr st'; ids_left (length evs + k) st\<rbrakk>
   \<Longrightarrow> loop_inv st' \<and> ids_left k st'"
proof (induction io evs st rule: handle_events.induct)
  case (2 io now ev evs st)
  from "2.prems"(2) obtain st1 where st1: "handle_event io now ev st = Inr st1" "handle_events io evs st1 = Inr st'"
    by (auto split: sum.splits)
  have left: "ids_left (Suc (length evs + k)) st" using "2.prems"(3) by simp
  have "loop_inv st1" by (rule event_ok [OF "2.prems"(1) st1(1) ids_left_step(1) [OF left]])
  moreover have "ids_left (length evs + k) st1" by (rule ids_left_step(2) [OF left event_ids [OF st1(1)]])
  ultimately show ?case using "2.IH" [OF st1(1)] st1(2) by blast
qed simp

lemma run_timer_ok:
  assumes inv: "loop_inv st" and order: "set order = dom (clients (ag st))"
  shows "run_timer io now order st \<noteq> Inl ExitPanic"
    and "run_timer io now order st = Inr st' \<Longrightarrow> loop_inv st' \<and>
      next_client_id (ag st') = next_client_id (ag st) \<and> timeout_ns (ag st') = timeout_ns (ag st) \<and>
      clients (ag st') = (\<lambda>c. if expired now (ag st) c then None else clients (ag st) c)"
proof -
  have ok: "sess_ok {} (ag st)" using inv by (simp add: loop_inv_def)
  obtain s w acts where t: "timer now order (ag st) (wrld st) [] = Some (s, w, acts)"
    and s: "sess_ok (set (tokens acts)) s" "clients s = clients (ag st)" "timeout_ns s = timeout_ns (ag st)"
      "next_client_id s = next_client_id (ag st)" "set (tokens acts) = {c. expired now (ag st) c}"
    by (rule timer_ok [OF ok order, of now "wrld st"])
  have rt: "run_timer io now order st = carry_out io (s, w, acts) st" by (simp add: run_timer_def t)
  have "remove_tokens io ids x \<noteq> Inl ExitPanic" for ids x
    by (induction io ids x rule: remove_tokens.induct) (auto simp: Let_def split: option.splits)
  then show "run_timer io now order st \<noteq> Inl ExitPanic"
    by (auto simp: rt carry_out_def split: prod.splits sum.splits)
  assume "run_timer io now order st = Inr st'"
  then have c: "carry_out io (s, w, acts) st = Inr st'" by (simp add: rt)
  have "loop_inv st'" and ag: "ag st' = fold remove_client (tokens acts) s"
    using carry_out_ok [OF c s(1)] inv s by (auto simp: loop_inv_def)
  then show "loop_inv st' \<and> next_client_id (ag st') = next_client_id (ag st) \<and>
      timeout_ns (ag st') = timeout_ns (ag st) \<and>
      clients (ag st') = (\<lambda>c. if expired now (ag st) c then None else clients (ag st) c)"
    unfolding ag remove_clients_fields s(2-5) by (simp add: fun_eq_iff)
qed

section \<open>Properties of the thread\<close>

definition visits_all :: "batch \<Rightarrow> bool" where
  "visits_all b \<longleftrightarrow> (\<forall>s. set (timer_order b s) = dom (clients s))"

lemma no_panic_events: "handle_events io evs st \<noteq> Inl ExitPanic"
proof -
  have rt: "remove_tokens io ids x \<noteq> Inl ExitPanic" for ids x
    by (induction io ids x rule: remove_tokens.induct) (auto simp: Let_def split: option.splits)
  have co: "carry_out io h x \<noteq> Inl ExitPanic" for h x
    using rt by (auto simp: carry_out_def split: prod.splits sum.splits)
  have "handle_event io now ev x \<noteq> Inl ExitPanic" for now ev x
    using co by (cases ev) (auto simp: handle_accept_def handle_client_def split: accept_result.splits
        option.splits prod.splits recv_result.splits)
  then show ?thesis
    by (induction io evs st rule: handle_events.induct) (auto split: sum.splits)
qed

lemma iteration_ok:
  assumes "loop_inv st" "visits_all b" "ids_left (10 + k) st"
  shows "loop_iteration io b st \<noteq> Inl ExitPanic"
    and "loop_iteration io b st = Inr st' \<Longrightarrow> loop_inv st' \<and> ids_left k st'"
proof -
  let ?evs = "take 10 (batch_events b)"
  have left: "ids_left (length ?evs + k) st" using assms(3) by (auto simp: ids_left_def)
  have next_st: "run_timer io (timer_now b) (timer_order b (ag st1)) st1 \<noteq> Inl ExitPanic \<and>
      (\<forall>st'. run_timer io (timer_now b) (timer_order b (ag st1)) st1 = Inr st' \<longrightarrow> loop_inv st' \<and> ids_left k st')"
    if "handle_events io ?evs st = Inr st1" for st1
  proof -
    have inv: "loop_inv st1" "ids_left k st1" using events_ok [OF assms(1) that left] by simp_all
    have "set (timer_order b (ag st1)) = dom (clients (ag st1))" using assms(2) by (simp add: visits_all_def)
    from run_timer_ok [OF inv(1) this] inv(2) show ?thesis by (auto simp: ids_left_def)
  qed
  then show "loop_iteration io b st \<noteq> Inl ExitPanic"
    using no_panic_events [of io ?evs st] by (auto simp: loop_iteration_def split: option.splits sum.splits)
  assume "loop_iteration io b st = Inr st'"
  with next_st show "loop_inv st' \<and> ids_left k st'"
    by (auto simp: loop_iteration_def split: option.splits sum.splits)
qed

lemma thread_ok:
  "\<lbrakk>loop_inv st; list_all (visits_all \<circ> snd) bs; ids_left (10 * length bs) st\<rbrakk> \<Longrightarrow>
     epoll_listener_thread io bs st \<noteq> Inl ExitPanic \<and>
     (\<forall>st'. epoll_listener_thread io bs st = Inr st' \<longrightarrow> loop_inv st')"
proof (induction io bs st rule: epoll_listener_thread.induct)
  case (2 io shutdown b bs st)
  show ?case
  proof (cases shutdown)
    case False
    have b: "visits_all b" "ids_left (10 + 10 * length bs) st" using "2.prems"(2,3) by simp_all
    note it = iteration_ok [OF "2.prems"(1) b]
    show ?thesis
    proof (cases "loop_iteration io b st")
      case (Inl e)
      with it(1) False show ?thesis by auto
    next
      case (Inr st1)
      with it(2) have "loop_inv st1" "ids_left (10 * length bs) st1" by simp_all
      with "2.IH" [OF False Inr] "2.prems"(2) Inr False show ?thesis by simp
    qed
  qed (use "2.prems" in simp)
qed simp

lemma thread_ok_new:
  assumes "list_all (visits_all \<circ> snd) bs" and "10 * length bs < 2 ^ 63"
  shows "epoll_listener_thread io bs (loop_init t ext pid) \<noteq> Inl ExitPanic \<and>
    (\<forall>st. epoll_listener_thread io bs (loop_init t ext pid) = Inr st \<longrightarrow> loop_inv st)"
proof -
  have inv: "loop_inv (loop_init t ext pid)"
    using sess_ok_new [of t ext] by (simp add: loop_inv_def loop_init_def) (simp add: agent_state_new_def)
  have left: "ids_left (10 * length bs) (loop_init t ext pid)"
    using assms(2) by (simp add: ids_left_def loop_init_def agent_state_new_def)
  show ?thesis by (rule thread_ok [OF inv assms(1) left])
qed

text \<open>
  C2: whatever clients do and whichever system calls fail, the listener thread never panics,
  and whenever it is between iterations at most one client is started, that client is
  registered and owns the session, the extension runs only during a session, and there is a
  socket exactly for every registered client. (The clients accepted over the thread's life
  are bounded by the range of the identifier counter.)
\<close>

theorem listener_thread_invariant:
  assumes "list_all (visits_all \<circ> snd) bs" and "10 * length bs < 2 ^ 63"
  shows "epoll_listener_thread io bs (loop_init t ext pid) \<noteq> Inl ExitPanic \<and>
    (\<forall>st. epoll_listener_thread io bs (loop_init t ext pid) = Inr st \<longrightarrow>
       sess_ok {} (ag st) \<and> (\<forall>c. client_sockets st c \<longleftrightarrow> clients (ag st) c \<noteq> None))"
  using thread_ok_new [OF assms, of io t ext pid] unfolding loop_inv_def by blast

definition sample_io :: io where
  "sample_io = \<lparr>io_env = sample_env, ser = (\<lambda>m. SWrite [1, 2] SDone),
     access = (\<lambda>bs. if bs = [9] then Some (Start 4096 sample_args) else None),
     epoll_add = (\<lambda>_. None), epoll_delete = (\<lambda>_. None)\<rparr>"

definition sample_batch :: "(u64 \<times> epoll_event) list \<Rightarrow> u64 \<Rightarrow> batch" where
  "sample_batch evs now = \<lparr>wait_result = None, batch_events = evs, timer_now = (\<lambda>_. now),
     timer_order = (\<lambda>s. sorted_list_of_set (dom (clients s)))\<rparr>"

lemma sample_visits: "visits_all (sample_batch evs now)"
  by (simp add: visits_all_def sample_batch_def)

theorem listener_thread_invariant_witness:
  "epoll_listener_thread sample_io
     [(False, sample_batch [(5, ListenerEvent (AcceptOk None)), (6, ClientEvent 1 False (RecvMsg [9] [3, 4]))] 7)]
     (loop_init 2000 True 42) \<noteq> Inl ExitPanic"
  using listener_thread_invariant [of
      "[(False, sample_batch [(5, ListenerEvent (AcceptOk None)), (6, ClientEvent 1 False (RecvMsg [9] [3, 4]))] 7)]"
      sample_io 2000 True 42] sample_visits
  by simp

text \<open>
  C24: after an iteration, the clients still registered are exactly those registered before
  its timer check that had been active within the timeout when they were checked.
\<close>

theorem timer_evicts_expired:
  assumes "loop_inv st" and "set order = dom (clients (ag st))" and "run_timer io now order st = Inr st'"
  shows "clients (ag st') c = Some cl \<longleftrightarrow>
         clients (ag st) c = Some cl \<and> saturating_sub (now c) (timestamp_ns cl) \<le> timeout_ns (ag st)"
  using run_timer_ok(2) [OF assms]
  by (auto simp: expired_def client_timer_def Let_def split: option.splits if_splits)

theorem timer_evicts_expired_witness:
  "\<exists>st'. run_timer sample_io (\<lambda>_. 2000000007) [2, 1]
     \<lparr>ag = sample_agent, client_sockets = (\<lambda>c. c = 1 \<or> c = 2), wrld = sample_world, sent = []\<rparr> = Inr st' \<and>
     clients (ag st') 1 = None \<and> clients (ag st') 2 = Some \<lparr>state = Pending, timestamp_ns = 9\<rparr>"
proof -
  let ?st = "\<lparr>ag = sample_agent, client_sockets = (\<lambda>c. c = 1 \<or> c = 2), wrld = sample_world, sent = []\<rparr>"
  have inv: "loop_inv ?st" using sample_agent_ok by (simp add: loop_inv_def) (simp add: sample_agent_def)
  have ord: "set [2, 1] = dom (clients (ag ?st))" by (auto simp: sample_agent_def)
  obtain st' where st': "run_timer sample_io (\<lambda>_. 2000000007) [2, 1] ?st = Inr st'"
    by (simp add: run_timer_def timer_def sample_agent_def agent_state_new_def expired_def client_timer_def
        saturating_sub_def stop_extension_def carry_out_def sample_io_def Let_def)
  note ev = timer_evicts_expired [OF inv ord st']
  have "timeout_ns sample_agent = 2000000000" by (simp add: sample_agent_def agent_state_new_def)
  then have "clients (ag st') 1 \<noteq> Some cl" for cl
    using ev [of 1 cl] by (auto simp: sample_agent_def saturating_sub_def)
  moreover have "clients (ag st') 2 = Some \<lparr>state = Pending, timestamp_ns = 9\<rparr>"
    using ev [of 2] \<open>timeout_ns sample_agent = _\<close> by (simp add: sample_agent_def saturating_sub_def)
  ultimately show ?thesis using st' by (cases "clients (ag st') 1") auto
qed

text \<open>The messages that a list of actions sends to connected clients.\<close>

fun replies :: "(client_id \<Rightarrow> bool) \<Rightarrow> action list \<Rightarrow> (client_id \<times> control_message) list" where
  "replies socks [] = []"
| "replies socks (SendMessage c m # acts) = (if socks c then (c, m) # replies socks acts else replies socks acts)"
| "replies socks (DeleteEpoll c # acts) = replies socks acts"

text \<open>
  When no message fails to serialise, \<open>process_actions\<close> never fails: it sends to every
  connected addressee the exact serialised bytes of its messages, in order, and returns the
  clients queued for removal.
\<close>

theorem process_actions_sends:
  assumes "\<And>m. \<not> prog_fails (ser io m) 0" and "\<And>m. length (prog_output (ser io m) 0) < SLICE_MAX"
  shows "process_actions io socks acts out =
    (Inr (tokens acts), out @ map (\<lambda>(c, m). (c, prog_output (ser io m) 0)) (replies socks acts))"
  using assms
proof (induction io socks acts out rule: process_actions.induct)
  case (2 io socks cid m acts out)
  let ?out = "prog_output (ser io m) 0" and ?n = "of_nat (length (prog_output (ser io m) 0)) :: usize"
  have len: "compute_length (ser io m) = Inr ?n" by (rule compute_length_eq [OF "2.prems"(1)])
  have n: "unat ?n = length ?out" by (rule unat_output_length [OF "2.prems"(2)])
  have fit: "serialize_to_buf (ser io m) (replicate (unat ?n) 0) = (Inr (), ?out)"
    using serialize_fits [OF "2.prems"(1), of m "replicate (unat ?n) 0"] "2.prems"(2) n by simp
  show ?case
  proof (cases "socks cid")
    case True
    then show ?thesis using "2.IH"(1) [OF True len fit [symmetric] refl] "2.prems" len fit by simp
  next
    case False
    then show ?thesis using "2.IH"(2) "2.prems" by simp
  qed
next
  case (3 io socks cid acts out)
  then show ?case by simp
qed simp

theorem process_actions_sends_witness:
  "process_actions sample_io (\<lambda>c. c = 1) [SendMessage 1 Ack, SendMessage 2 Ack, DeleteEpoll 1] [] =
     (Inr [1], [(1, [1, 2])])"
proof -
  have "\<not> prog_fails (ser sample_io m) 0" "length (prog_output (ser sample_io m) 0) < SLICE_MAX" for m
    by (simp_all add: sample_io_def SLICE_MAX_def)
  from process_actions_sends [OF this, of "\<lambda>c. c = 1" "[SendMessage 1 Ack, SendMessage 2 Ack, DeleteEpoll 1]" "[]"]
  show ?thesis by (simp add: sample_io_def)
qed

end
