(* ===== verification/Agent_Builder.thy ===== *)
theory Agent_Builder
  imports Agent_Epoll
begin

text \<open>
  \<^verbatim>\<open>agent/src/agent.rs\<close> and the setup at the head of \<open>epoll_listener_thread\<close> (\<^verbatim>\<open>agent/src/epoll_thread.rs\<close>): the
  builder of an agent, the thread it owns, and how the thread is stopped. Parameters: the
  outcome of the system calls, whether the thread could be started, and the batches of events
  that the thread sees.
\<close>

record agent_builder =
  ab_socket_path :: string
  ab_timeout_ms :: u16
  ab_extension :: bool

definition default_timeout_ms :: u16 where
  "default_timeout_ms = ucast (CLIENT_TIMEOUT_NS div 1000000)"

definition agent_builder_new :: "string \<Rightarrow> agent_builder" where
  "agent_builder_new path = \<lparr>ab_socket_path = path, ab_timeout_ms = default_timeout_ms, ab_extension = False\<rparr>"

definition builder_with_timeout :: "u16 \<Rightarrow> agent_builder \<Rightarrow> agent_builder" where
  "builder_with_timeout t b = b\<lparr>ab_timeout_ms := t\<rparr>"

definition register_tracing :: "agent_builder \<Rightarrow> agent_builder" where
  "register_tracing b = b\<lparr>ab_extension := True\<rparr>"

text \<open>The thread: the state it starts with; it is present until it is joined.\<close>

record agent =
  socket_thread :: "loop_state option"
  ag_socket_path :: string
  ag_shutdown :: bool

definition internal_new :: "io_error option \<Rightarrow> i32 \<Rightarrow> string \<Rightarrow> u16 \<Rightarrow> bool \<Rightarrow> agent_error + agent" where
  "internal_new spawn pid path t ext =
     (case spawn of
        Some e \<Rightarrow> Inl (AgentIo e)
      | None \<Rightarrow> Inr \<lparr>socket_thread = Some (loop_init t ext pid), ag_socket_path = path, ag_shutdown = False\<rparr>)"

definition agent_build :: "io_error option \<Rightarrow> i32 \<Rightarrow> agent_builder \<Rightarrow> agent_error + agent" where
  "agent_build spawn pid b = internal_new spawn pid (ab_socket_path b) (ab_timeout_ms b) (ab_extension b)"

definition agent_with_timeout :: "io_error option \<Rightarrow> i32 \<Rightarrow> string \<Rightarrow> u16 \<Rightarrow> agent_error + agent" where
  "agent_with_timeout spawn pid path t = internal_new spawn pid path t False"

definition agent_new :: "io_error option \<Rightarrow> i32 \<Rightarrow> string \<Rightarrow> agent_error + agent" where
  "agent_new spawn pid path = agent_with_timeout spawn pid path default_timeout_ms"

text \<open>Binding the socket and registering it with epoll come before the loop.\<close>

record listener_setup =
  ls_bind :: "io_error option"
  ls_nonblocking :: "io_error option"
  ls_epoll_new :: "errno option"
  ls_epoll_add :: "errno option"

definition listener_thread ::
  "listener_setup \<Rightarrow> io \<Rightarrow> (bool \<times> batch) list \<Rightarrow> loop_state \<Rightarrow> thread_exit + loop_state" where
  "listener_thread su io bs st =
     (case ls_bind su of Some e \<Rightarrow> Inl (ExitError (AgentIo e)) | None \<Rightarrow>
      case ls_nonblocking su of Some e \<Rightarrow> Inl (ExitError (AgentIo e)) | None \<Rightarrow>
      case ls_epoll_new su of Some e \<Rightarrow> Inl (ExitError (AgentNix e)) | None \<Rightarrow>
      case ls_epoll_add su of Some e \<Rightarrow> Inl (ExitError (AgentNix e)) | None \<Rightarrow>
      epoll_listener_thread io bs st)"

text \<open>Joining the thread: a panic is an error of its own, an error of the thread is passed on.\<close>

definition wait_terminated ::
  "listener_setup \<Rightarrow> io \<Rightarrow> (bool \<times> batch) list \<Rightarrow> agent \<Rightarrow> (agent_error + unit) \<times> agent" where
  "wait_terminated su io bs a =
     (let a1 = a\<lparr>ag_shutdown := True\<rparr>
      in case socket_thread a1 of
           None \<Rightarrow> (Inr (), a1)
         | Some st \<Rightarrow>
             (case listener_thread su io bs st of
                Inl ExitPanic \<Rightarrow> Inl (AgentIo (OtherIo ''Thread panicked''))
              | Inl (ExitError e) \<Rightarrow> Inl e
              | Inr st' \<Rightarrow> Inr (),
              a1\<lparr>socket_thread := None\<rparr>))"

text \<open>
  Dropping an agent sets the flag and removes the socket file, if the system lets it; the thread
  is not joined. Binding also removes a file of that name first. The files are those with a socket behind them.
\<close>

definition agent_drop :: "io_error option \<Rightarrow> string set \<Rightarrow> agent \<Rightarrow> string set \<times> agent" where
  "agent_drop remove files a =
     ((case remove of None \<Rightarrow> files - {ag_socket_path a} | Some e \<Rightarrow> files), a\<lparr>ag_shutdown := True\<rparr>)"

definition bind_socket :: "io_error option \<Rightarrow> listener_setup \<Rightarrow> string \<Rightarrow> string set \<Rightarrow> string set" where
  "bind_socket remove su path files =
     (let files1 = (case remove of None \<Rightarrow> files - {path} | Some e \<Rightarrow> files)
      in case ls_bind su of None \<Rightarrow> insert path files1 | Some e \<Rightarrow> files1)"

text \<open>
  An agent that replaces another one on the same path loses its socket file when the old one is
  dropped after the new one was bound; other agents keep theirs.
\<close>

lemma drop_removes_successor:
  assumes "agent_build spawn pid b = Inr a"
  shows "ab_socket_path b \<notin> fst (agent_drop None (bind_socket r su (ab_socket_path b) files) a)"
    and "\<lbrakk>ls_bind su = None; path \<noteq> ab_socket_path b\<rbrakk> \<Longrightarrow> path \<in> fst (agent_drop e (bind_socket r su path files) a)"
proof -
  have "ag_socket_path a = ab_socket_path b"
    using assms by (auto simp: agent_build_def internal_new_def split: option.splits)
  then show "ab_socket_path b \<notin> fst (agent_drop None (bind_socket r su (ab_socket_path b) files) a)"
    and "\<lbrakk>ls_bind su = None; path \<noteq> ab_socket_path b\<rbrakk> \<Longrightarrow> path \<in> fst (agent_drop e (bind_socket r su path files) a)"
    by (simp_all add: agent_drop_def bind_socket_def Let_def split: option.split)
qed

lemma default_timeout: "timeout_ns (agent_state_new default_timeout_ms ext) = CLIENT_TIMEOUT_NS"
  by (simp add: agent_state_new_def default_timeout_ms_def CLIENT_TIMEOUT_NS_def)

lemma agent_shuts_down:
  assumes "agent_build spawn pid b = Inr a" "list_all (visits_all \<circ> snd) bs" "10 * length bs < 2 ^ 63"
  shows "fst (wait_terminated su io bs a) \<noteq> Inl (AgentIo (OtherIo ''Thread panicked'')) \<or>
      listener_thread su io bs (loop_init (ab_timeout_ms b) (ab_extension b) pid) = Inl (ExitError (AgentIo (OtherIo ''Thread panicked'')))"
    and "fst (wait_terminated su io bs (snd (wait_terminated su io bs a))) = Inr ()"
proof -
  have a: "socket_thread a = Some (loop_init (ab_timeout_ms b) (ab_extension b) pid)"
    using assms(1) by (auto simp: agent_build_def internal_new_def split: option.splits)
  have "listener_thread su io bs (loop_init (ab_timeout_ms b) (ab_extension b) pid) \<noteq> Inl ExitPanic"
    using thread_ok_new [OF assms(2,3), of io "ab_timeout_ms b" "ab_extension b" pid]
    by (simp add: listener_thread_def split: option.split)
  with a show "fst (wait_terminated su io bs a) \<noteq> Inl (AgentIo (OtherIo ''Thread panicked'')) \<or>
      listener_thread su io bs (loop_init (ab_timeout_ms b) (ab_extension b) pid) = Inl (ExitError (AgentIo (OtherIo ''Thread panicked'')))"
    by (auto simp: wait_terminated_def Let_def split: sum.splits thread_exit.splits)
  show "fst (wait_terminated su io bs (snd (wait_terminated su io bs a))) = Inr ()"
    by (simp add: wait_terminated_def Let_def split: option.split)
qed

end
