(* ===== verification/Agent_Channel.thy ===== *)
theory Agent_Channel
  imports Agent_State
begin

text \<open>
  \<^verbatim>\<open>agent/src/mpsc.rs\<close> and the handle of \<^verbatim>\<open>agent/src/extension.rs\<close>: events are serialised
  straight into a record of the ring and read back by the consumer. The event serialiser is a
  parameter; what the consumer's decoder promises of it is a hypothesis of the channel's
  correctness statement. \<open>locked\<close> is whether the spin lock was obtained.
\<close>

definition submit ::
  "(event \<Rightarrow> ser_prog) \<Rightarrow> wakeup_strategy \<Rightarrow> string option \<Rightarrow> bool \<Rightarrow> event \<Rightarrow> ring \<times> nat
   \<Rightarrow> (agent_error + unit) \<times> (ring \<times> nat)" where
  "submit ev_ser strategy write_error locked ev s =
     (case s of (r, efd) \<Rightarrow>
        (case compute_length (ev_ser ev) of
           Inl e \<Rightarrow> (Inl (AgentArchive e), s)
         | Inr required_size \<Rightarrow>
             (case reserve locked required_size r of
                (Inl e, r1) \<Rightarrow> (Inl (AgentMpscbuf e), (r1, efd))
              | (Inr b, r1) \<Rightarrow>
                  (let off = rb_off b + unat HEADER_SIZE;
                       slice = read_data r1 off (unat (rb_size b));
                       (res, slice') = serialize_to_buf (ev_ser ev) slice;
                       s' = buffer_drop strategy write_error b (write_data off slice' r1, efd)
                   in case res of Inl e \<Rightarrow> (Inl (AgentArchive e), s') | Inr _ \<Rightarrow> (Inr (), s')))))"

definition consumer_consume :: "ring \<Rightarrow> (consumed option \<times> ring) option" where
  "consumer_consume r = consume r"

definition as_event :: "(bytes \<Rightarrow> event option) \<Rightarrow> consumed \<Rightarrow> rkyv_error + event" where
  "as_event ev_access rec =
     (case ev_access (rec_data rec) of Some e \<Rightarrow> Inr e | None \<Rightarrow> Inl SerializerError)"

definition channel_dropped :: "ring \<Rightarrow> u64" where
  "channel_dropped r = dropped r"

text \<open>\<open>AgentHandle::submit\<close> over an arbitrary submission function of its producer; the flag
  says whether this thread's name has been announced.\<close>

definition handle_submit ::
  "(event \<Rightarrow> 'q \<Rightarrow> (agent_error + unit) \<times> 'q) \<Rightarrow> string option \<Rightarrow> i32 \<Rightarrow> i32 \<Rightarrow> event \<Rightarrow> bool \<times> 'q
   \<Rightarrow> (agent_error + unit) \<times> (bool \<times> 'q)" where
  "handle_submit sub thread_name tid pid ev s =
     (case s of (sent, q) \<Rightarrow>
        if sent then (case sub ev q of (res, q') \<Rightarrow> (res, (sent, q')))
        else (case thread_name of
                None \<Rightarrow> (case sub ev q of (res, q') \<Rightarrow> (res, (True, q')))
              | Some name \<Rightarrow>
                  (let thread_event = ETrack \<lparr>trk_name = name, trk_type = TyThread tid pid,
                                             trk_parent = Some (TyProcess pid)\<rparr>
                   in case sub thread_event q of
                        (Inl e, q') \<Rightarrow> (Inl e, (False, q'))
                      | (Inr _, q') \<Rightarrow> (case sub ev q' of (res, q'') \<Rightarrow> (res, (True, q''))))))"

section \<open>The channel\<close>

definition ev_bytes :: "(event \<Rightarrow> ser_prog) \<Rightarrow> event \<Rightarrow> bytes" where
  "ev_bytes ev_ser ev = prog_output (ev_ser ev) 0"

definition ev_fits :: "(event \<Rightarrow> ser_prog) \<Rightarrow> event \<Rightarrow> bool" where
  "ev_fits ev_ser ev \<longleftrightarrow> \<not> prog_fails (ev_ser ev) 0 \<and> length (ev_bytes ev_ser ev) < SIZE_LIMIT"

lemma reserve_size: "reserve locked sz r = (Inr b, r1) \<Longrightarrow> rb_size b = sz \<and> locked"
  by (auto simp: reserve_def reserve_locked_def Let_def split: prod.splits if_splits)

text \<open>Submitting an event is pushing its serialised bytes.\<close>

lemma submit_is_push:
  assumes "ev_fits ev_ser ev"
  shows "case ring_push strategy err (ev_bytes ev_ser ev) s of
           Some s' \<Rightarrow> submit ev_ser strategy err True ev s = (Inr (), s')
         | None \<Rightarrow> isl (fst (submit ev_ser strategy err True ev s))"
proof (cases s)
  case (Pair r n)
  let ?m = "ev_bytes ev_ser ev" and ?sz = "of_nat (length (ev_bytes ev_ser ev)) :: usize"
  have ok: "\<not> prog_fails (ev_ser ev) 0" and small: "length ?m < SLICE_MAX"
    using assms by (simp_all add: ev_fits_def SIZE_LIMIT_def SLICE_MAX_def)
  have len: "compute_length (ev_ser ev) = Inr ?sz"
    unfolding ev_bytes_def by (rule compute_length_eq [OF ok])
  have sz: "unat ?sz = length ?m"
    using small unfolding ev_bytes_def by (rule unat_output_length)
  show ?thesis
  proof (cases "reserve True ?sz r")
    case res: (Pair x r1)
    show ?thesis
    proof (cases x)
      case (Inl e)
      then show ?thesis using Pair res len by (simp add: ring_push_def submit_def)
    next
      case (Inr b)
      let ?off = "rb_off b + unat HEADER_SIZE"
      have b: "rb_size b = ?sz" using reserve_size res Inr by blast
      have "serialize_to_buf (ev_ser ev) (read_data r1 ?off (unat (rb_size b))) = (Inr (), ?m)"
        using serialize_fits [OF ok, of "read_data r1 ?off (unat (rb_size b))"] small sz b
        by (simp add: ev_bytes_def read_data_def)
      moreover have "buffer_write b 0 ?m r1 = Some (write_data ?off ?m r1)"
        using sz b by (simp add: buffer_write_def)
      ultimately show ?thesis
        using Pair res Inr len by (simp add: ring_push_def submit_def Let_def)
    qed
  qed
qed

definition channel_push ::
  "(event \<Rightarrow> ser_prog) \<Rightarrow> wakeup_strategy \<Rightarrow> string option \<Rightarrow> event \<Rightarrow> ring \<times> nat \<Rightarrow> (ring \<times> nat) option" where
  "channel_push ev_ser strategy err ev s =
     (case submit ev_ser strategy err True ev s of (Inr _, s') \<Rightarrow> Some s' | (Inl e, s') \<Rightarrow> None)"

lemma channel_push_eq:
  "ev_fits ev_ser ev \<Longrightarrow> channel_push ev_ser strategy err ev s = ring_push strategy err (ev_bytes ev_ser ev) s"
  using submit_is_push [of ev_ser ev strategy err s]
  by (auto simp: channel_push_def split: option.splits prod.splits sum.splits)

lemma channel_push_all:
  "list_all (ev_fits ev_ser) evs \<Longrightarrow>
     push_all (channel_push ev_ser strategy err) evs s =
     push_all (ring_push strategy err) (map (ev_bytes ev_ser) evs) s"
  by (induction evs arbitrary: s) (auto simp: channel_push_eq intro!: Option.bind_cong)

text \<open>
  C5: the shared-memory channel delivers every submitted event, unchanged and in order. From
  an empty ring, if all submissions succeed, the consumer reads back exactly the submitted
  events and then finds the ring empty. The decoder is only required to invert the serialiser
  on complete messages.
\<close>

theorem channel_delivers:
  assumes "\<And>ev. ev \<in> set evs \<Longrightarrow> ev_access (ev_bytes ev_ser ev) = Some ev" and "list_all (ev_fits ev_ser) evs"
    and "is_power_of_two n" and "8 \<le> unat n"
    and "sum_list (map (\<lambda>ev. msg_cost (ev_bytes ev_ser ev)) evs) \<le> POS_LIMIT"
    and "push_all (channel_push ev_ser strategy err) evs (ring_init n, 0) = Some q"
  shows "\<exists>ms q'. pop_n ring_pop (length evs) q = Some (ms, q') \<and> map ev_access ms = map Some evs \<and>
           (\<exists>q''. ring_pop q' = Some (None, q''))"
proof -
  let ?ms = "map (ev_bytes ev_ser) evs"
  have push: "push_all (ring_push strategy err) ?ms (ring_init n, 0) = Some q"
    using assms(2,6) by (simp add: channel_push_all)
  have rep: "ring_rep (0 + sum_list (map msg_cost ?ms)) (ring_init n, 0) []"
    using assms(3-5) by (intro ring_rep_init) (simp_all add: comp_def)
  have fits: "list_all msg_fits ?ms"
    using assms(2) by (auto simp: list_all_iff ev_fits_def msg_fits_def)
  from ring_queue.fifo [OF rep fits push] obtain q' where
    q': "pop_n ring_pop (length ?ms) q = Some (?ms, q')" "\<exists>q''. ring_pop q' = Some (None, q'')" by auto
  moreover have "map ev_access ?ms = map Some evs" using assms(1) by simp
  ultimately show ?thesis by auto
qed

definition sample_event :: event where
  "sample_event = EInstant \<lparr>inst_name = ''tick'', inst_timestamp = 5, inst_track_id = Cpu 0, inst_labels = labels_new\<rparr>"

theorem channel_delivers_witness:
  "\<exists>q ms q'. push_all (channel_push (\<lambda>_. SWrite [1, 2, 3] SDone) NoWakeup None) [sample_event, sample_event]
       (ring_init 64, 0) = Some q \<and>
     pop_n ring_pop 2 q = Some (ms, q') \<and> map (\<lambda>bs. if bs = [1, 2, 3] then Some sample_event else None) ms =
       [Some sample_event, Some sample_event]"
proof -
  let ?ser = "\<lambda>_ :: event. SWrite [1, 2, 3] SDone"
  let ?acc = "\<lambda>bs. if bs = [1, 2, 3 :: u8] then Some sample_event else None"
  have fits: "list_all (ev_fits ?ser) [sample_event, sample_event]"
    by (simp add: ev_fits_def ev_bytes_def SIZE_LIMIT_def)
  obtain q where q: "push_all (channel_push ?ser NoWakeup None) [sample_event, sample_event] (ring_init 64, 0) = Some q"
    unfolding channel_push_all [OF fits] by (simp add: ring_push_def ring_eval ev_bytes_def)
  have acc: "\<And>ev. ev \<in> set [sample_event, sample_event] \<Longrightarrow> ?acc (ev_bytes ?ser ev) = Some ev"
    by (simp add: ev_bytes_def)
  have "8 \<le> unat (64 :: usize)" "sum_list (map (\<lambda>ev. msg_cost (ev_bytes ?ser ev)) [sample_event, sample_event]) \<le> POS_LIMIT"
    by (simp_all add: msg_cost_def ev_bytes_def total_size_def round8_def POS_LIMIT_def)
  from channel_delivers [of "[sample_event, sample_event]" ?acc ?ser, OF acc fits is_power_of_two_64 this q] q
  show ?thesis by (auto simp: numeral_2_eq_2)
qed

primrec handle_submit_all where
  "handle_submit_all sub name tid pid [] s = s"
| "handle_submit_all sub name tid pid (ev # evs) s =
     handle_submit_all sub name tid pid evs (snd (handle_submit sub name tid pid ev s))"

lemma submit_all_sent:
  assumes "\<And>ev q. sub ev q = (Inr (), q @ [ev])"
  shows "handle_submit_all sub name tid pid evs (True, q) = (True, q @ evs)"
  by (induction evs arbitrary: q) (simp_all add: handle_submit_def assms)

text \<open>
  A thread announces its name once, before its first event. Submitting events through a
  handle over a producer that accepts everything leaves, for a named thread, one track event
  with the thread's name followed by the events in order, and for an unnamed thread just the
  events.
\<close>

theorem handle_announces_thread_once:
  assumes "\<And>ev q. sub ev q = (Inr (), q @ [ev])" and "evs \<noteq> []"
  shows "handle_submit_all sub name tid pid evs (False, []) =
    (True, (case name of None \<Rightarrow> []
            | Some n \<Rightarrow> [ETrack \<lparr>trk_name = n, trk_type = TyThread tid pid, trk_parent = Some (TyProcess pid)\<rparr>]) @ evs)"
  using assms(2)
proof (cases evs)
  case (Cons ev evs')
  then show ?thesis
    by (cases name) (simp_all add: handle_submit_def assms(1) submit_all_sent [OF assms(1)])
qed simp

theorem handle_announces_thread_once_witness:
  "handle_submit_all (\<lambda>ev q. (Inr (), q @ [ev])) (Some ''worker'') 8 9 [sample_event, sample_event] (False, []) =
    (True, [ETrack \<lparr>trk_name = ''worker'', trk_type = TyThread 8 9, trk_parent = Some (TyProcess 9)\<rparr>, sample_event, sample_event])"
  using handle_announces_thread_once [of "\<lambda>ev q. (Inr (), q @ [ev])" "[sample_event, sample_event]" "Some ''worker''" 8 9]
  by simp

end
