(* ===== verification/Bpf_Common.thy ===== *)
theory Bpf_Common
  imports Protocol
begin

text \<open>
  What the collectors of \<^verbatim>\<open>bpf/src\<close> share: the error type, the callback that takes their
  messages, and the standard library's decimal formatting. The callback is a parameter: the
  result of its \<open>k\<close>-th call is \<open>cb k\<close>; the messages it was called with are logged.
\<close>

datatype bpf_error = LoadError string | AttachError string | MapError string

definition call :: "(nat \<Rightarrow> i32) \<Rightarrow> message \<Rightarrow> message list \<Rightarrow> i32 \<times> message list" where
  "call cb m log = (cb (length log), log @ [m])"

fun show_nat :: "nat \<Rightarrow> string" where
  "show_nat n = (if n < 10 then [char_of (48 + n)] else show_nat (n div 10) @ [char_of (48 + n mod 10)])"

declare show_nat.simps [simp del]

text \<open>Collecting an iterator of results: the first error, or all values.\<close>

fun collect_results :: "('e + 'a) list \<Rightarrow> 'e + 'a list" where
  "collect_results [] = Inr []"
| "collect_results (Inl e # xs) = Inl e"
| "collect_results (Inr x # xs) = (case collect_results xs of Inl e \<Rightarrow> Inl e | Inr ys \<Rightarrow> Inr (x # ys))"

text \<open>White space and digits in text read from the system (ASCII).\<close>

definition is_space :: "char \<Rightarrow> bool" where
  "is_space ch \<longleftrightarrow> ch \<in> {CHR '' '', CHR 0x09, CHR 0x0A, CHR 0x0B, CHR 0x0C, CHR 0x0D}"

definition trim :: "string \<Rightarrow> string" where
  "trim s = rev (dropWhile is_space (rev (dropWhile is_space s)))"

definition is_digit :: "char \<Rightarrow> bool" where
  "is_digit ch \<longleftrightarrow> 48 \<le> (of_char ch :: nat) \<and> (of_char ch :: nat) \<le> 57"

text \<open>A C string in a buffer of fixed size.\<close>

definition c_str :: "string \<Rightarrow> string" where
  "c_str buf = takeWhile (\<lambda>ch. ch \<noteq> CHR 0x00) buf"

text \<open>
  Consuming a ring buffer: the events that the library hands to the collector's callback, and
  the error it ends with, if any. The callback's own results only decide how many events are
  handed over, which is part of what is given.
\<close>

type_synonym 'a ring = "'a list \<times> string option"

definition drain_ring :: "string \<Rightarrow> ('a \<Rightarrow> 's \<Rightarrow> 's) \<Rightarrow> 'a ring \<Rightarrow> 's \<Rightarrow> (bpf_error + unit) \<times> 's" where
  "drain_ring what f rb s =
     (case snd rb of None \<Rightarrow> Inr () | Some e \<Rightarrow> Inl (MapError (''failed to '' @ what @ '': '' @ e)), fold f (fst rb) s)"

definition NS_PER_SEC :: u64 where "NS_PER_SEC = 1000000000"

text \<open>\<open>u32::try_from\<close> on a process id.\<close>

definition u32_try_from :: "i32 \<Rightarrow> u32 option" where
  "u32_try_from pid = (if sint pid < 0 then None else Some pid)"

text \<open>
  Messages that announce a track, and the tracks a message needs: that of a counter value, and
  the custom track of a span or an instant or above a track. (Tracks of threads and processes
  are described on first use.)
\<close>

fun message_event :: "message \<Rightarrow> event" where
  "message_event (MEvent e) = e"
| "message_event (MStream sid e) = e"

definition announces :: "message \<Rightarrow> track_id \<Rightarrow> bool" where
  "announces m t \<longleftrightarrow> (case message_event m of ETrack k \<Rightarrow> to_id (trk_type k) = t | _ \<Rightarrow> False)"

fun custom_only :: "track_id \<Rightarrow> track_id list" where
  "custom_only (Custom i) = [Custom i]"
| "custom_only _ = []"

definition tracks_needed :: "message \<Rightarrow> track_id list" where
  "tracks_needed m =
     (case message_event m of
        ECounter c \<Rightarrow> [ctr_track_id c]
      | ESpan s \<Rightarrow> custom_only (span_track_id s)
      | EInstant i \<Rightarrow> custom_only (inst_track_id i)
      | ETrack k \<Rightarrow> (case trk_parent k of None \<Rightarrow> [] | Some p \<Rightarrow> custom_only (to_id p))
      | _ \<Rightarrow> [])"

text \<open>Every track that a message of the log needs has been announced before it.\<close>

definition announced_first :: "message list \<Rightarrow> bool" where
  "announced_first log \<longleftrightarrow>
     (\<forall>k < length log. \<forall>t \<in> set (tracks_needed (log ! k)). \<exists>j < k. announces (log ! j) t)"

lemma announced_first_Nil [simp]: "announced_first []"
  by (simp add: announced_first_def)

lemma announced_first_snoc:
  "announced_first (log @ [m]) \<longleftrightarrow>
     announced_first log \<and> (\<forall>t \<in> set (tracks_needed m). \<exists>m' \<in> set log. announces m' t)"
proof -
  let ?P = "\<lambda>l k. \<forall>t \<in> set (tracks_needed (l ! k)). \<exists>j < k. announces (l ! j) t"
  have nth: "(log @ [m]) ! j = log ! j" if "j < length log" for j using that by (simp add: nth_append)
  have prev: "?P (log @ [m]) k = ?P log k" if "k < length log" for k
  proof -
    have "(\<exists>j < k. announces ((log @ [m]) ! j) t) = (\<exists>j < k. announces (log ! j) t)" for t
      using that nth by auto
    then show ?thesis by (simp only: nth [OF that])
  qed
  have last: "?P (log @ [m]) (length log) = (\<forall>t \<in> set (tracks_needed m). \<exists>m' \<in> set log. announces m' t)"
  proof -
    have "(\<exists>j < length log. announces ((log @ [m]) ! j) t) = (\<exists>m' \<in> set log. announces m' t)" for t
    proof -
      have "(\<exists>j < length log. announces ((log @ [m]) ! j) t) = (\<exists>j < length log. announces (log ! j) t)"
        using nth by auto
      also have "\<dots> = (\<exists>m' \<in> set log. announces m' t)" by (metis in_set_conv_nth)
      finally show ?thesis .
    qed
    then show ?thesis by (simp only: nth_append_length)
  qed
  have "announced_first (log @ [m]) \<longleftrightarrow> (\<forall>k < length log. ?P (log @ [m]) k) \<and> ?P (log @ [m]) (length log)"
    unfolding announced_first_def length_append_singleton All_less_Suc by blast
  then show ?thesis using prev unfolding last announced_first_def by blast
qed

lemma announced_first_snoc2:
  "announced_first (log @ [m, m']) \<longleftrightarrow> announced_first (log @ [m]) \<and>
     (\<forall>t \<in> set (tracks_needed m'). announces m t \<or> (\<exists>m'' \<in> set log. announces m'' t))"
  using announced_first_snoc [of "log @ [m]" m'] by auto

lemma announces_simps [simp]:
  "announces (MEvent (ETrack k)) t \<longleftrightarrow> to_id (trk_type k) = t"
  "announces (MStream sid (ETrack k)) t \<longleftrightarrow> to_id (trk_type k) = t"
  "\<not> announces (MEvent (ECounter c)) t"
  "\<not> announces (MStream sid (ECounter c)) t"
  "\<not> announces (MEvent (ESpan s)) t"
  "tracks_needed (MEvent (ETrack k)) = (case trk_parent k of None \<Rightarrow> [] | Some p \<Rightarrow> custom_only (to_id p))"
  "tracks_needed (MStream sid (ETrack k)) = (case trk_parent k of None \<Rightarrow> [] | Some p \<Rightarrow> custom_only (to_id p))"
  "tracks_needed (MEvent (ESpan s)) = custom_only (span_track_id s)"
  "tracks_needed (MEvent (ECounter c)) = [ctr_track_id c]"
  "tracks_needed (MStream sid (ECounter c)) = [ctr_track_id c]"
  by (auto simp: announces_def tracks_needed_def)

text \<open>What a track's parent needs.\<close>

definition parent_ready :: "track_type option \<Rightarrow> message list \<Rightarrow> bool" where
  "parent_ready p log \<longleftrightarrow>
     (\<forall>t \<in> set (case p of None \<Rightarrow> [] | Some q \<Rightarrow> custom_only (to_id q)). \<exists>m \<in> set log. announces m t)"

lemma parent_ready_simps [simp]:
  "parent_ready None log" "parent_ready (Some (TyProcess pid)) log" "parent_ready (Some (TyThread tid pid)) log"
  "parent_ready (Some (TyCpu cpu)) log"
  "parent_ready (Some (TyCustom i)) log \<longleftrightarrow> (\<exists>m \<in> set log. announces m (Custom i))"
  by (simp_all add: parent_ready_def)

lemma announced_first_track:
  "announced_first (log @ [MEvent (ETrack k)]) \<longleftrightarrow> announced_first log \<and> parent_ready (trk_parent k) log"
  by (simp add: announced_first_snoc parent_ready_def)

text \<open>Messages are only ever added to a log.\<close>

definition log_grows :: "message list \<Rightarrow> message list \<Rightarrow> bool" where
  "log_grows base log \<longleftrightarrow> (\<exists>new. log = base @ new)"

lemma log_grows_simps [simp]:
  "log_grows log log" "log_grows [] log" "log_grows base log \<Longrightarrow> log_grows base (log @ ms)"
  by (auto simp: log_grows_def)

text \<open>How often a track is announced.\<close>

definition announcements :: "track_id \<Rightarrow> message list \<Rightarrow> nat" where
  "announcements t log = length (filter (\<lambda>m. announces m t) log)"

lemma announcements_snoc [simp]:
  "announcements t (log @ [m]) = announcements t log + (if announces m t then 1 else 0)"
  by (simp add: announcements_def)

lemma announcements_Nil [simp]: "announcements t [] = 0"
  by (simp add: announcements_def)

lemma announcements_pos: "0 < announcements t log \<longleftrightarrow> (\<exists>m \<in> set log. announces m t)"
  by (auto simp: announcements_def filter_empty_conv)

end
