(* ===== verification/Kinetracing.thy ===== *)
theory Kinetracing
  imports Bpf_Common
begin

text \<open>
  \<^verbatim>\<open>kinetracing/src\<close>: the layer that turns the spans and events of the \<open>tracing\<close> library into events of
  the protocol (\<^verbatim>\<open>layer.rs\<close>), the labels it collects (\<^verbatim>\<open>visitor.rs\<close>), and the extension that an agent
  starts and stops (\<^verbatim>\<open>extension.rs\<close>). Parameters of a callback: the thread it runs on, the clocks at
  that time and the library's registry of spans. Formatting a field with \<open>Debug\<close> may run
  arbitrary code of the program, which may emit events itself: these nested callbacks are part
  of the field. Callbacks of different threads are taken as atomic.
\<close>

section \<open>State\<close>

record metadata =
  md_name :: string
  md_target :: string

record span_data =
  sd_labels :: labels
  sd_start :: u64

text \<open>An agent's handle is represented by a number; what is submitted through it is logged with it.\<close>

record tracing_state =
  clock_id :: timestamp_type
  env_filter :: "metadata \<Rightarrow> bool"
  trace_handle :: nat

record layer =
  ly_state :: "tracing_state option"
  ly_spans :: "u64 \<Rightarrow> span_data option"
  ly_in_tracing :: "i32 \<Rightarrow> bool"
  ly_process_id :: i32
  ly_submitted :: "(nat \<times> event) list"

record layer_env =
  le_thread :: i32
  le_clock :: "timestamp_type \<Rightarrow> i64 \<times> i64"
  le_registry :: "u64 \<Rightarrow> metadata option"

definition layer_new :: "i32 \<Rightarrow> layer" where
  "layer_new pid = \<lparr>ly_state = None, ly_spans = Map.empty, ly_in_tracing = (\<lambda>_. False), ly_process_id = pid, ly_submitted = []\<rparr>"

section \<open>The extension\<close>

definition is_active :: "layer \<Rightarrow> bool" where
  "is_active s \<longleftrightarrow> ly_state s \<noteq> None"

definition current_clock :: "layer \<Rightarrow> timestamp_type" where
  "current_clock s = (case ly_state s of Some st \<Rightarrow> clock_id st | None \<Rightarrow> Monotonic)"

definition is_enabled :: "metadata \<Rightarrow> layer \<Rightarrow> bool" where
  "is_enabled md s = (case ly_state s of Some st \<Rightarrow> env_filter st md | None \<Rightarrow> True)"

text \<open>Submitting while inactive is an error that the layer ignores.\<close>

definition ext_submit :: "event \<Rightarrow> layer \<Rightarrow> layer" where
  "ext_submit e s =
     (case ly_state s of Some st \<Rightarrow> s\<lparr>ly_submitted := ly_submitted s @ [(trace_handle st, e)]\<rparr> | None \<Rightarrow> s)"

definition tracing_start ::
  "(string \<Rightarrow> string + (metadata \<Rightarrow> bool)) \<Rightarrow> tracing_args \<Rightarrow> nat \<Rightarrow> layer \<Rightarrow> (string + unit) \<times> layer" where
  "tracing_start try_filter args h s =
     (case try_filter (log_filter args) of
        Inl e \<Rightarrow> (Inl (''invalid log filter '' @ [CHR 0x27] @ log_filter args @ [CHR 0x27] @ '': '' @ e), s)
      | Inr f \<Rightarrow> (Inr (), s\<lparr>ly_state := Some \<lparr>clock_id = timestamp_type_of args, env_filter = f, trace_handle = h\<rparr>\<rparr>))"

definition tracing_stop :: "layer \<Rightarrow> (string + unit) \<times> layer" where
  "tracing_stop s = (Inr (), s\<lparr>ly_state := None\<rparr>)"

definition get_timestamp :: "i64 \<times> i64 \<Rightarrow> u64" where
  "get_timestamp ts = ucast (fst ts) * 1000000000 + ucast (snd ts)"

definition layer_time :: "layer_env \<Rightarrow> layer \<Rightarrow> u64" where
  "layer_time env s = get_timestamp (le_clock env (current_clock s))"

section \<open>Labels\<close>

definition label_insert :: "string \<Rightarrow> 'a \<Rightarrow> (string \<times> 'a) list \<Rightarrow> (string \<times> 'a) list" where
  "label_insert k v l = filter (\<lambda>e. fst e \<noteq> k) l @ [(k, v)]"

datatype callback =
    NewSpan metadata u64 "field list"
  | Enter u64
  | Exit u64
  | Emit metadata "field list"
and field =
    FI64 string i64
  | FU64 string u64
  | FF64 string f64_bits
  | FBool string bool
  | FStr string string
  | FDebug string string "callback list"

definition record_i64 :: "string \<Rightarrow> i64 \<Rightarrow> labels \<Rightarrow> labels" where
  "record_i64 k v l = l\<lparr>ints := label_insert k v (ints l)\<rparr>"

text \<open>A value beyond the signed range is stored as a floating-point number.\<close>

definition record_u64 :: "string \<Rightarrow> u64 \<Rightarrow> labels \<Rightarrow> labels" where
  "record_u64 k v l =
     (if v \<le> 0x7FFFFFFFFFFFFFFF then l\<lparr>ints := label_insert k v (ints l)\<rparr>
      else l\<lparr>floats := label_insert k (f64_of_u64 v) (floats l)\<rparr>)"

definition record_f64 :: "string \<Rightarrow> f64_bits \<Rightarrow> labels \<Rightarrow> labels" where
  "record_f64 k v l = l\<lparr>floats := label_insert k v (floats l)\<rparr>"

definition record_bool :: "string \<Rightarrow> bool \<Rightarrow> labels \<Rightarrow> labels" where
  "record_bool k v l = l\<lparr>bools := label_insert k v (bools l)\<rparr>"

definition record_str :: "string \<Rightarrow> string \<Rightarrow> labels \<Rightarrow> labels" where
  "record_str k v l = l\<lparr>strings := label_insert k v (strings l)\<rparr>"

section \<open>Callbacks\<close>

text \<open>The guard: a callback that runs inside another one on the same thread does nothing.\<close>

definition guarded :: "layer_env \<Rightarrow> (layer \<Rightarrow> layer) \<Rightarrow> layer \<Rightarrow> layer" where
  "guarded env body s =
     (if ly_in_tracing s (le_thread env) then s
      else let s1 = body (s\<lparr>ly_in_tracing := (ly_in_tracing s)(le_thread env := True)\<rparr>)
           in s1\<lparr>ly_in_tracing := (ly_in_tracing s1)(le_thread env := False)\<rparr>)"

definition on_new_span :: "layer_env \<Rightarrow> metadata \<Rightarrow> u64 \<Rightarrow> (labels \<times> layer \<Rightarrow> labels \<times> layer) \<Rightarrow> layer \<Rightarrow> layer" where
  "on_new_span env md i record_all = guarded env (\<lambda>s.
     if \<not> is_active s then s
     else if \<not> is_enabled md s then s
     else case record_all (labels_new, s) of (l, s1) \<Rightarrow>
            (case le_registry env i of
               None \<Rightarrow> s1
             | Some _ \<Rightarrow> s1\<lparr>ly_spans := (ly_spans s1)(i \<mapsto> \<lparr>sd_labels = record_str ''target'' (md_target md) l, sd_start = 0\<rparr>)\<rparr>))"

definition on_enter :: "layer_env \<Rightarrow> u64 \<Rightarrow> layer \<Rightarrow> layer" where
  "on_enter env i = guarded env (\<lambda>s.
     if \<not> is_active s then s
     else case le_registry env i of
            None \<Rightarrow> s
          | Some _ \<Rightarrow>
              (case ly_spans s i of
                 None \<Rightarrow> s
               | Some d \<Rightarrow> s\<lparr>ly_spans := (ly_spans s)(i \<mapsto> d\<lparr>sd_start := layer_time env s\<rparr>)\<rparr>))"

definition span_event :: "layer_env \<Rightarrow> metadata \<Rightarrow> u64 \<Rightarrow> span_data \<Rightarrow> layer \<Rightarrow> event" where
  "span_event env md i d s = ESpan \<lparr>span_name = md_name md, span_id = i, start_timestamp = sd_start d,
     end_timestamp = layer_time env s, span_track_id = Thread (le_thread env) (ly_process_id s), span_labels = sd_labels d\<rparr>"

definition on_exit :: "layer_env \<Rightarrow> u64 \<Rightarrow> layer \<Rightarrow> layer" where
  "on_exit env i = guarded env (\<lambda>s.
     if \<not> is_active s then s
     else case le_registry env i of
            None \<Rightarrow> s
          | Some md \<Rightarrow> (case ly_spans s i of None \<Rightarrow> s | Some d \<Rightarrow> ext_submit (span_event env md i d s) s))"

definition on_event :: "layer_env \<Rightarrow> metadata \<Rightarrow> (labels \<times> layer \<Rightarrow> labels \<times> layer) \<Rightarrow> layer \<Rightarrow> layer" where
  "on_event env md record_all = guarded env (\<lambda>s.
     if \<not> is_active s then s
     else if \<not> is_enabled md s then s
     else case record_all (labels_new, s) of (l, s1) \<Rightarrow>
            ext_submit (EInstant \<lparr>inst_name = md_name md, inst_timestamp = layer_time env s1,
              inst_track_id = Thread (le_thread env) (ly_process_id s1), inst_labels = record_str ''target'' (md_target md) l\<rparr>) s1)"

fun run_callback :: "layer_env \<Rightarrow> callback \<Rightarrow> layer \<Rightarrow> layer"
  and run_callbacks :: "layer_env \<Rightarrow> callback list \<Rightarrow> layer \<Rightarrow> layer"
  and record_fields :: "layer_env \<Rightarrow> field list \<Rightarrow> labels \<times> layer \<Rightarrow> labels \<times> layer" where
  "run_callback env (NewSpan md i fs) s = on_new_span env md i (\<lambda>x. record_fields env fs x) s"
| "run_callback env (Enter i) s = on_enter env i s"
| "run_callback env (Exit i) s = on_exit env i s"
| "run_callback env (Emit md fs) s = on_event env md (\<lambda>x. record_fields env fs x) s"
| "run_callbacks env [] s = s"
| "run_callbacks env (c # cs) s = run_callbacks env cs (run_callback env c s)"
| "record_fields env [] x = x"
| "record_fields env (FI64 k v # fs) x = record_fields env fs (record_i64 k v (fst x), snd x)"
| "record_fields env (FU64 k v # fs) x = record_fields env fs (record_u64 k v (fst x), snd x)"
| "record_fields env (FF64 k v # fs) x = record_fields env fs (record_f64 k v (fst x), snd x)"
| "record_fields env (FBool k v # fs) x = record_fields env fs (record_bool k v (fst x), snd x)"
| "record_fields env (FStr k v # fs) x = record_fields env fs (record_str k v (fst x), snd x)"
| "record_fields env (FDebug k v cs # fs) x =
     record_fields env fs (record_str k v (fst x), run_callbacks env cs (snd x))"

section \<open>Nested callbacks\<close>

text \<open>The labels of fields, without the callbacks that formatting them may run.\<close>

fun field_labels :: "field list \<Rightarrow> labels \<Rightarrow> labels" where
  "field_labels [] l = l"
| "field_labels (FI64 k v # fs) l = field_labels fs (record_i64 k v l)"
| "field_labels (FU64 k v # fs) l = field_labels fs (record_u64 k v l)"
| "field_labels (FF64 k v # fs) l = field_labels fs (record_f64 k v l)"
| "field_labels (FBool k v # fs) l = field_labels fs (record_bool k v l)"
| "field_labels (FStr k v # fs) l = field_labels fs (record_str k v l)"
| "field_labels (FDebug k v cs # fs) l = field_labels fs (record_str k v l)"

definition quiet_field :: "field \<Rightarrow> field" where
  "quiet_field f = (case f of FDebug k v cs \<Rightarrow> FDebug k v [] | _ \<Rightarrow> f)"

definition quiet :: "callback \<Rightarrow> callback" where
  "quiet c = (case c of NewSpan md i fs \<Rightarrow> NewSpan md i (map quiet_field fs) | Emit md fs \<Rightarrow> Emit md (map quiet_field fs) | _ \<Rightarrow> c)"

lemma guarded_busy: "ly_in_tracing s (le_thread env) \<Longrightarrow> guarded env body s = s"
  by (simp add: guarded_def)

lemma run_callback_busy: "ly_in_tracing s (le_thread env) \<Longrightarrow> run_callback env c s = s"
  by (cases c) (simp_all add: on_new_span_def on_enter_def on_exit_def on_event_def guarded_busy)

lemma run_callbacks_busy: "ly_in_tracing s (le_thread env) \<Longrightarrow> run_callbacks env cs s = s"
  by (induction cs) (simp_all add: run_callback_busy)

lemma record_fields_busy:
  "ly_in_tracing s (le_thread env) \<Longrightarrow> record_fields env fs (l, s) = (field_labels fs l, s)"
  by (induction fs l rule: field_labels.induct) (simp_all add: run_callbacks_busy)

lemma field_labels_quiet: "field_labels (map quiet_field fs) l = field_labels fs l"
  by (induction fs l rule: field_labels.induct) (simp_all add: quiet_field_def)

lemma guarded_cong:
  assumes "\<And>s. ly_in_tracing s (le_thread env) \<Longrightarrow> body s = body' s"
  shows "guarded env body s = guarded env body' s"
  using assms [of "s\<lparr>ly_in_tracing := (ly_in_tracing s)(le_thread env := True)\<rparr>"] by (simp add: guarded_def)

text \<open>
  C18: whatever callbacks the formatting of a field runs, the layer ends in the state it would
  reach without them: a callback of the layer is never disturbed, and never recurses.
\<close>

theorem reentrancy_harmless: "run_callback env c s = run_callback env (quiet c) s"
proof (cases c)
  case (NewSpan md i fs)
  then show ?thesis
    by (simp add: quiet_def on_new_span_def) (rule guarded_cong, simp add: record_fields_busy field_labels_quiet)
next
  case (Emit md fs)
  then show ?thesis
    by (simp add: quiet_def on_event_def) (rule guarded_cong, simp add: record_fields_busy field_labels_quiet)
qed (simp_all add: quiet_def)

section \<open>Spans are reported with their times\<close>

datatype layer_op =
    Call layer_env callback
  | SessionStart tracing_args nat
  | SessionStop
  | Closed u64

definition layer_step :: "(string \<Rightarrow> string + (metadata \<Rightarrow> bool)) \<Rightarrow> layer_op \<Rightarrow> layer \<Rightarrow> layer" where
  "layer_step try_filter oper s =
     (case oper of
        Call env c \<Rightarrow> run_callback env c s
      | SessionStart args h \<Rightarrow> snd (tracing_start try_filter args h s)
      | SessionStop \<Rightarrow> snd (tracing_stop s)
      | Closed i \<Rightarrow> s\<lparr>ly_spans := (ly_spans s)(i := None)\<rparr>)"

definition layer_run :: "(string \<Rightarrow> string + (metadata \<Rightarrow> bool)) \<Rightarrow> layer_op list \<Rightarrow> layer \<Rightarrow> layer" where
  "layer_run try_filter ops s = fold (layer_step try_filter) ops s"

text \<open>Between operations no thread is inside a callback.\<close>

definition idle :: "layer \<Rightarrow> bool" where
  "idle s \<longleftrightarrow> ly_in_tracing s = (\<lambda>_. False)"

lemma guarded_idle:
  assumes "idle s" "\<And>s. ly_in_tracing (body s) = ly_in_tracing s"
  shows "idle (guarded env body s)"
  using assms by (auto simp: idle_def guarded_def Let_def)

lemma guarded_idle_eq:
  assumes "idle s"
  shows "guarded env body s = (body (s\<lparr>ly_in_tracing := (\<lambda>_. False)(le_thread env := True)\<rparr>))
    \<lparr>ly_in_tracing := (ly_in_tracing (body (s\<lparr>ly_in_tracing := (\<lambda>_. False)(le_thread env := True)\<rparr>)))(le_thread env := False)\<rparr>"
  using assms by (simp add: idle_def guarded_def Let_def)

text \<open>What the callbacks do when no other one is running.\<close>

definition instant_event :: "layer_env \<Rightarrow> metadata \<Rightarrow> labels \<Rightarrow> layer \<Rightarrow> event" where
  "instant_event env md l s = EInstant \<lparr>inst_name = md_name md, inst_timestamp = layer_time env s,
     inst_track_id = Thread (le_thread env) (ly_process_id s), inst_labels = record_str ''target'' (md_target md) l\<rparr>"

lemma layer_reads [simp]:
  "is_active (s\<lparr>ly_in_tracing := g\<rparr>) = is_active s" "is_enabled md (s\<lparr>ly_in_tracing := g\<rparr>) = is_enabled md s"
  "layer_time env (s\<lparr>ly_in_tracing := g\<rparr>) = layer_time env s"
  "span_event env md i d (s\<lparr>ly_in_tracing := g\<rparr>) = span_event env md i d s"
  by (simp_all add: is_active_def is_enabled_def layer_time_def current_clock_def span_event_def)

lemma idle_release: "idle s \<Longrightarrow> s\<lparr>ly_in_tracing := (\<lambda>_. False)\<rparr> = s"
  by (simp add: idle_def)

lemma on_enter_idle:
  assumes "idle s"
  shows "on_enter env i s =
    (if is_active s \<and> le_registry env i \<noteq> None
     then (case ly_spans s i of None \<Rightarrow> s | Some d \<Rightarrow> s\<lparr>ly_spans := (ly_spans s)(i \<mapsto> d\<lparr>sd_start := layer_time env s\<rparr>)\<rparr>)
     else s)"
  using assms by (auto simp: on_enter_def guarded_idle_eq fun_upd_idem idle_release idle_def split: option.split)

lemma on_exit_idle:
  assumes "idle s"
  shows "on_exit env i s =
    (case le_registry env i of
       None \<Rightarrow> s
     | Some md \<Rightarrow> (case ly_spans s i of None \<Rightarrow> s | Some d \<Rightarrow> ext_submit (span_event env md i d s) s))"
  using assms
  by (auto simp: on_exit_def guarded_idle_eq ext_submit_def is_active_def fun_upd_idem idle_release idle_def split: option.split)

lemma on_new_span_idle:
  assumes "idle s"
  shows "on_new_span env md i (record_fields env fs) s =
    (if is_active s \<and> is_enabled md s \<and> le_registry env i \<noteq> None
     then s\<lparr>ly_spans := (ly_spans s)(i \<mapsto> \<lparr>sd_labels = record_str ''target'' (md_target md) (field_labels fs labels_new), sd_start = 0\<rparr>)\<rparr>
     else s)"
  using assms
  by (auto simp: on_new_span_def guarded_idle_eq record_fields_busy fun_upd_idem idle_release idle_def split: option.split)

lemma on_event_idle:
  assumes "idle s"
  shows "on_event env md (record_fields env fs) s =
    (if is_active s \<and> is_enabled md s then ext_submit (instant_event env md (field_labels fs labels_new) s) s else s)"
  using assms
  by (auto simp: on_event_def guarded_idle_eq record_fields_busy ext_submit_def instant_event_def fun_upd_idem idle_release
      idle_def split: option.split)

lemmas callbacks_idle = on_new_span_idle on_event_idle on_enter_idle on_exit_idle

lemma ext_submit_frame [simp]:
  "idle (ext_submit e s) = idle s" "ly_state (ext_submit e s) = ly_state s" "ly_process_id (ext_submit e s) = ly_process_id s"
  "ly_spans (ext_submit e s) = ly_spans s"
  by (simp_all add: ext_submit_def idle_def split: option.split)

lemma idle_spans [simp]: "idle (s\<lparr>ly_spans := m\<rparr>) = idle s"
  by (simp add: idle_def)

lemma run_callback_frame:
  assumes "idle s"
  shows "idle (run_callback env c s) \<and> ly_state (run_callback env c s) = ly_state s \<and>
    ly_process_id (run_callback env c s) = ly_process_id s"
  using assms by (cases c) (simp_all add: callbacks_idle split: option.split)

text \<open>Operations during a session that leave a span alone: neither entered again, nor created anew, nor closed.\<close>

definition leaves_span :: "u64 \<Rightarrow> layer_op \<Rightarrow> bool" where
  "leaves_span i oper =
     (case oper of
        Call env c \<Rightarrow> (case c of NewSpan md j fs \<Rightarrow> j \<noteq> i | Enter j \<Rightarrow> j \<noteq> i | _ \<Rightarrow> True)
      | Closed j \<Rightarrow> j \<noteq> i
      | _ \<Rightarrow> False)"

lemma leaves_span_step:
  assumes "idle s" "leaves_span i oper"
  shows "idle (layer_step tf oper s)" "ly_state (layer_step tf oper s) = ly_state s"
    "ly_process_id (layer_step tf oper s) = ly_process_id s" "ly_spans (layer_step tf oper s) i = ly_spans s i"
proof -
  show "idle (layer_step tf oper s)" "ly_state (layer_step tf oper s) = ly_state s"
    "ly_process_id (layer_step tf oper s) = ly_process_id s"
    using assms by (cases oper; simp add: layer_step_def leaves_span_def run_callback_frame)+
  show "ly_spans (layer_step tf oper s) i = ly_spans s i"
  proof (cases oper)
    case (Call env c)
    with assms show ?thesis
      by (cases c) (simp_all add: layer_step_def leaves_span_def callbacks_idle split: option.split)
  qed (use assms in \<open>simp_all add: layer_step_def leaves_span_def\<close>)
qed

lemma leaves_span_run:
  assumes "idle s" "\<forall>oper \<in> set ops. leaves_span i oper"
  shows "idle (layer_run tf ops s) \<and> ly_state (layer_run tf ops s) = ly_state s \<and>
    ly_process_id (layer_run tf ops s) = ly_process_id s \<and> ly_spans (layer_run tf ops s) i = ly_spans s i"
  using assms
proof (induction ops arbitrary: s)
  case (Cons oper ops)
  have "leaves_span i oper" using Cons.prems by simp
  note step = leaves_span_step [OF Cons.prems(1) this, of tf]
  with Cons.IH [OF step(1)] Cons.prems(2) show ?case
    by (simp add: layer_run_def)
qed (simp add: layer_run_def)



text \<open>The events of the layer need no announced track: they are on tracks of threads.\<close>

lemma layer_step_needs_nothing:
  assumes "idle s" "\<forall>(h, e) \<in> set (ly_submitted s). tracks_needed (MEvent e) = []"
  shows "idle (layer_step tf oper s) \<and> (\<forall>(h, e) \<in> set (ly_submitted (layer_step tf oper s)). tracks_needed (MEvent e) = [])"
proof (cases oper)
  case (Call env c)
  have "tracks_needed (MEvent (span_event env md i d s)) = []" "tracks_needed (MEvent (instant_event env md l s)) = []" for md i d l
    by (simp_all add: span_event_def instant_event_def tracks_needed_def)
  then have "\<forall>(h, e) \<in> set (ly_submitted (run_callback env c s)). tracks_needed (MEvent e) = []"
    using assms by (cases c) (auto simp: callbacks_idle ext_submit_def split: option.split)
  with assms(1) Call show ?thesis by (simp add: layer_step_def run_callback_frame)
qed (use assms in \<open>auto simp: layer_step_def tracing_start_def tracing_stop_def idle_def split: sum.split\<close>)

lemma layer_run_self_contained:
  "\<forall>(h, e) \<in> set (ly_submitted (layer_run tf ops (layer_new pid))). tracks_needed (MEvent e) = []"
proof -
  have "idle s \<and> (\<forall>(h, e) \<in> set (ly_submitted s). tracks_needed (MEvent e) = []) \<Longrightarrow>
      idle (layer_run tf ops s) \<and> (\<forall>(h, e) \<in> set (ly_submitted (layer_run tf ops s)). tracks_needed (MEvent e) = [])" for s
    unfolding layer_run_def
  proof (induction ops arbitrary: s)
    case (Cons oper ops)
    from Cons.IH [OF layer_step_needs_nothing [of s tf oper]] Cons.prems show ?case by simp
  qed simp
  from this [of "layer_new pid"] show ?thesis by (simp add: layer_new_def idle_def)
qed

definition sample_layer_env :: "i64 \<Rightarrow> layer_env" where
  "sample_layer_env ns = \<lparr>le_thread = 7, le_clock = (\<lambda>_. (2, ns)),
     le_registry = [3 \<mapsto> \<lparr>md_name = ''work'', md_target = ''app''\<rparr>]\<rparr>"

definition sample_layer :: "tracing_state option \<Rightarrow> layer" where
  "sample_layer st = (layer_new 5)\<lparr>ly_state := st, ly_spans := [3 \<mapsto> \<lparr>sd_labels = labels_new, sd_start = 0\<rparr>]\<rparr>"

definition sample_tracing :: tracing_state where
  "sample_tracing = \<lparr>clock_id = Monotonic, env_filter = (\<lambda>_. True), trace_handle = 0\<rparr>"

lemma sample_layer_simps [simp]:
  "idle (sample_layer st)" "ly_state (sample_layer st) = st" "ly_submitted (sample_layer st) = []"
  "ly_spans (sample_layer st) 3 = Some \<lparr>sd_labels = labels_new, sd_start = 0\<rparr>" "ly_process_id (sample_layer st) = 5"
  "le_registry (sample_layer_env ns) 3 = Some \<lparr>md_name = ''work'', md_target = ''app''\<rparr>"
  by (simp_all add: sample_layer_def sample_layer_env_def layer_new_def idle_def)



end
