(* ===== verification/Nettrack.thy ===== *)
theory Nettrack
  imports Bpf_Common
begin

text \<open>
  \<^verbatim>\<open>bpf/src/nettrack.rs\<close>: network counters sampled from the kernel's maps. Parameters: the
  results of the library calls (\<open>net_os\<close>), the contents of the maps at each sampling
  (\<open>net_maps\<close>, with the parse errors of the entries), the random numbers (\<open>rng k\<close> is the \<open>k\<close>-th
  one drawn), the clock and the callback. The display of an IPv6 address is \<open>show_v6\<close>.
\<close>

definition AF_INET :: u8 where "AF_INET = 2"
definition AF_INET6 :: u8 where "AF_INET6 = 10"

datatype net_protocol = Tcp | Udp
datatype net_direction = Send | Receive
datatype net_scope = ScHost | ScProcess | ScPeer
datatype net_metric = NmBytes | NmOperations | NmErrors

fun protocol_index :: "net_protocol \<Rightarrow> nat" where
  "protocol_index Tcp = 0" | "protocol_index Udp = 1"

definition protocol_from_index :: "u8 \<Rightarrow> net_protocol option" where
  "protocol_from_index i = (if unat i = 0 then Some Tcp else if unat i = 1 then Some Udp else None)"

fun protocol_name :: "net_protocol \<Rightarrow> string" where
  "protocol_name Tcp = ''tcp''" | "protocol_name Udp = ''udp''"

section \<open>Configuration\<close>

record net_track_config =
  nc_frequency :: u64
  nc_peer_frequency :: u64
  nc_ringbuf :: usize
  nc_scaled :: bool
  nc_protocols :: "net_protocol list"
  nc_directions :: "net_direction list"
  nc_scopes :: "net_scope list"
  nc_metrics :: "net_metric list"
  nc_pid_filters :: "i32 list"
  nc_filter_process :: "string list"
  nc_max_process_entries :: u32
  nc_max_peer_entries :: u32
  nc_max_peer_tracks :: usize

definition default_net_track_config :: net_track_config where
  "default_net_track_config = \<lparr>nc_frequency = 9, nc_peer_frequency = 1, nc_ringbuf = 1024 * 1024, nc_scaled = False,
     nc_protocols = [Tcp, Udp], nc_directions = [Send, Receive], nc_scopes = [ScHost], nc_metrics = [NmBytes],
     nc_pid_filters = [], nc_filter_process = [], nc_max_process_entries = 1024, nc_max_peer_entries = 4096,
     nc_max_peer_tracks = 512\<rparr>"

definition has_protocol :: "net_track_config \<Rightarrow> net_protocol \<Rightarrow> bool" where
  "has_protocol c p \<longleftrightarrow> p \<in> set (nc_protocols c)"
definition has_direction :: "net_track_config \<Rightarrow> net_direction \<Rightarrow> bool" where
  "has_direction c d \<longleftrightarrow> d \<in> set (nc_directions c)"
definition has_scope :: "net_track_config \<Rightarrow> net_scope \<Rightarrow> bool" where
  "has_scope c s \<longleftrightarrow> s \<in> set (nc_scopes c)"
definition has_metric :: "net_track_config \<Rightarrow> net_metric \<Rightarrow> bool" where
  "has_metric c m \<longleftrightarrow> m \<in> set (nc_metrics c)"

definition net_validate :: "net_track_config \<Rightarrow> bpf_error + unit" where
  "net_validate c =
     (if nc_frequency c = 0 then Inl (LoadError ''nettrack frequency must be greater than zero'')
      else if has_scope c ScPeer \<and> nc_peer_frequency c = 0
        then Inl (LoadError ''nettrack peer_frequency must be greater than zero'')
      else if nc_protocols c = [] \<or> nc_directions c = [] \<or> nc_scopes c = [] \<or> nc_metrics c = []
        then Inl (LoadError ''nettrack protocols, directions, scopes, and metrics must not be empty'')
      else if has_scope c ScProcess \<and> nc_max_process_entries c = 0
        then Inl (LoadError ''nettrack max_process_entries must be greater than zero'')
      else if has_scope c ScPeer \<and> (nc_max_peer_entries c = 0 \<or> nc_max_peer_tracks c = 0)
        then Inl (LoadError ''nettrack peer entry and track limits must be greater than zero'')
      else Inr ())"

section \<open>Statistics\<close>

record stats_value =
  send_bytes :: u64
  recv_bytes :: u64
  send_operations :: u64
  recv_operations :: u64
  send_errors :: u64
  recv_errors :: u64
  send_would_block :: u64
  recv_would_block :: u64
  tcp_recv_eof :: u64
  udp_recv_truncated :: u64
  first_seen_ns :: u64
  last_seen_ns :: u64

definition stats_default :: stats_value where
  "stats_default = \<lparr>send_bytes = 0, recv_bytes = 0, send_operations = 0, recv_operations = 0, send_errors = 0,
     recv_errors = 0, send_would_block = 0, recv_would_block = 0, tcp_recv_eof = 0, udp_recv_truncated = 0,
     first_seen_ns = 0, last_seen_ns = 0\<rparr>"

definition accumulate :: "stats_value \<Rightarrow> stats_value \<Rightarrow> stats_value" where
  "accumulate s t =
     \<lparr>send_bytes = saturating_add (send_bytes s) (send_bytes t),
      recv_bytes = saturating_add (recv_bytes s) (recv_bytes t),
      send_operations = saturating_add (send_operations s) (send_operations t),
      recv_operations = saturating_add (recv_operations s) (recv_operations t),
      send_errors = saturating_add (send_errors s) (send_errors t),
      recv_errors = saturating_add (recv_errors s) (recv_errors t),
      send_would_block = saturating_add (send_would_block s) (send_would_block t),
      recv_would_block = saturating_add (recv_would_block s) (recv_would_block t),
      tcp_recv_eof = saturating_add (tcp_recv_eof s) (tcp_recv_eof t),
      udp_recv_truncated = saturating_add (udp_recv_truncated s) (udp_recv_truncated t),
      first_seen_ns = (if first_seen_ns s = 0 \<or> first_seen_ns t \<noteq> 0 \<and> first_seen_ns t < first_seen_ns s
                       then first_seen_ns t else first_seen_ns s),
      last_seen_ns = max (last_seen_ns s) (last_seen_ns t)\<rparr>"

definition delta :: "stats_value \<Rightarrow> stats_value option \<Rightarrow> stats_value" where
  "delta s prev =
     (case prev of
        None \<Rightarrow> s
      | Some p \<Rightarrow>
          if first_seen_ns p \<noteq> first_seen_ns s then s
          else \<lparr>send_bytes = saturating_sub (send_bytes s) (send_bytes p),
                recv_bytes = saturating_sub (recv_bytes s) (recv_bytes p),
                send_operations = saturating_sub (send_operations s) (send_operations p),
                recv_operations = saturating_sub (recv_operations s) (recv_operations p),
                send_errors = saturating_sub (send_errors s) (send_errors p),
                recv_errors = saturating_sub (recv_errors s) (recv_errors p),
                send_would_block = saturating_sub (send_would_block s) (send_would_block p),
                recv_would_block = saturating_sub (recv_would_block s) (recv_would_block p),
                tcp_recv_eof = saturating_sub (tcp_recv_eof s) (tcp_recv_eof p),
                udp_recv_truncated = saturating_sub (udp_recv_truncated s) (udp_recv_truncated p),
                first_seen_ns = first_seen_ns s, last_seen_ns = last_seen_ns s\<rparr>)"

record process_key =
  pk_tgid :: u32
  pk_protocol :: u8

record peer_key =
  peer_tgid :: u32
  peer_protocol :: u8
  peer_family :: u8
  peer_local_port :: u16
  peer_remote_port :: u16
  peer_remote_addr :: "u8 list"

datatype ip_addr = V4 u8 u8 u8 u8 | V6 "u8 list"

definition peer_key_protocol :: "peer_key \<Rightarrow> net_protocol option" where
  "peer_key_protocol k = protocol_from_index (peer_protocol k)"

definition remote_ip :: "peer_key \<Rightarrow> ip_addr option" where
  "remote_ip k =
     (if peer_family k = AF_INET
      then Some (V4 (peer_remote_addr k ! 0) (peer_remote_addr k ! 1) (peer_remote_addr k ! 2) (peer_remote_addr k ! 3))
      else if peer_family k = AF_INET6 then Some (V6 (peer_remote_addr k))
      else None)"

definition peer_track_name :: "(u8 list \<Rightarrow> string) \<Rightarrow> peer_key \<Rightarrow> string" where
  "peer_track_name show_v6 k =
     (let proto = (case peer_key_protocol k of Some p \<Rightarrow> protocol_name p | None \<Rightarrow> ''network'');
          port = show_nat (unat (peer_remote_port k))
      in case remote_ip k of
           Some (V4 a b c d) \<Rightarrow> proto @ '' '' @ show_nat (unat a) @ ''.'' @ show_nat (unat b) @ ''.'' @
              show_nat (unat c) @ ''.'' @ show_nat (unat d) @ '':'' @ port
         | Some (V6 bs) \<Rightarrow> proto @ '' ['' @ show_v6 bs @ '']:'' @ port
         | None \<Rightarrow> proto @ '' unknown-peer'')"

datatype scope_key = KHost | KProcess u32 | KPeer peer_key

datatype counter_kind =
    SendBytes | RecvBytes | SendOperations | RecvOperations | SendErrors | RecvErrors
  | SendWouldBlock | RecvWouldBlock | TcpRecvEof | UdpRecvTruncated | TotalSendBytes | TotalRecvBytes

record series_key =
  sk_scope :: scope_key
  sk_protocol :: net_protocol
  sk_kind :: counter_kind

record counter_sample =
  cs_kind :: counter_kind
  cs_name :: string
  cs_value :: f64_bits
  cs_unit :: string

section \<open>The tracker\<close>

record net_track =
  nt_config :: net_track_config
  last_sample_ns :: u64
  last_peer_sample_ns :: u64
  global_previous :: "net_protocol \<Rightarrow> stats_value"
  process_previous :: "process_key \<Rightarrow> stats_value option"
  peer_previous :: "peer_key \<Rightarrow> stats_value option"
  series_ids :: "series_key \<Rightarrow> u64 option"
  submitted_tracks :: "track_id \<Rightarrow> bool"
  peer_track_ids :: "(peer_key \<times> u64) list"
  nt_draws :: nat
  nt_log :: "message list"

text \<open>Loading the programs: what is configured in the kernel, and every call that can fail.\<close>

record net_os =
  os_open :: "string option"
  os_size_process :: "u32 \<Rightarrow> string option"
  os_size_peer :: "u32 \<Rightarrow> string option"
  os_load :: "string option"
  os_update :: "u32 \<Rightarrow> string option"
  os_attach :: "string option"

record net_rodata =
  tcp_enabled :: bool
  udp_enabled :: bool
  send_enabled :: bool
  receive_enabled :: bool
  host_enabled :: bool
  process_enabled :: bool
  peer_enabled :: bool
  bytes_enabled :: bool
  operations_enabled :: bool
  errors_enabled :: bool
  filter_enabled :: bool

definition net_rodata_of :: "net_track_config \<Rightarrow> net_rodata" where
  "net_rodata_of c = \<lparr>tcp_enabled = has_protocol c Tcp, udp_enabled = has_protocol c Udp,
     send_enabled = has_direction c Send, receive_enabled = has_direction c Receive,
     host_enabled = has_scope c ScHost, process_enabled = has_scope c ScProcess, peer_enabled = has_scope c ScPeer,
     bytes_enabled = has_metric c NmBytes, operations_enabled = has_metric c NmOperations,
     errors_enabled = has_metric c NmErrors, filter_enabled = (nc_pid_filters c \<noteq> [] \<or> nc_filter_process c \<noteq> [])\<rparr>"

text \<open>Which of the four programs are loaded: TCP send, TCP receive, UDP send, UDP receive.\<close>

definition net_autoload :: "net_track_config \<Rightarrow> bool \<times> bool \<times> bool \<times> bool" where
  "net_autoload c =
     (has_protocol c Tcp \<and> has_direction c Send, has_protocol c Tcp \<and> has_direction c Receive,
      has_protocol c Udp \<and> has_direction c Send, has_protocol c Udp \<and> has_direction c Receive)"

fun add_filters :: "net_os \<Rightarrow> i32 list \<Rightarrow> u32 list \<Rightarrow> bpf_error + u32 list" where
  "add_filters os [] tracked = Inr tracked"
| "add_filters os (pid # pids) tracked =
     (case u32_try_from pid of
        None \<Rightarrow> Inl (LoadError (''nettrack PID filter must be positive: -'' @ show_nat (nat (- sint pid))))
      | Some p \<Rightarrow>
          (case os_update os p of
             Some e \<Rightarrow> Inl (MapError (''failed to add PID filter: '' @ e))
           | None \<Rightarrow> add_filters os pids (tracked @ [p])))"

definition net_track_new ::
  "net_os \<Rightarrow> u64 \<Rightarrow> net_track_config \<Rightarrow> bpf_error + (net_track \<times> net_rodata \<times> (bool \<times> bool \<times> bool \<times> bool) \<times> u32 list)" where
  "net_track_new os now c =
     (let process_entries = (if has_scope c ScProcess then nc_max_process_entries c else 1);
          peer_entries = (if has_scope c ScPeer then nc_max_peer_entries c else 1)
      in case os_open os of Some e \<Rightarrow> Inl (LoadError (''failed to open bpf skeleton: '' @ e)) | None \<Rightarrow>
         case os_size_process os process_entries of Some e \<Rightarrow> Inl (LoadError (''failed to size process map: '' @ e)) | None \<Rightarrow>
         case os_size_peer os peer_entries of Some e \<Rightarrow> Inl (LoadError (''failed to size peer map: '' @ e)) | None \<Rightarrow>
         case os_load os of Some e \<Rightarrow> Inl (LoadError (''failed to load bpf program: '' @ e)) | None \<Rightarrow>
         case add_filters os (nc_pid_filters c) [] of Inl e \<Rightarrow> Inl e | Inr tracked \<Rightarrow>
         case os_attach os of Some e \<Rightarrow> Inl (AttachError (''failed to attach bpf programs: '' @ e)) | None \<Rightarrow>
         Inr (\<lparr>nt_config = c, last_sample_ns = now, last_peer_sample_ns = now,
               global_previous = (\<lambda>_. stats_default), process_previous = Map.empty, peer_previous = Map.empty,
               series_ids = Map.empty, submitted_tracks = (\<lambda>_. False), peer_track_ids = [], nt_draws = 0,
               nt_log = []\<rparr>, net_rodata_of c, net_autoload c, tracked))"

definition net_build ::
  "net_os \<Rightarrow> u64 \<Rightarrow> net_track_config \<Rightarrow> bpf_error + (net_track \<times> net_rodata \<times> (bool \<times> bool \<times> bool \<times> bool) \<times> u32 list)" where
  "net_build os now c = (case net_validate c of Inl e \<Rightarrow> Inl e | Inr _ \<Rightarrow> net_track_new os now c)"

definition net_filter :: "net_os \<Rightarrow> i32 \<Rightarrow> bpf_error + u32" where
  "net_filter os pid =
     (case u32_try_from pid of
        None \<Rightarrow> Inl (MapError (''invalid PID filter: -'' @ show_nat (nat (- sint pid))))
      | Some p \<Rightarrow> (case os_update os p of Some e \<Rightarrow> Inl (MapError (''failed to add PID filter: '' @ e)) | None \<Rightarrow> Inr p))"

section \<open>Sampling\<close>

definition f64_per_second :: "f64_bits \<Rightarrow> f64_bits \<Rightarrow> f64_bits" where
  "f64_per_second v elapsed = f64_div (f64_mul v (f64_of_u64 8)) elapsed"

definition elapsed_seconds :: "u64 \<Rightarrow> u64 \<Rightarrow> f64_bits" where
  "elapsed_seconds now before = f64_div (f64_of_u64 (max (saturating_sub now before) 1)) (f64_of_u64 NS_PER_SEC)"

definition count_sample :: "counter_kind \<Rightarrow> string \<Rightarrow> u64 \<Rightarrow> counter_sample" where
  "count_sample k name v = \<lparr>cs_kind = k, cs_name = name, cs_value = f64_of_u64 v, cs_unit = ''count''\<rparr>"

definition bytes_samples ::
  "net_track_config \<Rightarrow> counter_kind \<Rightarrow> counter_kind \<Rightarrow> string \<Rightarrow> u64 \<Rightarrow> u64 \<Rightarrow> f64_bits \<Rightarrow> counter_sample list" where
  "bytes_samples c ks kr prefix sent received elapsed =
     (if nc_scaled c
      then [\<lparr>cs_kind = ks, cs_name = prefix @ ''_send_rate'', cs_value = f64_per_second (f64_of_u64 sent) elapsed,
             cs_unit = ''bits/s''\<rparr>,
            \<lparr>cs_kind = kr, cs_name = prefix @ ''_recv_rate'', cs_value = f64_per_second (f64_of_u64 received) elapsed,
             cs_unit = ''bits/s''\<rparr>]
      else [\<lparr>cs_kind = ks, cs_name = prefix @ ''_send'', cs_value = f64_of_u64 sent, cs_unit = ''bytes''\<rparr>,
            \<lparr>cs_kind = kr, cs_name = prefix @ ''_recv'', cs_value = f64_of_u64 received, cs_unit = ''bytes''\<rparr>])"

definition samples_for :: "net_track_config \<Rightarrow> net_protocol \<Rightarrow> stats_value \<Rightarrow> f64_bits \<Rightarrow> counter_sample list" where
  "samples_for c proto st elapsed =
     (let prefix = protocol_name proto;
          operation = (if proto = Udp then ''datagrams'' else ''calls'')
      in (if has_metric c NmBytes
          then bytes_samples c SendBytes RecvBytes prefix (send_bytes st) (recv_bytes st) elapsed else []) @
         (if has_metric c NmOperations
          then [count_sample SendOperations (prefix @ ''_send_'' @ operation) (send_operations st),
                count_sample RecvOperations (prefix @ ''_recv_'' @ operation) (recv_operations st),
                (if proto = Tcp then count_sample TcpRecvEof ''tcp_recv_eof'' (tcp_recv_eof st)
                 else count_sample UdpRecvTruncated ''udp_recv_truncated'' (udp_recv_truncated st))] else []) @
         (if has_metric c NmErrors
          then [count_sample SendErrors (prefix @ ''_send_errors'') (send_errors st),
                count_sample RecvErrors (prefix @ ''_recv_errors'') (recv_errors st),
                count_sample SendWouldBlock (prefix @ ''_send_would_block'') (send_would_block st),
                count_sample RecvWouldBlock (prefix @ ''_recv_would_block'') (recv_would_block st)] else []))"

record net_io =
  io_cb :: "nat \<Rightarrow> i32"
  io_rng :: "nat \<Rightarrow> u64"
  io_show_v6 :: "u8 list \<Rightarrow> string"

definition net_call :: "net_io \<Rightarrow> event \<Rightarrow> net_track \<Rightarrow> i32 \<times> net_track" where
  "net_call io e n = (case call (io_cb io) (MEvent e) (nt_log n) of (r, log) \<Rightarrow> (r, n\<lparr>nt_log := log\<rparr>))"

definition net_draw :: "net_io \<Rightarrow> net_track \<Rightarrow> u64 \<times> net_track" where
  "net_draw io n = (io_rng io (nt_draws n), n\<lparr>nt_draws := Suc (nt_draws n)\<rparr>)"

definition ensure_peer_track :: "net_io \<Rightarrow> peer_key \<Rightarrow> net_track \<Rightarrow> u64 option \<times> net_track" where
  "ensure_peer_track io key n =
     (case map_of (peer_track_ids n) key of
        Some i \<Rightarrow> (Some i, n)
      | None \<Rightarrow>
          if unat (nc_max_peer_tracks (nt_config n)) \<le> length (peer_track_ids n) then (None, n)
          else let (i, n1) = net_draw io n;
                   (r, n2) = net_call io (ETrack \<lparr>trk_name = peer_track_name (io_show_v6 io) key,
                      trk_type = TyCustom i, trk_parent = Some (TyProcess (peer_tgid key))\<rparr>) n1
               in if r \<noteq> 0 then (None, n2)
                  else (Some i, n2\<lparr>peer_track_ids := peer_track_ids n2 @ [(key, i)]\<rparr>))"

definition series_id :: "net_io \<Rightarrow> series_key \<Rightarrow> net_track \<Rightarrow> u64 \<times> net_track" where
  "series_id io sk n =
     (case series_ids n sk of
        Some i \<Rightarrow> (i, n)
      | None \<Rightarrow> let (i, n1) = net_draw io n in (i, n1\<lparr>series_ids := (series_ids n1)(sk \<mapsto> i)\<rparr>))"

definition sample_parent :: "net_io \<Rightarrow> scope_key \<Rightarrow> net_track \<Rightarrow> track_type option option \<times> net_track" where
  "sample_parent io scope n =
     (case scope of
        KHost \<Rightarrow> (Some None, n)
      | KProcess tgid \<Rightarrow> (Some (Some (TyProcess tgid)), n)
      | KPeer key \<Rightarrow>
          (case ensure_peer_track io key n of
             (None, n1) \<Rightarrow> (None, n1)
           | (Some i, n1) \<Rightarrow> (Some (Some (TyCustom i)), n1)))"

definition emit_sample :: "net_io \<Rightarrow> scope_key \<Rightarrow> net_protocol \<Rightarrow> counter_sample \<Rightarrow> u64 \<Rightarrow> net_track \<Rightarrow> i32 \<times> net_track" where
  "emit_sample io scope proto smp ts n =
     (case sample_parent io scope n of
        (None, n1) \<Rightarrow> (0, n1)
      | (Some parent, n1) \<Rightarrow>
          let (i, n2) = series_id io \<lparr>sk_scope = scope, sk_protocol = proto, sk_kind = cs_kind smp\<rparr> n1;
              t = CounterId i;
              fresh = (\<not> submitted_tracks n2 t);
              n3 = n2\<lparr>submitted_tracks := (submitted_tracks n2)(t := True)\<rparr>;
              (r, n4) = (if fresh
                         then net_call io (ETrack \<lparr>trk_name = cs_name smp,
                                trk_type = TyCounter i (Some (cs_unit smp)), trk_parent = parent\<rparr>) n3
                         else (0, n3))
          in if r \<noteq> 0 then (r, n4)
             else net_call io (ECounter \<lparr>ctr_name = cs_name smp, ctr_value = cs_value smp, ctr_timestamp = ts,
                    ctr_track_id = t, ctr_labels = labels_new, ctr_unit = Some (cs_unit smp)\<rparr>) n4)"

fun emit_samples :: "net_io \<Rightarrow> scope_key \<Rightarrow> net_protocol \<Rightarrow> u64 \<Rightarrow> counter_sample list \<Rightarrow> net_track \<Rightarrow> i32 \<times> net_track" where
  "emit_samples io scope proto ts [] n = (0, n)"
| "emit_samples io scope proto ts (s # ss) n =
     (case emit_sample io scope proto s ts n of (r, n1) \<Rightarrow>
        if r \<noteq> 0 then (r, n1) else emit_samples io scope proto ts ss n1)"

definition emit_stats ::
  "net_io \<Rightarrow> scope_key \<Rightarrow> net_protocol \<Rightarrow> stats_value \<Rightarrow> f64_bits \<Rightarrow> u64 \<Rightarrow> net_track \<Rightarrow> i32 \<times> net_track" where
  "emit_stats io scope proto st elapsed ts n =
     emit_samples io scope proto ts (samples_for (nt_config n) proto st elapsed) n"

text \<open>The maps at the time of a sampling: per-CPU host values, and the entries of the process and peer maps.\<close>

record net_maps =
  map_global :: "net_protocol \<Rightarrow> string + (string + stats_value) list"
  map_processes :: "string + (string + process_key \<times> stats_value) list"
  map_peers :: "string + (string + peer_key \<times> stats_value) list"

text \<open>A parse error \<open>e\<close> says what could not be parsed and why.\<close>

definition parse_error :: "string \<Rightarrow> bpf_error" where
  "parse_error e = MapError (''failed to parse '' @ e)"

definition read_global :: "net_maps \<Rightarrow> net_protocol \<Rightarrow> bpf_error + stats_value" where
  "read_global mp proto =
     (case map_global mp proto of
        Inl e \<Rightarrow> Inl (MapError (''failed to read host network map: '' @ e))
      | Inr vs \<Rightarrow>
          (case collect_results (map (\<lambda>v. case v of Inl e \<Rightarrow> Inl (parse_error e) | Inr s \<Rightarrow> Inr s) vs) of
             Inl e \<Rightarrow> Inl e | Inr ss \<Rightarrow> Inr (fold (\<lambda>s t. accumulate t s) ss stats_default)))"

definition read_processes :: "net_maps \<Rightarrow> bpf_error + (process_key \<times> stats_value) list" where
  "read_processes mp =
     (case map_processes mp of
        Inl e \<Rightarrow> Inl (MapError (''failed to read process network map: '' @ e))
      | Inr vs \<Rightarrow> collect_results (map (\<lambda>v. case v of Inl e \<Rightarrow> Inl (parse_error e) | Inr x \<Rightarrow> Inr x) vs))"

definition read_peers :: "net_maps \<Rightarrow> bpf_error + (peer_key \<times> stats_value) list" where
  "read_peers mp =
     (case map_peers mp of
        Inl e \<Rightarrow> Inl (MapError (''failed to read peer network map: '' @ e))
      | Inr vs \<Rightarrow> collect_results (map (\<lambda>v. case v of Inl e \<Rightarrow> Inl (parse_error e) | Inr x \<Rightarrow> Inr x) vs))"

text \<open>The host loop returns the accumulated delta; a callback that fails ends it.\<close>

fun sample_host ::
  "net_io \<Rightarrow> net_maps \<Rightarrow> f64_bits \<Rightarrow> u64 \<Rightarrow> net_protocol list \<Rightarrow> stats_value \<Rightarrow> net_track
   \<Rightarrow> (bpf_error + stats_value) \<times> net_track" where
  "sample_host io mp elapsed now [] host_delta n = (Inr host_delta, n)"
| "sample_host io mp elapsed now (p # ps) host_delta n =
     (if \<not> has_protocol (nt_config n) p then sample_host io mp elapsed now ps host_delta n
      else case read_global mp p of
             Inl e \<Rightarrow> (Inl e, n)
           | Inr current \<Rightarrow>
               let d = delta current (Some (global_previous n p));
                   host' = accumulate host_delta d;
                   n1 = n\<lparr>global_previous := (global_previous n)(p := current)\<rparr>;
                   (r, n2) = emit_stats io KHost p d elapsed now n1
               in if r \<noteq> 0 then (Inr host', n2) else sample_host io mp elapsed now ps host' n2)"

fun sample_processes ::
  "net_io \<Rightarrow> f64_bits \<Rightarrow> u64 \<Rightarrow> (process_key \<times> stats_value) list \<Rightarrow> net_track \<Rightarrow> net_track" where
  "sample_processes io elapsed now [] n = n"
| "sample_processes io elapsed now ((k, current) # es) n =
     (case protocol_from_index (pk_protocol k) of
        None \<Rightarrow> sample_processes io elapsed now es n
      | Some p \<Rightarrow>
          let d = delta current (process_previous n k);
              n1 = n\<lparr>process_previous := (process_previous n)(k \<mapsto> current)\<rparr>;
              (r, n2) = emit_stats io (KProcess (pk_tgid k)) p d elapsed now n1
          in if r \<noteq> 0 then n2 else sample_processes io elapsed now es n2)"

definition sample_host_and_processes :: "net_io \<Rightarrow> net_maps \<Rightarrow> u64 \<Rightarrow> net_track \<Rightarrow> (bpf_error + unit) \<times> net_track" where
  "sample_host_and_processes io mp now n =
     (let elapsed = elapsed_seconds now (last_sample_ns n);
          host = (if has_scope (nt_config n) ScHost
                  then case sample_host io mp elapsed now [Tcp, Udp] stats_default n of
                         (Inl e, n1) \<Rightarrow> (Inl e, n1)
                       | (Inr d, n1) \<Rightarrow>
                           if has_metric (nt_config n1) NmBytes
                           then (Inr (), snd (emit_samples io KHost Tcp now
                                  (bytes_samples (nt_config n1) TotalSendBytes TotalRecvBytes ''total''
                                     (send_bytes d) (recv_bytes d) elapsed) n1))
                           else (Inr (), n1)
                  else (Inr (), n))
      in case host of
           (Inl e, n1) \<Rightarrow> (Inl e, n1)
         | (Inr _, n1) \<Rightarrow>
             if has_scope (nt_config n1) ScProcess
             then (case read_processes mp of
                     Inl e \<Rightarrow> (Inl e, n1)
                   | Inr es \<Rightarrow> (Inr (), (sample_processes io elapsed now es n1)\<lparr>last_sample_ns := now\<rparr>))
             else (Inr (), n1\<lparr>last_sample_ns := now\<rparr>))"

fun sample_peer_entries ::
  "net_io \<Rightarrow> f64_bits \<Rightarrow> u64 \<Rightarrow> (peer_key \<times> stats_value) list \<Rightarrow> net_track \<Rightarrow> net_track" where
  "sample_peer_entries io elapsed now [] n = n"
| "sample_peer_entries io elapsed now ((k, current) # es) n =
     (case peer_key_protocol k of
        None \<Rightarrow> sample_peer_entries io elapsed now es n
      | Some p \<Rightarrow>
          let d = delta current (peer_previous n k);
              n1 = n\<lparr>peer_previous := (peer_previous n)(k \<mapsto> current)\<rparr>;
              (r, n2) = emit_stats io (KPeer k) p d elapsed now n1
          in if r \<noteq> 0 then n2 else sample_peer_entries io elapsed now es n2)"

definition sample_peers :: "net_io \<Rightarrow> net_maps \<Rightarrow> u64 \<Rightarrow> net_track \<Rightarrow> (bpf_error + unit) \<times> net_track" where
  "sample_peers io mp now n =
     (let elapsed = elapsed_seconds now (last_peer_sample_ns n)
      in case read_peers mp of
           Inl e \<Rightarrow> (Inl e, n)
         | Inr es \<Rightarrow> (Inr (), (sample_peer_entries io elapsed now es n)\<lparr>last_peer_sample_ns := now\<rparr>))"

text \<open>
  One call of \<open>poll\<close>, \<open>consume\<close> (\<open>force = False\<close>) or \<open>flush\<close> (\<open>force = True\<close>) at time \<open>now\<close>. The divisions
  cannot fail for a validated configuration.
\<close>

definition net_sample_if_due :: "net_io \<Rightarrow> net_maps \<Rightarrow> u64 \<Rightarrow> bool \<Rightarrow> net_track \<Rightarrow> (bpf_error + unit) \<times> net_track" where
  "net_sample_if_due io mp now force n =
     (let interval = NS_PER_SEC div nc_frequency (nt_config n);
          host = (if force \<or> interval \<le> saturating_sub now (last_sample_ns n)
                  then sample_host_and_processes io mp now n else (Inr (), n))
      in case host of
           (Inl e, n1) \<Rightarrow> (Inl e, n1)
         | (Inr _, n1) \<Rightarrow>
             if has_scope (nt_config n1) ScPeer \<and>
                (force \<or> NS_PER_SEC div nc_peer_frequency (nt_config n1) \<le> saturating_sub now (last_peer_sample_ns n1))
             then sample_peers io mp now n1 else (Inr (), n1))"
section \<open>Announcements and limits\<close>

definition net_ok :: "message list \<Rightarrow> net_track_config \<Rightarrow> net_track \<Rightarrow> bool" where
  "net_ok base c n \<longleftrightarrow> nt_config n = c \<and> log_grows base (nt_log n) \<and> announced_first (nt_log n) \<and>
     (\<forall>i. announcements (CounterId i) (nt_log n) = (if submitted_tracks n (CounterId i) then 1 else 0)) \<and>
     (\<forall>i \<in> snd ` set (peer_track_ids n). \<exists>m \<in> set (nt_log n). announces m (Custom i)) \<and>
     length (peer_track_ids n) \<le> unat (nc_max_peer_tracks c) \<and> distinct (map fst (peer_track_ids n))"

lemma net_call_eq: "net_call io e n = (io_cb io (length (nt_log n)), n\<lparr>nt_log := nt_log n @ [MEvent e]\<rparr>)"
  by (simp add: net_call_def call_def)

lemma net_ok_draw: "net_ok base c n \<Longrightarrow> net_ok base c (snd (net_draw io n))"
  by (simp add: net_ok_def net_draw_def)

lemma net_ok_peer_track: "net_ok base c n \<Longrightarrow> net_ok base c (snd (ensure_peer_track io key n))"
  by (auto simp: ensure_peer_track_def net_draw_def net_call_eq net_ok_def announced_first_snoc map_of_eq_None_iff
      split: option.splits)

lemma peer_track_announced:
  "\<lbrakk>net_ok base c n; ensure_peer_track io key n = (Some i, n')\<rbrakk> \<Longrightarrow> \<exists>m \<in> set (nt_log n'). announces m (Custom i)"
  by (force simp: ensure_peer_track_def net_draw_def net_call_eq net_ok_def dest: map_of_SomeD
      split: option.splits if_splits)

lemma net_ok_parent: "net_ok base c n \<Longrightarrow> net_ok base c (snd (sample_parent io scope n))"
  using net_ok_peer_track [of base c n io]
  by (auto simp: sample_parent_def split: scope_key.splits prod.splits option.splits) (metis snd_conv)+

lemma sample_parent_ready:
  "\<lbrakk>net_ok base c n; sample_parent io scope n = (Some p, n')\<rbrakk> \<Longrightarrow> parent_ready p (nt_log n')"
  using peer_track_announced [of base c n io]
  by (auto simp: sample_parent_def split: scope_key.splits prod.splits option.splits)

lemma net_ok_series: "net_ok base c n \<Longrightarrow> net_ok base c (snd (series_id io sk n))"
  by (auto simp: series_id_def net_draw_def net_ok_def split: option.splits)

text \<open>Announcing a counter's track if it is new, and emitting a value on a known one.\<close>

lemma net_ok_announce:
  assumes "net_ok base c n" "\<not> submitted_tracks n (CounterId i)" "parent_ready p (nt_log n)"
  shows "net_ok base c (n\<lparr>submitted_tracks := (submitted_tracks n)(CounterId i := True),
    nt_log := nt_log n @ [MEvent (ETrack \<lparr>trk_name = nm, trk_type = TyCounter i u, trk_parent = p\<rparr>)]\<rparr>)"
  using assms by (auto simp: net_ok_def announced_first_track)

lemma net_ok_value:
  assumes "net_ok base c n" "submitted_tracks n (CounterId i)"
  shows "net_ok base c (n\<lparr>nt_log := nt_log n @ [MEvent (ECounter \<lparr>ctr_name = nm, ctr_value = v, ctr_timestamp = ts,
    ctr_track_id = CounterId i, ctr_labels = l, ctr_unit = un\<rparr>)]\<rparr>)"
proof -
  have "announcements (CounterId i) (nt_log n) = 1" using assms by (simp add: net_ok_def)
  then have "\<exists>m \<in> set (nt_log n). announces m (CounterId i)" using announcements_pos [of "CounterId i" "nt_log n"] by simp
  with assms(1) show ?thesis by (simp add: net_ok_def announced_first_snoc)
qed

lemma net_ok_emit_sample: "net_ok base c n \<Longrightarrow> net_ok base c (snd (emit_sample io scope proto smp ts n))"
proof -
  assume ok: "net_ok base c n"
  obtain parent n1 where p: "sample_parent io scope n = (parent, n1)" by fastforce
  have n1: "net_ok base c n1" using net_ok_parent [OF ok, of io scope] p by simp
  show ?thesis
  proof (cases parent)
    case None
    with p n1 show ?thesis by (simp add: emit_sample_def)
  next
    case (Some par)
    let ?sk = "\<lparr>sk_scope = scope, sk_protocol = proto, sk_kind = cs_kind smp\<rparr>"
    obtain i n2 where s: "series_id io ?sk n1 = (i, n2)" by fastforce
    have n2: "net_ok base c n2" using net_ok_series [OF n1, of io ?sk] s by simp
    have "parent_ready par (nt_log n1)" using sample_parent_ready [OF ok, of io scope par n1] p Some by simp
    moreover have "nt_log n2 = nt_log n1" using s by (auto simp: series_id_def net_draw_def split: option.splits)
    ultimately have ready: "parent_ready par (nt_log n2)" by simp
    show ?thesis
    proof (cases "submitted_tracks n2 (CounterId i)")
      case True
      then have "(submitted_tracks n2)(CounterId i := True) = submitted_tracks n2" by (intro fun_upd_idem) simp
      then show ?thesis
        using net_ok_value [OF n2 True] by (simp add: emit_sample_def p Some s net_call_eq True Let_def del: fun_upd_apply)
    next
      case False
      note n4 = net_ok_announce [OF n2 False ready, of "cs_name smp" "Some (cs_unit smp)"]
      show ?thesis
        using n4 net_ok_value [OF n4, of i] by (simp add: emit_sample_def p Some s net_call_eq False Let_def del: append_assoc)
    qed
  qed
qed

lemma net_ok_emit_samples: "net_ok base c n \<Longrightarrow> net_ok base c (snd (emit_samples io scope proto ts ss n))"
proof (induction ss arbitrary: n)
  case (Cons s ss)
  have "net_ok base c (snd (emit_sample io scope proto s ts n))" by (rule net_ok_emit_sample [OF Cons.prems])
  with Cons.IH show ?case by (cases "emit_sample io scope proto s ts n") simp
qed simp

lemma net_ok_emit_stats: "net_ok base c n \<Longrightarrow> net_ok base c (snd (emit_stats io scope proto st el ts n))"
  by (simp add: emit_stats_def net_ok_emit_samples)
lemma net_ok_frame:
  assumes "net_ok base c n" "nt_config n' = nt_config n" "nt_log n' = nt_log n"
    "submitted_tracks n' = submitted_tracks n" "peer_track_ids n' = peer_track_ids n"
  shows "net_ok base c n'"
  using assms by (simp add: net_ok_def)

lemma net_ok_host: "net_ok base c n \<Longrightarrow> net_ok base c (snd (sample_host io mp el now ps d n))"
proof (induction ps arbitrary: d n)
  case (Cons p ps)
  show ?case
  proof (cases "has_protocol (nt_config n) p")
    case True
    show ?thesis
    proof (cases "read_global mp p")
      case (Inr current)
      let ?d = "delta current (Some (global_previous n p))"
      let ?n1 = "n\<lparr>global_previous := (global_previous n)(p := current)\<rparr>"
      obtain r n2 where e: "emit_stats io KHost p ?d el now ?n1 = (r, n2)" by fastforce
      have "net_ok base c ?n1" by (rule net_ok_frame [OF Cons.prems]) simp_all
      then have "net_ok base c n2" using net_ok_emit_stats [of base c ?n1 io KHost p ?d el now] e by simp
      with Cons.IH show ?thesis using True Inr e by (simp add: Let_def)
    qed (use Cons.prems True in simp)
  qed (use Cons in simp)
qed simp

lemma net_ok_processes: "net_ok base c n \<Longrightarrow> net_ok base c (sample_processes io el now es n)"
proof (induction io el now es n rule: sample_processes.induct)
  case (2 io el now k current es n)
  show ?case
  proof (cases "protocol_from_index (pk_protocol k)")
    case (Some p)
    let ?d = "delta current (process_previous n k)"
    let ?n1 = "n\<lparr>process_previous := (process_previous n)(k \<mapsto> current)\<rparr>"
    obtain r n2 where e: "emit_stats io (KProcess (pk_tgid k)) p ?d el now ?n1 = (r, n2)" by fastforce
    have "net_ok base c ?n1" by (rule net_ok_frame [OF 2(3)]) simp_all
    then have "net_ok base c n2" using net_ok_emit_stats [of base c ?n1 io "KProcess (pk_tgid k)" p ?d el now] e by simp
    with 2(2) [OF Some refl refl e [symmetric] refl] Some e show ?thesis by (simp add: Let_def)
  qed (use 2 in simp)
qed simp

lemma net_ok_peers: "net_ok base c n \<Longrightarrow> net_ok base c (sample_peer_entries io el now es n)"
proof (induction io el now es n rule: sample_peer_entries.induct)
  case (2 io el now k current es n)
  show ?case
  proof (cases "peer_key_protocol k")
    case (Some p)
    let ?d = "delta current (peer_previous n k)"
    let ?n1 = "n\<lparr>peer_previous := (peer_previous n)(k \<mapsto> current)\<rparr>"
    obtain r n2 where e: "emit_stats io (KPeer k) p ?d el now ?n1 = (r, n2)" by fastforce
    have "net_ok base c ?n1" by (rule net_ok_frame [OF 2(3)]) simp_all
    then have "net_ok base c n2" using net_ok_emit_stats [of base c ?n1 io "KPeer k" p ?d el now] e by simp
    with 2(2) [OF Some refl refl e [symmetric] refl] Some e show ?thesis by (simp add: Let_def)
  qed (use 2 in simp)
qed simp
lemma net_ok_host_and_processes: "net_ok base c n \<Longrightarrow> net_ok base c (snd (sample_host_and_processes io mp now n))"
proof -
  assume ok: "net_ok base c n"
  let ?el = "elapsed_seconds now (last_sample_ns n)"
  have stamp: "net_ok base c m \<Longrightarrow> net_ok base c (m\<lparr>last_sample_ns := now\<rparr>)" for m by (erule net_ok_frame) simp_all
  obtain r n1 where h: "sample_host io mp ?el now [Tcp, Udp] stats_default n = (r, n1)" by fastforce
  have n1: "net_ok base c n1" using net_ok_host [OF ok, of io mp ?el now "[Tcp, Udp]" stats_default] h by simp
  show ?thesis
    using ok n1 h by (auto simp: sample_host_and_processes_def Let_def intro!: stamp net_ok_processes net_ok_emit_samples
        split: sum.splits)
qed

lemma net_ok_sample_peers: "net_ok base c n \<Longrightarrow> net_ok base c (snd (sample_peers io mp now n))"
proof -
  assume ok: "net_ok base c n"
  have stamp: "net_ok base c m \<Longrightarrow> net_ok base c (m\<lparr>last_peer_sample_ns := now\<rparr>)" for m by (erule net_ok_frame) simp_all
  show ?thesis
    using ok by (cases "read_peers mp") (simp_all add: sample_peers_def Let_def stamp net_ok_peers)
qed

lemma net_ok_sample_if_due: "net_ok base c n \<Longrightarrow> net_ok base c (snd (net_sample_if_due io mp now force n))"
  using net_ok_host_and_processes [of base c n io mp now] net_ok_sample_peers
  by (auto simp: net_sample_if_due_def Let_def split: sum.splits prod.splits)

text \<open>The tracker driven by its caller, which logs errors and goes on.\<close>

fun net_run :: "net_io \<Rightarrow> (net_maps \<times> u64 \<times> bool) list \<Rightarrow> net_track \<Rightarrow> net_track" where
  "net_run io [] n = n"
| "net_run io ((mp, now, force) # steps) n = net_run io steps (snd (net_sample_if_due io mp now force n))"

lemma net_run_ok: "net_ok base c n \<Longrightarrow> net_ok base c (net_run io steps n)"
  by (induction io steps n rule: net_run.induct) (simp_all add: net_ok_sample_if_due)

lemma net_build_ok: "net_build os t0 c = Inr (n, x) \<Longrightarrow> net_ok [] c n"
  by (auto simp: net_build_def net_track_new_def net_ok_def announcements_def Let_def split: sum.splits option.splits)

lemma net_build_log: "net_build os t0 c = Inr (n, x) \<Longrightarrow> nt_log n = [] \<and> nt_config n = c"
  by (auto simp: net_build_def net_track_new_def Let_def split: sum.splits option.splits)

text \<open>
  C15: whatever the kernel's maps contain, whatever the random numbers are and however the
  callback answers, the network tracker passes a counter value on only after the
  announcement of its track, and a track only after that of the peer above it; it
  announces no counter track twice, and never creates more than \<open>max_peer_tracks\<close> peer
  tracks, one per peer.
\<close>

theorem net_counters_announced:
  assumes "net_build os t0 c = Inr (n, x)"
  shows "announced_first (nt_log (net_run io steps n)) \<and>
    (\<forall>i. announcements (CounterId i) (nt_log (net_run io steps n)) \<le> 1) \<and>
    length (peer_track_ids (net_run io steps n)) \<le> unat (nc_max_peer_tracks c) \<and>
    distinct (map fst (peer_track_ids (net_run io steps n)))"
  using net_run_ok [OF net_build_ok [OF assms], of io steps] by (simp add: net_ok_def)

section \<open>Deltas\<close>

definition counters :: "stats_value \<Rightarrow> u64 list" where
  "counters s = [send_bytes s, recv_bytes s, send_operations s, recv_operations s, send_errors s, recv_errors s,
     send_would_block s, recv_would_block s, tcp_recv_eof s, udp_recv_truncated s]"

text \<open>What the tracker reports for the successive snapshots of one map entry.\<close>

fun deltas :: "stats_value option \<Rightarrow> stats_value list \<Rightarrow> stats_value list" where
  "deltas prev [] = []"
| "deltas prev (s # ss) = delta s prev # deltas (Some s) ss"

text \<open>
  The kernel replaces an evicted entry by a new one with a later \<open>first_seen_ns\<close>: the last
  snapshot of each entry.
\<close>

fun entry_ends :: "stats_value list \<Rightarrow> stats_value list" where
  "entry_ends [] = []"
| "entry_ends [s] = [s]"
| "entry_ends (s # s' # ss) =
     (if first_seen_ns s = first_seen_ns s' then entry_ends (s' # ss) else s # entry_ends (s' # ss))"

fun grows :: "stats_value list \<Rightarrow> bool" where
  "grows [] = True"
| "grows [s] = True"
| "grows (s # s' # ss) =
     ((first_seen_ns s = first_seen_ns s' \<longrightarrow> list_all2 (\<le>) (counters s) (counters s')) \<and> grows (s' # ss))"

abbreviation total :: "nat \<Rightarrow> stats_value list \<Rightarrow> nat" where
  "total i ss \<equiv> sum_list (map (\<lambda>s. unat (counters s ! i)) ss)"

lemma counters_delta:
  "counters (delta s (Some p)) =
     (if first_seen_ns p = first_seen_ns s then map2 saturating_sub (counters s) (counters p) else counters s)"
  by (simp add: delta_def counters_def)

lemma length_counters [simp]: "length (counters s) = 10"
  by (simp add: counters_def)

lemma total_deltas:
  assumes "grows (p # ss)" "i < 10"
  shows "unat (counters p ! i) + total i (deltas (Some p) ss) = total i (entry_ends (p # ss))"
  using assms(1)
proof (induction ss arbitrary: p)
  case (Cons s ss)
  have IH: "unat (counters s ! i) + total i (deltas (Some s) ss) = total i (entry_ends (s # ss))"
    using Cons by simp
  show ?case
  proof (cases "first_seen_ns p = first_seen_ns s")
    case True
    with Cons.prems have "counters p ! i \<le> counters s ! i"
      using assms(2) by (auto simp: list_all2_conv_all_nth)
    then have "unat (counters p ! i) \<le> unat (counters s ! i)" by (simp add: word_le_nat_alt)
    moreover have "counters (delta s (Some p)) ! i = saturating_sub (counters s ! i) (counters p ! i)"
      using True assms(2) by (simp add: counters_delta)
    ultimately show ?thesis using IH True by simp
  next
    case False
    then show ?thesis using IH by (simp add: counters_delta)
  qed
qed simp


definition sample_stats :: "u64 \<Rightarrow> u64 \<Rightarrow> stats_value" where
  "sample_stats sent since = stats_default\<lparr>send_bytes := sent, first_seen_ns := since\<rparr>"


definition ok_net_os :: net_os where
  "ok_net_os = \<lparr>os_open = None, os_size_process = (\<lambda>_. None), os_size_peer = (\<lambda>_. None), os_load = None,
     os_update = (\<lambda>_. None), os_attach = None\<rparr>"

definition sample_net_io :: net_io where
  "sample_net_io = \<lparr>io_cb = (\<lambda>_. 0), io_rng = of_nat, io_show_v6 = (\<lambda>_. '''')\<rparr>"

definition sample_net_maps :: net_maps where
  "sample_net_maps = \<lparr>map_global = (\<lambda>_. Inr [Inr (sample_stats 100 5)]), map_processes = Inr [Inr (\<lparr>pk_tgid = 5, pk_protocol = 0\<rparr>, sample_stats 100 5)],
     map_peers = Inr []\<rparr>"

lemma sample_net_built: "\<exists>n x. net_build ok_net_os 0 default_net_track_config = Inr (n, x)"
  by (simp add: net_build_def net_validate_def net_track_new_def default_net_track_config_def ok_net_os_def
      has_scope_def net_autoload_def)

theorem net_counters_announced_witness:
  "\<exists>n x. net_build ok_net_os 0 (default_net_track_config\<lparr>nc_protocols := [Tcp], nc_scopes := [ScProcess]\<rparr>) = Inr (n, x) \<and>
     length (nt_log (net_run sample_net_io [(sample_net_maps, 10, True)] n)) = 4 \<and>
     announced_first (nt_log (net_run sample_net_io [(sample_net_maps, 10, True)] n))"
proof -
  let ?c = "default_net_track_config\<lparr>nc_protocols := [Tcp], nc_scopes := [ScProcess]\<rparr>"
  let ?n = "\<lparr>nt_config = ?c, last_sample_ns = 0, last_peer_sample_ns = 0,
               global_previous = (\<lambda>_. stats_default), process_previous = Map.empty, peer_previous = Map.empty,
               series_ids = Map.empty, submitted_tracks = (\<lambda>_. False), peer_track_ids = [], nt_draws = 0,
               nt_log = []\<rparr>"
  have "\<exists>x. net_build ok_net_os 0 ?c = Inr (?n, x)"
    by (simp add: net_build_def net_validate_def net_track_new_def default_net_track_config_def ok_net_os_def
        has_scope_def net_autoload_def)
  then obtain x where n: "net_build ok_net_os 0 ?c = Inr (?n, x)" by blast
  have "length (nt_log (net_run sample_net_io [(sample_net_maps, 10, True)] ?n)) = 4"
    by (simp add: default_net_track_config_def has_scope_def has_metric_def net_sample_if_due_def
        sample_host_and_processes_def read_processes_def sample_net_maps_def protocol_from_index_def
        emit_stats_def samples_for_def bytes_samples_def emit_sample_def
        sample_parent_def series_id_def net_draw_def net_call_eq sample_net_io_def Let_def)
  then show ?thesis using n net_counters_announced [OF n, of sample_net_io "[(sample_net_maps, 10, True)]"] by blast
qed

end
