(* ===== verification/Bpf_Load.thy ===== *)
theory Bpf_Load
  imports Bpf_Common
begin

text \<open>
  Loading a BPF program, as the constructors of the collectors in \<^verbatim>\<open>bpf/src\<close> do it: a sequence of
  calls of the BPF library and the kernel, each of which may fail, and the first failure ends
  the constructor with an error. The outcome of a call is a parameter \<open>os\<close>: an error's text, or
  the number returned (a file descriptor; 0 for calls that return nothing). The state is the
  list of the calls made. This theory holds the shared part, \<^verbatim>\<open>bpf/src/perf_event.rs\<close>, and the
  constructors of \<^verbatim>\<open>cpuutil.rs\<close>, \<^verbatim>\<open>profiler.rs\<close>, \<^verbatim>\<open>schedtrace.rs\<close> and \<^verbatim>\<open>threadtrack.rs\<close>.
\<close>

section \<open>Calls\<close>

datatype setup_call =
    OpenSkel
  | SetMaxEntries string u32
  | WriteFlag string bool
  | WriteConst string u32
  | LoadProgs
  | UpdateMap string u32 u32
  | AttachProgs
  | AddRingBuffer
  | BuildRingBuffer
  | PerfEventOpen u32 u64 "u64 option" i32
  | AttachPerfEvent string i32
  | IoctlEnable i32

type_synonym os = "setup_call \<Rightarrow> string + i32"
type_synonym 'a loading = "(setup_call list, bpf_error, 'a) comp"

definition syscall :: "os \<Rightarrow> setup_call \<Rightarrow> (string \<Rightarrow> bpf_error) \<Rightarrow> i32 loading" where
  "syscall os c err log = (case os c of Inl e \<Rightarrow> (Inl (err e), log @ [c]) | Inr v \<Rightarrow> (Inr v, log @ [c]))"

text \<open>Writing to the program's read-only data before it is loaded cannot fail.\<close>

definition note_call :: "setup_call \<Rightarrow> unit loading" where
  "note_call c log = (Inr (), log @ [c])"

datatype setup_step = Do setup_call "string \<Rightarrow> bpf_error" | Note setup_call

fun step_call :: "setup_step \<Rightarrow> setup_call" where
  "step_call (Do c err) = c"
| "step_call (Note c) = c"

fun run_steps :: "os \<Rightarrow> setup_step list \<Rightarrow> unit loading" where
  "run_steps os [] = returnE ()"
| "run_steps os (Do c err # ss) = bindE (syscall os c err) (\<lambda>_. run_steps os ss)"
| "run_steps os (Note c # ss) = bindE (note_call c) (\<lambda>_. run_steps os ss)"

fun mapE :: "('a \<Rightarrow> ('s, 'e, 'b) comp) \<Rightarrow> 'a list \<Rightarrow> ('s, 'e, 'b list) comp" where
  "mapE f [] = returnE []"
| "mapE f (x # xs) = bindE (f x) (\<lambda>y. bindE (mapE f xs) (\<lambda>ys. returnE (y # ys)))"

section \<open>Perf events\<close>

text \<open>The constants of the kernel interface are parameters.\<close>

record perf_abi =
  PERF_TYPE_HARDWARE :: u32
  PERF_TYPE_SOFTWARE :: u32
  PERF_COUNT_SW_CPU_CLOCK :: u32

text \<open>The attributes hold the configuration widened to 64 bits.\<close>

definition perf_event_open :: "os \<Rightarrow> u32 \<Rightarrow> u32 \<Rightarrow> u64 option \<Rightarrow> i32 \<Rightarrow> (string \<Rightarrow> bpf_error) \<Rightarrow> i32 loading" where
  "perf_event_open os ty config frequency cpu err = syscall os (PerfEventOpen ty (ucast config) frequency cpu) err"

definition perf_event_per_cpu :: "os \<Rightarrow> nat \<Rightarrow> u32 \<Rightarrow> u32 \<Rightarrow> u64 \<Rightarrow> (string \<Rightarrow> bpf_error) \<Rightarrow> i32 list loading" where
  "perf_event_per_cpu os nprocs ty config freq err =
     mapE (\<lambda>cpu. perf_event_open os ty config (Some freq) (of_nat cpu) err) [0..<nprocs]"

definition attach_perf_event :: "os \<Rightarrow> string \<Rightarrow> i32 list \<Rightarrow> (string \<Rightarrow> bpf_error) \<Rightarrow> i32 list loading" where
  "attach_perf_event os prog fds err = mapE (\<lambda>fd. syscall os (AttachPerfEvent prog fd) err) fds"

section \<open>Collectors\<close>

definition prefixed :: "(string \<Rightarrow> bpf_error) \<Rightarrow> string \<Rightarrow> string \<Rightarrow> bpf_error" where
  "prefixed c text e = c (text @ '': '' @ e)"

definition open_steps :: "usize \<Rightarrow> setup_step list" where
  "open_steps ringbuf =
     [Do OpenSkel (prefixed LoadError ''failed to open bpf skeleton''),
      Do (SetMaxEntries ''events'' (ucast ringbuf)) (prefixed LoadError ''failed to set ring buffer size'')]"

definition load_step :: setup_step where
  "load_step = Do LoadProgs (prefixed LoadError ''failed to load bpf program'')"

definition filter_steps :: "string \<Rightarrow> i32 list \<Rightarrow> setup_step list" where
  "filter_steps mp pids = map (\<lambda>pid. Do (UpdateMap mp pid 1) (prefixed MapError ''failed to update filter map'')) pids"

definition attach_step :: setup_step where
  "attach_step = Do AttachProgs (prefixed AttachError ''failed to attach bpf programs'')"

definition ring_steps :: "(string \<Rightarrow> bpf_error) \<Rightarrow> setup_step list" where
  "ring_steps c = [Do AddRingBuffer (prefixed c ''failed to add ring buffer''),
                   Do BuildRingBuffer (prefixed c ''failed to build ring buffer'')]"

text \<open>Opening, configuring, loading and filling the filter map: everything before a program runs.\<close>

definition filtered_load :: "usize \<Rightarrow> (string \<times> bool) list \<Rightarrow> string \<Rightarrow> i32 list \<Rightarrow> setup_step list" where
  "filtered_load ringbuf flags mp pids =
     open_steps ringbuf @ map (\<lambda>(f, v). Note (WriteFlag f v)) flags @ [load_step] @ filter_steps mp pids"

record cpu_util_config =
  cuc_frequency :: u64
  cuc_pid_filters :: "i32 list"
  cuc_filter_process :: "string list"
  cuc_ringbuf :: usize

record profiler_config =
  prc_frequency :: u64
  prc_kernel_samples :: bool
  prc_user_samples :: bool
  prc_pid_filters :: "i32 list"
  prc_filter_process :: "string list"
  prc_debug_syms :: bool
  prc_perf_map :: bool
  prc_map_files :: bool
  prc_ringbuf :: usize

record sched_trace_config =
  stc_pid_filters :: "i32 list"
  stc_filter_process :: "string list"
  stc_ringbuf :: usize

record thread_tracker_config =
  ttc_ringbuf :: usize

definition cpu_util_load :: "cpu_util_config \<Rightarrow> setup_step list" where
  "cpu_util_load c = filtered_load (cuc_ringbuf c) [(''filter_enabled'', cuc_pid_filters c \<noteq> [] \<or> cuc_filter_process c \<noteq> [])]
     ''tracked_tgids'' (cuc_pid_filters c)"

definition cpu_util_start :: "os \<Rightarrow> perf_abi \<Rightarrow> nat \<Rightarrow> cpu_util_config \<Rightarrow> unit loading" where
  "cpu_util_start os abi nprocs c =
     bindE (run_steps os (cpu_util_load c)) (\<lambda>_.
     bindE (run_steps os (attach_step # ring_steps MapError)) (\<lambda>_.
     bindE (perf_event_per_cpu os nprocs (PERF_TYPE_SOFTWARE abi) (PERF_COUNT_SW_CPU_CLOCK abi) (cuc_frequency c)
              (prefixed LoadError ''failed to open perf events'')) (\<lambda>fds.
     bindE (attach_perf_event os ''handle_boundary_event'' fds (prefixed AttachError ''failed to attach perf events''))
       (\<lambda>_. returnE ()))))"

definition profiler_load :: "profiler_config \<Rightarrow> setup_step list" where
  "profiler_load c = filtered_load (prc_ringbuf c)
     [(''filter_tgid'', prc_pid_filters c \<noteq> [] \<or> prc_filter_process c \<noteq> []), (''collect_kstack'', prc_kernel_samples c),
      (''collect_ustack'', prc_user_samples c)] ''filter_tgid'' (prc_pid_filters c)"

definition profiler_start :: "os \<Rightarrow> perf_abi \<Rightarrow> nat \<Rightarrow> profiler_config \<Rightarrow> unit loading" where
  "profiler_start os abi nprocs c =
     bindE (run_steps os (profiler_load c)) (\<lambda>_.
     bindE (perf_event_per_cpu os nprocs (PERF_TYPE_SOFTWARE abi) (PERF_COUNT_SW_CPU_CLOCK abi) (prc_frequency c)
              (prefixed AttachError ''failed to create perf events'')) (\<lambda>fds.
     bindE (attach_perf_event os ''profiler_perf_event'' fds (prefixed AttachError ''failed to attach perf event'')) (\<lambda>_.
     run_steps os (ring_steps LoadError))))"

definition sched_trace_load :: "sched_trace_config \<Rightarrow> setup_step list" where
  "sched_trace_load c = filtered_load (stc_ringbuf c) [(''filter_enabled'', stc_pid_filters c \<noteq> [] \<or> stc_filter_process c \<noteq> [])]
     ''tracked_tgids'' (stc_pid_filters c)"

definition sched_trace_start :: "os \<Rightarrow> sched_trace_config \<Rightarrow> unit loading" where
  "sched_trace_start os c =
     bindE (run_steps os (sched_trace_load c)) (\<lambda>_. run_steps os (attach_step # ring_steps MapError))"

definition thread_tracker_start :: "os \<Rightarrow> thread_tracker_config \<Rightarrow> unit loading" where
  "thread_tracker_start os c =
     run_steps os (open_steps (ttc_ringbuf c) @ [load_step, attach_step] @ ring_steps MapError)"

text \<open>Adding a process to the filter of a running collector.\<close>

definition add_pid_filter :: "os \<Rightarrow> u32 \<Rightarrow> unit loading" where
  "add_pid_filter os pid =
     bindE (syscall os (UpdateMap ''tracked_tgids'' pid 1) (prefixed MapError ''failed to add PID filter'')) (\<lambda>_. returnE ())"

definition profiler_filter :: "os \<Rightarrow> i32 \<Rightarrow> unit loading" where
  "profiler_filter os pid =
     bindE (syscall os (UpdateMap ''filter_tgid'' pid 1) (prefixed MapError ''failed to update filter map'')) (\<lambda>_. returnE ())"

section \<open>Programs run filtered\<close>

text \<open>
  A call that starts a program comes only after the filter flag was written, the program was
  loaded with it, and then every configured process was entered in the filter map.
\<close>

definition starts :: "setup_call \<Rightarrow> bool" where
  "starts c \<longleftrightarrow> (case c of AttachProgs \<Rightarrow> True | AttachPerfEvent prog fd \<Rightarrow> True | _ \<Rightarrow> False)"

definition filtered_first :: "string \<Rightarrow> bool \<Rightarrow> string \<Rightarrow> i32 list \<Rightarrow> setup_call list \<Rightarrow> bool" where
  "filtered_first flag on mp pids log \<longleftrightarrow>
     (\<forall>k < length log. starts (log ! k) \<longrightarrow>
        (\<exists>j < k. log ! j = LoadProgs \<and> (\<exists>i < j. log ! i = WriteFlag flag on) \<and>
           (\<forall>pid \<in> set pids. \<exists>u < k. j < u \<and> log ! u = UpdateMap mp pid 1)))"

definition appends :: "'a loading \<Rightarrow> bool" where
  "appends m \<longleftrightarrow> (\<forall>log. \<exists>rest. snd (m log) = log @ rest)"

lemma appends_bindE: "appends m \<Longrightarrow> (\<And>a. appends (k a)) \<Longrightarrow> appends (bindE m k)"
proof -
  assume m: "appends m" and k: "\<And>a. appends (k a)"
  have "\<exists>rest. snd (bindE m k log) = log @ rest" for log
  proof -
    obtain r log' where ml: "m log = (r, log')" by fastforce
    with m obtain rest where "log' = log @ rest" unfolding appends_def by (metis snd_conv)
    then show ?thesis
      using ml k unfolding appends_def by (cases r) (simp, metis append_assoc bindE_simps(1))
  qed
  then show ?thesis by (simp add: appends_def)
qed

lemma appends_returnE: "appends (returnE a)"
  by (simp add: appends_def returnE_def)

lemma appends_syscall: "appends (syscall os c err)"
  by (simp add: appends_def syscall_def split: sum.split)

lemma appends_mapE: "(\<And>x. appends (f x)) \<Longrightarrow> appends (mapE f xs)"
  by (induction xs) (simp_all add: appends_returnE appends_bindE)

lemma appends_run_steps: "appends (run_steps os ss)"
proof (induction os ss rule: run_steps.induct)
  case (3 os c ss)
  have "appends (note_call c)" by (simp add: appends_def note_call_def)
  with 3 show ?case by (simp add: appends_bindE)
qed (simp_all add: appends_returnE appends_bindE appends_syscall)

lemmas appends_intros = appends_bindE appends_returnE appends_syscall appends_mapE appends_run_steps

text \<open>A sequence of steps makes its calls in order, all of them unless one fails.\<close>

lemma run_steps_log:
  "case run_steps os ss log of
     (Inr _, log') \<Rightarrow> log' = log @ map step_call ss
   | (Inl e, log') \<Rightarrow> \<exists>n. log' = log @ take n (map step_call ss)"
proof (induction os ss arbitrary: log rule: run_steps.induct)
  case (1 os)
  then show ?case by (simp add: returnE_def)
next
  case (2 os c err ss)
  show ?case
  proof (cases "os c")
    case (Inl e)
    then have "run_steps os (Do c err # ss) log = (Inl (err e), log @ take 1 (map step_call (Do c err # ss)))"
      by (simp add: syscall_def)
    then show ?thesis by (simp only: prod.case sum.case) blast
  next
    case (Inr v)
    then have eq: "run_steps os (Do c err # ss) log = run_steps os ss (log @ [c])" by (simp add: syscall_def)
    show ?thesis using 2 [of "log @ [c]"] unfolding eq by (auto split: prod.splits sum.splits) (metis take_Suc_Cons)
  qed
next
  case (3 os c ss)
  have eq: "run_steps os (Note c # ss) log = run_steps os ss (log @ [c])" by (simp add: note_call_def)
  show ?case using 3 [of "log @ [c]"] unfolding eq by (auto split: prod.splits sum.splits) (metis take_Suc_Cons)
qed

lemma filtered_load_calls:
  "map step_call (filtered_load ringbuf flags mp pids) =
     [OpenSkel, SetMaxEntries ''events'' (ucast ringbuf)] @ map (\<lambda>(f, v). WriteFlag f v) flags @ [LoadProgs] @
     map (\<lambda>pid. UpdateMap mp pid 1) pids"
  by (simp add: filtered_load_def open_steps_def load_step_def filter_steps_def o_def case_prod_beta)

lemma filtered_first_load:
  assumes "(flag, on) \<in> set flags" "appends tail"
  shows "filtered_first flag on mp pids (snd (bindE (run_steps os (filtered_load ringbuf flags mp pids)) (\<lambda>_. tail) []))"
proof -
  let ?cs = "map step_call (filtered_load ringbuf flags mp pids)"
  let ?flags = "map (\<lambda>(f, v). WriteFlag f v) flags"
  have quiet: "\<forall>c \<in> set ?cs. \<not> starts c" by (auto simp: filtered_load_calls starts_def)
  obtain r log where r: "run_steps os (filtered_load ringbuf flags mp pids) [] = (r, log)" by fastforce
  show ?thesis
  proof (cases r)
    case (Inl e)
    with run_steps_log [where os = os and ss = "filtered_load ringbuf flags mp pids" and log = "[]"] r obtain n where "log = take n ?cs" by auto
    then have "\<forall>c \<in> set log. \<not> starts c" using quiet by (meson in_set_takeD)
    then show ?thesis using r Inl by (auto simp: filtered_first_def)
  next
    case (Inr v)
    with run_steps_log [where os = os and ss = "filtered_load ringbuf flags mp pids" and log = "[]"] r have log: "log = ?cs" by simp
    obtain rest where rest: "snd (tail log) = ?cs @ rest" using assms(2) log by (metis appends_def)
    let ?j = "2 + length flags"
    have j: "?cs ! ?j = LoadProgs" by (simp add: filtered_load_calls nth_append)
    obtain i where i: "i < length flags" "flags ! i = (flag, on)" using assms(1) unfolding in_set_conv_nth by blast
    have flag: "?cs ! (2 + i) = WriteFlag flag on" using i by (simp add: filtered_load_calls nth_append)
    have pid: "\<exists>u < length ?cs. ?j < u \<and> ?cs ! u = UpdateMap mp pid 1" if m: "pid \<in> set pids" for pid
    proof -
      from m obtain p where "p < length pids" "pids ! p = pid" unfolding in_set_conv_nth by blast
      then show ?thesis by (intro exI [of _ "Suc (?j + p)"]) (simp add: filtered_load_calls nth_append)
    qed
    have len: "?j < length ?cs" by (simp add: filtered_load_calls)
    have "filtered_first flag on mp pids (?cs @ rest)"
      unfolding filtered_first_def
    proof (intro allI impI)
      fix k assume k: "k < length (?cs @ rest)" "starts ((?cs @ rest) ! k)"
      have long: "length ?cs \<le> k"
      proof (rule ccontr)
        assume "\<not> length ?cs \<le> k"
        then have "(?cs @ rest) ! k \<in> set ?cs" using nth_mem [of k ?cs] by (simp only: nth_append not_le if_True)
        with quiet k(2) show False by blast
      qed
      have "\<exists>u < k. ?j < u \<and> (?cs @ rest) ! u = UpdateMap mp pid 1" if pid_in: "pid \<in> set pids" for pid
      proof -
        obtain u where u: "u < length ?cs" "?j < u" "?cs ! u = UpdateMap mp pid 1" using pid [OF pid_in] by blast
        then have "(?cs @ rest) ! u = UpdateMap mp pid 1" by (simp only: nth_append if_True)
        with u long show ?thesis by (meson less_le_trans)
      qed
      then show "\<exists>j < k. (?cs @ rest) ! j = LoadProgs \<and> (\<exists>i < j. (?cs @ rest) ! i = WriteFlag flag on) \<and>
          (\<forall>pid \<in> set pids. \<exists>u < k. j < u \<and> (?cs @ rest) ! u = UpdateMap mp pid 1)"
        using len j flag i(1) long by (intro exI [of _ ?j] conjI exI [of _ "2 + i"]) (auto simp: nth_append simp del: map_append)
    qed
    then show ?thesis using r Inr rest by simp
  qed
qed

text \<open>
  C17: whichever calls fail, the CPU, profiler and scheduler collectors start a BPF program only
  after it was loaded with the filter flag their configuration asks for and every configured
  process is in its filter map: no program runs unfiltered.
\<close>

theorem programs_run_filtered:
  "filtered_first ''filter_enabled'' (cuc_pid_filters c \<noteq> [] \<or> cuc_filter_process c \<noteq> []) ''tracked_tgids''
     (cuc_pid_filters c) (snd (cpu_util_start os abi nprocs c [])) \<and>
   filtered_first ''filter_tgid'' (prc_pid_filters p \<noteq> [] \<or> prc_filter_process p \<noteq> []) ''filter_tgid''
     (prc_pid_filters p) (snd (profiler_start os abi nprocs p [])) \<and>
   filtered_first ''filter_enabled'' (stc_pid_filters s \<noteq> [] \<or> stc_filter_process s \<noteq> []) ''tracked_tgids''
     (stc_pid_filters s) (snd (sched_trace_start os s []))"
  unfolding cpu_util_start_def profiler_start_def sched_trace_start_def cpu_util_load_def profiler_load_def
    sched_trace_load_def attach_perf_event_def perf_event_per_cpu_def perf_event_open_def
  by (intro conjI filtered_first_load appends_intros) simp_all


definition sample_sched_config :: sched_trace_config where
  "sample_sched_config = \<lparr>stc_pid_filters = [42], stc_filter_process = [], stc_ringbuf = 4096\<rparr>"

theorem programs_run_filtered_witness:
  "AttachProgs \<in> set (snd (sched_trace_start (\<lambda>_. Inr 3) sample_sched_config [])) \<and>
   filtered_first ''filter_enabled'' True ''tracked_tgids'' [42] (snd (sched_trace_start (\<lambda>_. Inr 3) sample_sched_config []))"
proof -
  have "filtered_first ''filter_enabled'' True ''tracked_tgids'' [42] (snd (sched_trace_start (\<lambda>_. Inr 3) sample_sched_config []))"
    using programs_run_filtered [of _ "\<lambda>_. Inr 3" _ _ _ sample_sched_config] by (simp add: sample_sched_config_def)
  moreover have "AttachProgs \<in> set (snd (sched_trace_start (\<lambda>_. Inr 3) sample_sched_config []))"
    by (simp add: sched_trace_start_def sched_trace_load_def filtered_load_def open_steps_def load_step_def filter_steps_def
        attach_step_def ring_steps_def sample_sched_config_def syscall_def note_call_def bindE_def returnE_def)
  ultimately show ?thesis by simp
qed
end
