(* ===== verification/Bpf_Lib.thy ===== *)
theory Bpf_Lib
  imports Nettrack Bpf_Load
begin

text \<open>
  \<^verbatim>\<open>bpf/src/lib.rs\<close> and \<^verbatim>\<open>bpf/src/threadtrack.rs\<close>: assembling the collectors from the
  configuration, discovering processes and threads, and adding discovered processes to the
  collectors' filters by name. The configurations of the collectors that \<open>build\<close> only passes
  on are type parameters. Parameters of the wrapped callback: the user's callback, the clock,
  and the outcome of the filters' map updates.
\<close>

section \<open>Configuration\<close>

record ('b, 'p) bpf_config =
  cfg_thread_tracker :: "thread_tracker_config option"
  cfg_cpu_util :: "cpu_util_config option"
  cfg_nettrack :: "net_track_config option"
  cfg_block_io :: "'b option"
  cfg_profiler :: "profiler_config option"
  cfg_schedtrace :: "sched_trace_config option"
  cfg_perfcounter :: "'p option"
  cfg_filter_process :: "string list"

record ('b, 'p) bpf_object =
  obj_threadtrack :: "thread_tracker_config option"
  obj_cpuutils :: "cpu_util_config option"
  obj_nettrack :: "net_track_config option"
  obj_block_io :: "'b option"
  obj_profiler :: "profiler_config option"
  obj_schedtrace :: "sched_trace_config option"
  obj_perfcounter :: "'p option"
  cpuutil_filters :: "string list"
  profiler_filters :: "string list"
  schedtrace_filters :: "string list"
  nettrack_filters :: "string list"
  watched_tgids :: "i32 \<Rightarrow> bool"

definition needs_process_filtering :: "('b, 'p) bpf_config \<Rightarrow> bool" where
  "needs_process_filtering c \<longleftrightarrow>
     (let glob = (cfg_filter_process c \<noteq> []) in
      (case cfg_cpu_util c of Some x \<Rightarrow> cuc_filter_process x \<noteq> [] \<or> glob | None \<Rightarrow> False) \<or>
      (case cfg_profiler c of Some x \<Rightarrow> prc_filter_process x \<noteq> [] \<or> glob | None \<Rightarrow> False) \<or>
      (case cfg_schedtrace c of Some x \<Rightarrow> stc_filter_process x \<noteq> [] \<or> glob | None \<Rightarrow> False) \<or>
      (case cfg_nettrack c of Some x \<Rightarrow> nc_filter_process x \<noteq> [] \<or> glob | None \<Rightarrow> False))"

definition bpf_build :: "('b, 'p) bpf_config \<Rightarrow> bpf_error + ('b, 'p) bpf_object" where
  "bpf_build c =
     (let glob = cfg_filter_process c;
          own = (\<lambda>l. if glob \<noteq> [] then glob else l);
          cpu = map_option (\<lambda>x. x\<lparr>cuc_filter_process := own (cuc_filter_process x)\<rparr>) (cfg_cpu_util c);
          prof = map_option (\<lambda>x. x\<lparr>prc_filter_process := own (prc_filter_process x)\<rparr>) (cfg_profiler c);
          sched = map_option (\<lambda>x. x\<lparr>stc_filter_process := own (stc_filter_process x)\<rparr>) (cfg_schedtrace c);
          net = map_option (\<lambda>x. x\<lparr>nc_filter_process := own (nc_filter_process x)\<rparr>) (cfg_nettrack c)
      in if needs_process_filtering c \<and> cfg_thread_tracker c = None
         then Inl (LoadError ''Thread tracker must be enabled when using process name filtering'')
         else Inr \<lparr>obj_threadtrack = cfg_thread_tracker c, obj_cpuutils = cpu, obj_nettrack = net,
                   obj_block_io = cfg_block_io c, obj_profiler = prof, obj_schedtrace = sched,
                   obj_perfcounter = cfg_perfcounter c,
                   cpuutil_filters = (case cpu of Some x \<Rightarrow> cuc_filter_process x | None \<Rightarrow> []),
                   profiler_filters = (case prof of Some x \<Rightarrow> prc_filter_process x | None \<Rightarrow> []),
                   schedtrace_filters = (case sched of Some x \<Rightarrow> stc_filter_process x | None \<Rightarrow> []),
                   nettrack_filters = (case net of Some x \<Rightarrow> nc_filter_process x | None \<Rightarrow> []),
                   watched_tgids = (\<lambda>_. False)\<rparr>)"

section \<open>The wrapped callback\<close>

text \<open>The part of a name after its last slash.\<close>

definition base_name :: "string \<Rightarrow> string" where
  "base_name s = rev (takeWhile (\<lambda>ch. ch \<noteq> CHR ''/'') (rev s))"

datatype collector = FCpu | FProfiler | FSched | FNet

record wrapper_io =
  wio_cb :: "nat \<Rightarrow> i32"
  wio_filter :: "collector \<Rightarrow> i32 \<Rightarrow> bpf_error option"
  wio_clock :: "nat \<Rightarrow> u64"

record wrapper =
  w_watched :: "i32 \<Rightarrow> bool"
  w_filtered :: "(collector \<times> i32) list"
  w_log :: "message list"

definition collector_filters :: "('b, 'p) bpf_object \<Rightarrow> collector \<Rightarrow> string list option" where
  "collector_filters ob f =
     (case f of
        FCpu \<Rightarrow> map_option (\<lambda>_. cpuutil_filters ob) (obj_cpuutils ob)
      | FProfiler \<Rightarrow> map_option (\<lambda>_. profiler_filters ob) (obj_profiler ob)
      | FSched \<Rightarrow> map_option (\<lambda>_. schedtrace_filters ob) (obj_schedtrace ob)
      | FNet \<Rightarrow> map_option (\<lambda>_. nettrack_filters ob) (obj_nettrack ob))"

definition try_filter ::
  "('b, 'p) bpf_object \<Rightarrow> wrapper_io \<Rightarrow> string \<Rightarrow> i32 \<Rightarrow> collector \<Rightarrow> wrapper \<Rightarrow> wrapper" where
  "try_filter ob io name pid f w =
     (case collector_filters ob f of
        None \<Rightarrow> w
      | Some names \<Rightarrow>
          if name \<in> set names \<or> base_name name \<in> set names
          then (case wio_filter io f pid of
                  Some e \<Rightarrow> w
                | None \<Rightarrow> w\<lparr>w_filtered := w_filtered w @ [(f, pid)], w_watched := (w_watched w)(pid := True)\<rparr>)
          else w)"

definition wrapper_call :: "wrapper_io \<Rightarrow> message \<Rightarrow> wrapper \<Rightarrow> i32 \<times> wrapper" where
  "wrapper_call io m w = (case call (wio_cb io) m (w_log w) of (r, log) \<Rightarrow> (r, w\<lparr>w_log := log\<rparr>))"

definition discovered :: "wrapper_io \<Rightarrow> nat \<Rightarrow> i32 \<Rightarrow> i32 \<Rightarrow> message" where
  "discovered io k tid pid = MEvent (EInstant \<lparr>inst_name = ''discovered'', inst_timestamp = wio_clock io k,
     inst_track_id = Thread tid pid, inst_labels = labels_new\<rparr>)"

definition wrapper_callback :: "('b, 'p) bpf_object \<Rightarrow> wrapper_io \<Rightarrow> message \<Rightarrow> wrapper \<Rightarrow> i32 \<times> wrapper" where
  "wrapper_callback ob io m w =
     (let w1 = (case m of
                  MEvent (ETrack t) \<Rightarrow>
                    (case trk_type t of
                       TyProcess pid \<Rightarrow> fold (try_filter ob io (trk_name t) pid) [FCpu, FProfiler, FSched, FNet] w
                     | _ \<Rightarrow> w)
                | _ \<Rightarrow> w);
          emit = (case m of
                    MEvent (ETrack t) \<Rightarrow>
                      (case trk_type t of TyThread tid pid \<Rightarrow> if w_watched w pid then Some (tid, pid) else None | _ \<Rightarrow> None)
                  | _ \<Rightarrow> None);
          (r, w2) = wrapper_call io m w1
      in if r \<noteq> 0 then (r, w2)
         else case emit of
                Some (tid, pid) \<Rightarrow> wrapper_call io (discovered io (length (w_log w2)) tid pid) w2
              | None \<Rightarrow> (r, w2))"

text \<open>The callback given to the thread tracker: wrapped when a collector that can filter is present.\<close>

definition tracker_callback :: "('b, 'p) bpf_object \<Rightarrow> wrapper_io \<Rightarrow> message \<Rightarrow> wrapper \<Rightarrow> i32 \<times> wrapper" where
  "tracker_callback ob io m w =
     (if obj_cpuutils ob \<noteq> None \<or> obj_profiler ob \<noteq> None \<or> obj_schedtrace ob \<noteq> None \<or> obj_nettrack ob \<noteq> None
      then wrapper_callback ob io m w else wrapper_call io m w)"

section \<open>Threads and processes\<close>

record thread_event =
  th_pid :: u32
  th_tgid :: u32
  th_comm :: string
  th_filename :: string

definition thread_message :: "thread_event \<Rightarrow> message" where
  "thread_message e =
     (if c_str (th_filename e) \<noteq> ''''
      then MEvent (ETrack \<lparr>trk_name = c_str (th_filename e), trk_type = TyProcess (th_tgid e), trk_parent = None\<rparr>)
      else MEvent (ETrack \<lparr>trk_name = c_str (th_comm e), trk_type = TyThread (th_pid e) (th_tgid e),
             trk_parent = Some (TyProcess (th_tgid e))\<rparr>))"

text \<open>
  The scan of \<^verbatim>\<open>/proc\<close>: the entries of the directory in the order they are read, each with its
  name (\<open>None\<close> when unreadable or not valid), the contents of its \<^verbatim>\<open>comm\<close> file and its tasks.
\<close>

definition digits_value :: "string \<Rightarrow> int option" where
  "digits_value s =
     (if s = [] \<or> \<not> list_all is_digit s then None
      else Some (foldl (\<lambda>v ch. 10 * v + (int (of_char ch) - 48)) 0 s))"

definition parse_i32 :: "string \<Rightarrow> i32 option" where
  "parse_i32 s =
     (let v = (case s of
                 ch # cs \<Rightarrow> if ch = CHR ''-'' then map_option uminus (digits_value cs)
                           else if ch = CHR ''+'' then digits_value cs else digits_value s
               | [] \<Rightarrow> None)
      in case v of Some i \<Rightarrow> if - (2 ^ 31) \<le> i \<and> i < 2 ^ 31 then Some (word_of_int i) else None | None \<Rightarrow> None)"

type_synonym task_entry = "string option \<times> string option"
type_synonym proc_entry = "string option \<times> string option \<times> task_entry list option"

definition task_messages :: "i32 \<Rightarrow> task_entry \<Rightarrow> message list" where
  "task_messages pid t =
     (case t of (name, comm) \<Rightarrow>
      case Option.bind name parse_i32 of
        None \<Rightarrow> []
      | Some tid \<Rightarrow>
          if tid = pid then []
          else (case comm of
                  None \<Rightarrow> []
                | Some cm \<Rightarrow> [MEvent (ETrack \<lparr>trk_name = trim cm, trk_type = TyThread tid pid,
                                          trk_parent = Some (TyProcess pid)\<rparr>)]))"

definition proc_messages :: "proc_entry \<Rightarrow> message list" where
  "proc_messages p =
     (case p of (name, comm, tasks) \<Rightarrow>
      case Option.bind name parse_i32 of
        None \<Rightarrow> []
      | Some pid \<Rightarrow>
          (case comm of
             None \<Rightarrow> []
           | Some cm \<Rightarrow> [MEvent (ETrack \<lparr>trk_name = trim cm, trk_type = TyProcess pid, trk_parent = None\<rparr>)]) @
          (case tasks of None \<Rightarrow> [] | Some ts \<Rightarrow> concat (map (task_messages pid) ts)))"

definition scan_proc :: "string + proc_entry list \<Rightarrow> bpf_error + message list" where
  "scan_proc entries =
     (case entries of
        Inl e \<Rightarrow> Inl (MapError (''failed to read /proc: '' @ e))
      | Inr ps \<Rightarrow> Inr (concat (map proc_messages ps)))"

text \<open>One \<open>consume\<close> or \<open>poll\<close> (the word \<open>verb\<close>): the scan, until it has succeeded once, then the ring buffer.\<close>

definition call_all :: "(message \<Rightarrow> 's \<Rightarrow> i32 \<times> 's) \<Rightarrow> message list \<Rightarrow> 's \<Rightarrow> 's" where
  "call_all cb = fold (\<lambda>m s. snd (cb m s))"

definition thread_consume ::
  "(message \<Rightarrow> 's \<Rightarrow> i32 \<times> 's) \<Rightarrow> string \<Rightarrow> (string + proc_entry list) \<Rightarrow> thread_event ring \<Rightarrow> bool \<times> 's
   \<Rightarrow> (bpf_error + unit) \<times> bool \<times> 's" where
  "thread_consume cb verb entries events st =
     (case (if fst st then Inr (snd st) else map_sum (\<lambda>e. e) (\<lambda>ms. call_all cb ms (snd st)) (scan_proc entries)) of
        Inl e \<Rightarrow> (Inl e, st)
      | Inr s \<Rightarrow>
          (case drain_ring (verb @ '' ring buffer'') (\<lambda>e s. snd (cb (thread_message e) s)) events s of (r, s') \<Rightarrow> (r, True, s')))"

section \<open>Filtering by name\<close>

text \<open>The collectors whose filter a process name passes.\<close>

definition name_matches :: "('b, 'p) bpf_object \<Rightarrow> string \<Rightarrow> collector \<Rightarrow> bool" where
  "name_matches ob name f \<longleftrightarrow>
     (case collector_filters ob f of None \<Rightarrow> False | Some names \<Rightarrow> name \<in> set names \<or> base_name name \<in> set names)"

definition wrapper_run :: "('b, 'p) bpf_object \<Rightarrow> wrapper_io \<Rightarrow> message list \<Rightarrow> wrapper \<Rightarrow> wrapper" where
  "wrapper_run ob io ms w = call_all (wrapper_callback ob io) ms w"

definition wrapper_new :: wrapper where
  "wrapper_new = \<lparr>w_watched = (\<lambda>_. False), w_filtered = [], w_log = []\<rparr>"

lemma try_filter_eq:
  assumes "\<And>f pid. wio_filter io f pid = None"
  shows "try_filter ob io name pid f w =
    (if name_matches ob name f
     then w\<lparr>w_filtered := w_filtered w @ [(f, pid)], w_watched := (w_watched w)(pid := True)\<rparr> else w)"
  by (simp add: try_filter_def name_matches_def assms split: option.split)

lemma fold_try_filter:
  assumes "\<And>f pid. wio_filter io f pid = None"
  shows "w_log (fold (try_filter ob io name pid) fs w) = w_log w"
    and "set (w_filtered (fold (try_filter ob io name pid) fs w)) =
           set (w_filtered w) \<union> {(f, pid) |f. f \<in> set fs \<and> name_matches ob name f}"
    and "w_watched (fold (try_filter ob io name pid) fs w) p \<longleftrightarrow>
           w_watched w p \<or> p = pid \<and> (\<exists>f \<in> set fs. name_matches ob name f)"
  by (induction fs arbitrary: w) (auto simp: try_filter_eq [OF assms])

lemma all_collectors: "set [FCpu, FProfiler, FSched, FNet] = UNIV"
  using collector.exhaust by auto

definition process_named :: "message \<Rightarrow> i32 \<Rightarrow> string \<Rightarrow> bool" where
  "process_named m pid name \<longleftrightarrow> (\<exists>t. m = MEvent (ETrack t) \<and> trk_type t = TyProcess pid \<and> trk_name t = name)"

lemma wrapper_callback_step:
  assumes cb: "\<And>k. wio_cb io k = 0" and ok: "\<And>f pid. wio_filter io f pid = None"
  shows "w_log (snd (wrapper_callback ob io m w)) = w_log w @ m #
      (case m of
         MEvent (ETrack t) \<Rightarrow>
           (case trk_type t of
              TyThread tid pid \<Rightarrow> if w_watched w pid then [discovered io (Suc (length (w_log w))) tid pid] else []
            | _ \<Rightarrow> [])
       | _ \<Rightarrow> [])"
    and "set (w_filtered (snd (wrapper_callback ob io m w))) =
      set (w_filtered w) \<union> {(f, pid) |f pid. \<exists>name. process_named m pid name \<and> name_matches ob name f}"
    and "w_watched (snd (wrapper_callback ob io m w)) p \<longleftrightarrow>
      w_watched w p \<or> (\<exists>name f. process_named m p name \<and> name_matches ob name f)"
proof -
  note fold = fold_try_filter [OF ok, of _ _ _ "[FCpu, FProfiler, FSched, FNet]", unfolded all_collectors]
  have call: "wrapper_call io m w = (0, w\<lparr>w_log := w_log w @ [m]\<rparr>)" for m w
    by (simp add: wrapper_call_def call_def cb)
  show "w_log (snd (wrapper_callback ob io m w)) = w_log w @ m #
      (case m of
         MEvent (ETrack t) \<Rightarrow>
           (case trk_type t of
              TyThread tid pid \<Rightarrow> if w_watched w pid then [discovered io (Suc (length (w_log w))) tid pid] else []
            | _ \<Rightarrow> [])
       | _ \<Rightarrow> [])"
    by (simp add: wrapper_callback_def Let_def call fold(1) del: fold.simps
        split: message.split event.split track_type_of.split)
  show "set (w_filtered (snd (wrapper_callback ob io m w))) =
      set (w_filtered w) \<union> {(f, pid) |f pid. \<exists>name. process_named m pid name \<and> name_matches ob name f}"
    by (auto simp add: wrapper_callback_def Let_def call fold(2) process_named_def simp del: fold.simps
        split: message.split event.split track_type_of.split)
  show "w_watched (snd (wrapper_callback ob io m w)) p \<longleftrightarrow>
      w_watched w p \<or> (\<exists>name f. process_named m p name \<and> name_matches ob name f)"
    by (auto simp add: wrapper_callback_def Let_def call fold(3) process_named_def simp del: fold.simps
        split: message.split event.split track_type_of.split)
qed
lemma wrapper_run_state:
  assumes "\<And>k. wio_cb io k = 0" "\<And>f pid. wio_filter io f pid = None"
  shows "set (w_filtered (wrapper_run ob io ms w)) = set (w_filtered w) \<union>
      {(f, pid) |f pid. \<exists>m \<in> set ms. \<exists>name. process_named m pid name \<and> name_matches ob name f} \<and>
    (\<forall>p. w_watched (wrapper_run ob io ms w) p \<longleftrightarrow>
      w_watched w p \<or> (\<exists>m \<in> set ms. \<exists>name f. process_named m p name \<and> name_matches ob name f))"
proof (induction ms arbitrary: w)
  case (Cons m ms)
  note step = wrapper_callback_step(2,3) [OF assms, of ob m w]
  from Cons.IH [of "snd (wrapper_callback ob io m w)"] show ?case
    unfolding wrapper_run_def call_all_def fold.simps comp_apply step by (auto simp: step)
qed (simp add: wrapper_run_def call_all_def)

text \<open>
  C29: when map updates succeed and the user's callback accepts every message, the
  collectors' filters hold exactly the processes announced so far under a name, or a path
  ending in a name, that the collector is configured for; every message reaches the user's
  callback in order; and the announcement of a thread is followed by a \<open>discovered\<close> event for
  it exactly when some collector watches its process.
\<close>

theorem process_filtering:
  assumes "\<And>k. wio_cb io k = 0" "\<And>f pid. wio_filter io f pid = None"
    and "w = wrapper_run ob io ms wrapper_new"
    and "trk_type t = TyThread tid pid"
  shows "set (w_filtered w) = {(f, p) |f p. \<exists>m \<in> set ms. \<exists>name. process_named m p name \<and> name_matches ob name f} \<and>
    w_log (snd (wrapper_callback ob io (MEvent (ETrack t)) w)) = w_log w @ MEvent (ETrack t) #
      (if \<exists>f. (f, pid) \<in> set (w_filtered w) then [discovered io (Suc (length (w_log w))) tid pid] else [])"
proof -
  note r = wrapper_run_state [OF assms(1,2), of ob ms wrapper_new, folded assms(3)]
  have "w_watched w pid \<longleftrightarrow> (\<exists>f. (f, pid) \<in> set (w_filtered w))"
    using r by (auto simp: wrapper_new_def)
  then show ?thesis
    using r wrapper_callback_step(1) [OF assms(1,2), of ob "MEvent (ETrack t)" w] assms(4)
    by (simp add: wrapper_new_def)
qed

definition sample_bpf_object :: "(unit, unit) bpf_object" where
  "sample_bpf_object = \<lparr>obj_threadtrack = Some \<lparr>ttc_ringbuf = 4096\<rparr>,
     obj_cpuutils = Some \<lparr>cuc_frequency = 9, cuc_pid_filters = [], cuc_filter_process = [''nginx''], cuc_ringbuf = 4096\<rparr>,
     obj_nettrack = None, obj_block_io = None, obj_profiler = None, obj_schedtrace = None, obj_perfcounter = None,
     cpuutil_filters = [''nginx''], profiler_filters = [], schedtrace_filters = [], nettrack_filters = [],
     watched_tgids = (\<lambda>_. False)\<rparr>"

definition sample_process :: message where
  "sample_process = MEvent (ETrack \<lparr>trk_name = ''/usr/sbin/nginx'', trk_type = TyProcess 5, trk_parent = None\<rparr>)"

definition quiet_io :: wrapper_io where
  "quiet_io = \<lparr>wio_cb = (\<lambda>_. 0), wio_filter = (\<lambda>_ _. None), wio_clock = of_nat\<rparr>"

theorem process_filtering_witness:
  "w_log (snd (wrapper_callback sample_bpf_object quiet_io
      (MEvent (ETrack \<lparr>trk_name = ''worker'', trk_type = TyThread 7 5, trk_parent = None\<rparr>))
      (wrapper_run sample_bpf_object quiet_io [sample_process] wrapper_new))) =
    [sample_process, MEvent (ETrack \<lparr>trk_name = ''worker'', trk_type = TyThread 7 5, trk_parent = None\<rparr>),
     discovered quiet_io 2 7 5]"
proof -
  let ?t = "\<lparr>trk_name = ''worker'', trk_type = TyThread 7 5, trk_parent = None\<rparr>"
  let ?w = "wrapper_run sample_bpf_object quiet_io [sample_process] wrapper_new"
  have io: "wio_cb quiet_io k = 0" "wio_filter quiet_io f pid = None" for k f pid by (simp_all add: quiet_io_def)
  have "name_matches sample_bpf_object ''/usr/sbin/nginx'' FCpu"
    by (simp add: name_matches_def collector_filters_def sample_bpf_object_def base_name_def)
  then have "(FCpu, 5) \<in> {(f, p) |f p. \<exists>m \<in> set [sample_process]. \<exists>name. process_named m p name \<and>
      name_matches sample_bpf_object name f}"
    by (auto simp: process_named_def sample_process_def)
  moreover note main = process_filtering [of quiet_io ?w sample_bpf_object "[sample_process]" ?t 7 5, OF io refl]
  ultimately have "\<exists>f. (f, 5) \<in> set (w_filtered ?w)" by auto
  moreover have "w_log ?w = [sample_process]"
    using wrapper_callback_step(1) [OF io, of sample_bpf_object sample_process wrapper_new]
    by (simp add: wrapper_run_def call_all_def wrapper_new_def sample_process_def)
  ultimately show ?thesis using main by (simp add: numeral_2_eq_2)
qed

end
