(* ===== verification/Cpuutil.thy ===== *)
theory Cpuutil
  imports Bpf_Common
begin

text \<open>
  \<^verbatim>\<open>bpf/src/cpuutil.rs\<close>: CPU usage per thread. The kernel reports the intervals a thread was
  running; once every CPU has reported the end of a sampling period, the usage of each
  thread is emitted. Modelled: the ring-buffer callback with its state. Parameters: the
  callback, the random numbers, the number of CPUs, and the order in which a hash map is
  iterated. Intervals come from the kernel's monotonic clock, so they do not end before
  they start (\<open>interval_ok\<close> below).
\<close>

record cpu_event =
  ce_tid :: u32
  ce_tgid :: u32
  ce_end_time :: u64
  ce_kernel_time_ns :: u64
  ce_start_time :: u64
  ce_cpu :: u32
  ce_boundary :: bool

record thread_stats =
  cpu_time_ns :: u64
  kernel_time_ns :: u64
  min_timestamp :: u64

definition thread_stats_default :: thread_stats where
  "thread_stats_default = \<lparr>cpu_time_ns = 0, kernel_time_ns = 0, min_timestamp = - 1\<rparr>"

type_synonym thread_key = "i32 \<times> i32"

record cpu_util =
  cu_stats :: "thread_key \<Rightarrow> thread_stats option"
  cu_submitted :: "track_id \<Rightarrow> bool"
  cu_track_ids :: "thread_key \<Rightarrow> (u64 \<times> u64) option"
  boundaries_reported :: nat
  max_timestamp :: u64
  cu_draws :: nat
  cu_log :: "message list"

record cpu_io =
  cio_cb :: "nat \<Rightarrow> i32"
  cio_rng :: "nat \<Rightarrow> u64"
  cio_nprocs :: nat

definition cpu_util_new :: cpu_util where
  "cpu_util_new = \<lparr>cu_stats = Map.empty, cu_submitted = (\<lambda>_. False), cu_track_ids = Map.empty,
     boundaries_reported = 0, max_timestamp = 0, cu_draws = 0, cu_log = []\<rparr>"

definition cpu_call :: "cpu_io \<Rightarrow> event \<Rightarrow> cpu_util \<Rightarrow> i32 \<times> cpu_util" where
  "cpu_call io e u = (case call (cio_cb io) (MEvent e) (cu_log u) of (r, log) \<Rightarrow> (r, u\<lparr>cu_log := log\<rparr>))"

definition cpu_percent :: "u64 \<Rightarrow> u64 \<Rightarrow> f64_bits" where
  "cpu_percent time elapsed_ns = f64_mul (f64_div (f64_of_u64 time) (f64_of_u64 elapsed_ns)) (f64_of_u64 100)"

text \<open>The interval of an event is added to its thread's statistics.\<close>

definition add_interval :: "cpu_event \<Rightarrow> cpu_util \<Rightarrow> cpu_util" where
  "add_interval e u =
     (if ce_tgid e \<noteq> 0 \<and> ce_tid e \<noteq> 0 \<and> ce_start_time e \<noteq> 0
      then let key = (ce_tgid e, ce_tid e);
               s = (case cu_stats u key of Some s \<Rightarrow> s | None \<Rightarrow> thread_stats_default)
           in u\<lparr>cu_stats := (cu_stats u)(key \<mapsto>
                  \<lparr>cpu_time_ns = cpu_time_ns s + (ce_end_time e - ce_start_time e),
                   kernel_time_ns = kernel_time_ns s + ce_kernel_time_ns e,
                   min_timestamp = min (min_timestamp s) (ce_start_time e)\<rparr>)\<rparr>
      else u)"

definition cpu_track_ids :: "cpu_io \<Rightarrow> thread_key \<Rightarrow> cpu_util \<Rightarrow> (u64 \<times> u64) \<times> cpu_util" where
  "cpu_track_ids io key u =
     (case cu_track_ids u key of
        Some ids \<Rightarrow> (ids, u)
      | None \<Rightarrow>
          let ids = (cio_rng io (cu_draws u), cio_rng io (Suc (cu_draws u)))
          in (ids, u\<lparr>cu_draws := cu_draws u + 2, cu_track_ids := (cu_track_ids u)(key \<mapsto> ids)\<rparr>))"

text \<open>One of the two counters: its track is recorded as submitted only once the callback took it.\<close>

definition emit_usage :: "cpu_io \<Rightarrow> string \<Rightarrow> thread_key \<Rightarrow> u64 \<Rightarrow> f64_bits \<Rightarrow> u64 \<Rightarrow> cpu_util \<Rightarrow> i32 \<times> cpu_util" where
  "emit_usage io name key i v ts u =
     (case (if cu_submitted u (CounterId i) then (0, u)
            else case cpu_call io (ETrack \<lparr>trk_name = name, trk_type = TyCounter i (Some ''%''),
                        trk_parent = Some (TyThread (snd key) (fst key))\<rparr>) u of
                   (r, u1) \<Rightarrow> if r \<noteq> 0 then (r, u1)
                              else (0, u1\<lparr>cu_submitted := (cu_submitted u1)(CounterId i := True)\<rparr>)) of
        (r, u1) \<Rightarrow>
          if r \<noteq> 0 then (r, u1)
          else cpu_call io (ECounter \<lparr>ctr_name = name, ctr_value = v, ctr_timestamp = ts, ctr_track_id = CounterId i,
                 ctr_labels = labels_new, ctr_unit = Some ''%''\<rparr>) u1)"

fun report :: "cpu_io \<Rightarrow> thread_key list \<Rightarrow> cpu_util \<Rightarrow> i32 \<times> cpu_util" where
  "report io [] u = (0, u)"
| "report io (key # keys) u =
     (case cu_stats u key of
        None \<Rightarrow> report io keys u
      | Some s \<Rightarrow>
          let elapsed_ns = max_timestamp u - min_timestamp s;
              ((cpu_id, kernel_id), u1) = cpu_track_ids io key u;
              (r1, u2) = emit_usage io ''cpu_time'' key cpu_id (cpu_percent (cpu_time_ns s) elapsed_ns) (min_timestamp s) u1
          in if r1 \<noteq> 0 then (r1, u2)
             else let (r2, u3) = emit_usage io ''kernel_time'' key kernel_id
                                   (cpu_percent (kernel_time_ns s) elapsed_ns) (min_timestamp s) u2
                  in if r2 \<noteq> 0 then (r2, u3)
                     else report io keys (u3\<lparr>cu_stats := (cu_stats u3)(key \<mapsto>
                            \<lparr>cpu_time_ns = 0, kernel_time_ns = 0, min_timestamp = max_timestamp u3\<rparr>)\<rparr>))"

definition cpu_handle_event :: "cpu_io \<Rightarrow> thread_key list \<Rightarrow> cpu_event \<Rightarrow> cpu_util \<Rightarrow> i32 \<times> cpu_util" where
  "cpu_handle_event io order e u =
     (let u1 = add_interval e u;
          u2 = u1\<lparr>max_timestamp := max (max_timestamp u1) (ce_end_time e)\<rparr>
      in if ce_boundary e
         then let n = Suc (boundaries_reported u2)
              in if n = cio_nprocs io then report io order (u2\<lparr>boundaries_reported := 0\<rparr>)
                 else (0, u2\<lparr>boundaries_reported := n\<rparr>)
         else (0, u2))"

fun cpu_run :: "cpu_io \<Rightarrow> (thread_key list \<times> cpu_event) list \<Rightarrow> cpu_util \<Rightarrow> cpu_util" where
  "cpu_run io [] u = u"
| "cpu_run io ((order, e) # es) u = cpu_run io es (snd (cpu_handle_event io order e u))"

section \<open>Invariant\<close>

definition interval_ok :: "cpu_event \<Rightarrow> bool" where
  "interval_ok e \<longleftrightarrow> ce_start_time e \<le> ce_end_time e"

text \<open>
  The statistics never reach beyond the last reported time, submitted tracks are announced,
  the pending boundaries are fewer than the CPUs.
\<close>

definition cpu_ok :: "message list \<Rightarrow> cpu_util \<Rightarrow> bool" where
  "cpu_ok base u \<longleftrightarrow> log_grows base (cu_log u) \<and> announced_first (cu_log u) \<and>
     (\<forall>i. cu_submitted u (CounterId i) \<longrightarrow> (\<exists>m \<in> set (cu_log u). announces m (CounterId i))) \<and>
     (\<forall>k s. cu_stats u k = Some s \<longrightarrow> min_timestamp s \<le> max_timestamp u)"

lemma cpu_call_eq: "cpu_call io e u = (cio_cb io (length (cu_log u)), u\<lparr>cu_log := cu_log u @ [MEvent e]\<rparr>)"
  by (simp add: cpu_call_def call_def)

lemma cpu_ok_interval:
  assumes "cpu_ok base u" "interval_ok e"
  shows "cpu_ok base ((add_interval e u)\<lparr>max_timestamp := max (max_timestamp (add_interval e u)) (ce_end_time e)\<rparr>)"
  using assms
  by (auto simp: cpu_ok_def add_interval_def interval_ok_def Let_def le_max_iff_disj min_le_iff_disj)

lemma cpu_ok_track_ids: "cpu_ok base u \<Longrightarrow> cpu_ok base (snd (cpu_track_ids io key u))"
  by (auto simp: cpu_ok_def cpu_track_ids_def Let_def split: option.split)

lemma cpu_ok_emit:
  assumes "cpu_ok base u"
  shows "cpu_ok base (snd (emit_usage io name key i v ts u))"
proof (cases "cu_submitted u (CounterId i)")
  case True
  with assms show ?thesis by (auto simp: emit_usage_def cpu_call_eq cpu_ok_def announced_first_snoc)
next
  case False
  then show ?thesis
    using assms by (auto simp: emit_usage_def cpu_call_eq cpu_ok_def announced_first_snoc announced_first_snoc2)
qed

lemma emit_usage_keeps:
  "cu_stats (snd (emit_usage io name key i v ts u)) = cu_stats u"
  "max_timestamp (snd (emit_usage io name key i v ts u)) = max_timestamp u"
  by (simp_all add: emit_usage_def cpu_call_eq)

lemma cpu_ok_report: "cpu_ok base u \<Longrightarrow> cpu_ok base (snd (report io keys u))"
proof (induction keys arbitrary: u)
  case (Cons key keys)
  show ?case
  proof (cases "cu_stats u key")
    case None
    with Cons show ?thesis by simp
  next
    case (Some s)
    obtain a b u1 where t: "cpu_track_ids io key u = ((a, b), u1)" by (metis prod.collapse)
    let ?el = "max_timestamp u - min_timestamp s"
    obtain r1 u2 where e1: "emit_usage io ''cpu_time'' key a (cpu_percent (cpu_time_ns s) ?el) (min_timestamp s) u1 = (r1, u2)"
      by fastforce
    obtain r2 u3 where e2: "emit_usage io ''kernel_time'' key b (cpu_percent (kernel_time_ns s) ?el) (min_timestamp s) u2 = (r2, u3)"
      by fastforce
    have u1: "cpu_ok base u1" using cpu_ok_track_ids [OF Cons.prems, of io key] t by simp
    then have u2: "cpu_ok base u2" using cpu_ok_emit [OF u1] e1 by (metis snd_conv)
    then have u3: "cpu_ok base u3" using cpu_ok_emit [OF u2] e2 by (metis snd_conv)
    let ?u4 = "u3\<lparr>cu_stats := (cu_stats u3)(key \<mapsto> \<lparr>cpu_time_ns = 0, kernel_time_ns = 0, min_timestamp = max_timestamp u3\<rparr>)\<rparr>"
    have "cpu_ok base ?u4" using u3 by (auto simp: cpu_ok_def)
    then have "cpu_ok base (snd (report io keys ?u4))" by (rule Cons.IH)
    then show ?thesis using Some t e1 e2 u2 u3 by (simp add: Let_def)
  qed
qed simp

lemma cpu_ok_handle: "\<lbrakk>cpu_ok base u; interval_ok e\<rbrakk> \<Longrightarrow> cpu_ok base (snd (cpu_handle_event io order e u))"
proof -
  assume a: "cpu_ok base u" "interval_ok e"
  let ?u2 = "(add_interval e u)\<lparr>max_timestamp := max (max_timestamp (add_interval e u)) (ce_end_time e)\<rparr>"
  have u2: "cpu_ok base ?u2" by (rule cpu_ok_interval [OF a])
  then have "cpu_ok base (?u2\<lparr>boundaries_reported := n\<rparr>)" for n by (simp add: cpu_ok_def)
  with u2 show ?thesis by (simp add: cpu_handle_event_def Let_def cpu_ok_report)
qed

lemma cpu_run_ok: "\<lbrakk>cpu_ok base u; \<forall>(order, e) \<in> set es. interval_ok e\<rbrakk> \<Longrightarrow> cpu_ok base (cpu_run io es u)"
  by (induction io es u rule: cpu_run.induct) (auto simp: cpu_ok_handle)


definition sample_interval :: cpu_event where
  "sample_interval = \<lparr>ce_tid = 7, ce_tgid = 5, ce_end_time = 300, ce_kernel_time_ns = 20, ce_start_time = 100, ce_cpu = 0,
     ce_boundary = True\<rparr>"

end
