(* ===== verification/Block_Devices.thy ===== *)
theory Block_Devices
  imports Bpf_Common "HOL-Library.List_Lexorder" "HOL-Library.Char_ord"
begin

text \<open>
  The device side of \<^verbatim>\<open>bpf/src/blocktrack.rs\<close>: device numbers, device filters, the mount table and
  the registry of device tracks. The file system is a parameter (record \<open>fs\<close>): the results of
  \<^verbatim>\<open>fs::canonicalize\<close>, \<^verbatim>\<open>Path::exists\<close>, \<^verbatim>\<open>fs::read_to_string\<close>, \<^verbatim>\<open>fs::metadata\<close> (as the major and minor
  number of the device) and \<^verbatim>\<open>fs::read_dir\<close>, errors as their text. Iteration over a hash map or set
  visits the entries in the order a parameter gives.
\<close>

section \<open>Numbers in text\<close>

datatype parse_int_error = Empty | InvalidDigit | PosOverflow

fun show_parse_int_error :: "parse_int_error \<Rightarrow> string" where
  "show_parse_int_error Empty = ''cannot parse integer from empty string''"
| "show_parse_int_error InvalidDigit = ''invalid digit found in string''"
| "show_parse_int_error PosOverflow = ''number too large to fit in target type''"

text \<open>\<^verbatim>\<open>str::parse::<u64>\<close>: an optional plus sign, then digits.\<close>

fun parse_digits :: "nat \<Rightarrow> string \<Rightarrow> parse_int_error + nat" where
  "parse_digits acc [] = Inr acc"
| "parse_digits acc (ch # cs) =
     (if \<not> is_digit ch then Inl InvalidDigit
      else let acc' = 10 * acc + (of_char ch - 48)
           in if 2 ^ 64 \<le> acc' then Inl PosOverflow else parse_digits acc' cs)"

definition parse_u64 :: "string \<Rightarrow> parse_int_error + u64" where
  "parse_u64 s =
     (case s of
        [] \<Rightarrow> Inl Empty
      | ch # cs \<Rightarrow>
          if ch = CHR ''+'' \<and> cs \<noteq> [] then map_sum (\<lambda>e. e) of_nat (parse_digits 0 cs)
          else map_sum (\<lambda>e. e) of_nat (parse_digits 0 s))"

text \<open>\<^verbatim>\<open>str::split_once\<close> on a character.\<close>

definition split_once :: "char \<Rightarrow> string \<Rightarrow> (string \<times> string) option" where
  "split_once ch s =
     (if ch \<in> set s then Some (takeWhile (\<lambda>x. x \<noteq> ch) s, tl (dropWhile (\<lambda>x. x \<noteq> ch) s)) else None)"

section \<open>Device numbers\<close>

definition encode_device :: "u64 \<Rightarrow> u64 \<Rightarrow> bpf_error + u32" where
  "encode_device major minor =
     (if push_bit 12 1 \<le> major \<or> push_bit 20 1 \<le> minor
      then Inl (LoadError (''block device number is out of range: '' @ show_nat (unat major) @ '':'' @ show_nat (unat minor)))
      else Inr (push_bit 20 (ucast major) OR ucast minor))"

definition decode_device :: "u32 \<Rightarrow> u32 \<times> u32" where
  "decode_device dev = (drop_bit 20 dev, dev AND (push_bit 20 1 - 1))"

definition format_device :: "u32 \<Rightarrow> string" where
  "format_device dev = (case decode_device dev of (major, minor) \<Rightarrow> show_nat (unat major) @ '':'' @ show_nat (unat minor))"

definition parse_major_minor :: "string \<Rightarrow> bpf_error + u32" where
  "parse_major_minor value =
     (case split_once CHR '':'' value of
        None \<Rightarrow> Inl (LoadError (''invalid block device number: '' @ value))
      | Some (major, minor) \<Rightarrow>
          (case parse_u64 major of
             Inl e \<Rightarrow> Inl (LoadError (''invalid block device '' @ value @ '': '' @ show_parse_int_error e))
           | Inr mj \<Rightarrow>
               (case parse_u64 minor of
                  Inl e \<Rightarrow> Inl (LoadError (''invalid block device '' @ value @ '': '' @ show_parse_int_error e))
                | Inr mn \<Rightarrow> encode_device mj mn)))"

section \<open>Paths and filters\<close>

record fs =
  fs_canonicalize :: "string \<Rightarrow> string + string"
  fs_exists :: "string \<Rightarrow> bool"
  fs_read_to_string :: "string \<Rightarrow> string + string"
  fs_device :: "string \<Rightarrow> string + u64 \<times> u64"
  fs_read_dir :: "string \<Rightarrow> string + (string + string) list"

definition is_absolute :: "string \<Rightarrow> bool" where
  "is_absolute p \<longleftrightarrow> take 1 p = ''/''"

text \<open>\<^verbatim>\<open>Path::join\<close>: an absolute right side replaces the left.\<close>

definition path_join :: "string \<Rightarrow> string \<Rightarrow> string" where
  "path_join p q =
     (if is_absolute q then q else if p = [] \<or> last p = CHR ''/'' then p @ q else p @ ''/'' @ q)"

text \<open>\<^verbatim>\<open>Path::file_name\<close> and \<^verbatim>\<open>Path::parent\<close> of a canonical path, which has no trailing slash and no dots.\<close>

definition path_file_name :: "string \<Rightarrow> string option" where
  "path_file_name p = (let n = rev (takeWhile (\<lambda>x. x \<noteq> CHR ''/'') (rev p)) in if n = [] then None else Some n)"

definition path_parent :: "string \<Rightarrow> string option" where
  "path_parent p =
     (if p = ''/'' \<or> p = [] then None
      else let d = rev (dropWhile (\<lambda>x. x \<noteq> CHR ''/'') (rev p))
           in Some (if length d \<le> 1 then d else butlast d))"

definition sysfs_device_number :: "fs \<Rightarrow> string \<Rightarrow> bpf_error + u32" where
  "sysfs_device_number f path =
     (case fs_read_to_string f (path_join path ''dev'') of
        Inl e \<Rightarrow> Inl (LoadError (''failed to read block device '' @ path @ '': '' @ e))
      | Inr v \<Rightarrow> parse_major_minor (trim v))"

definition physical_device :: "fs \<Rightarrow> u32 \<Rightarrow> bpf_error + u32" where
  "physical_device f dev =
     (case fs_canonicalize f (''/sys/dev/block/'' @ format_device dev) of
        Inl e \<Rightarrow> Inl (LoadError (''failed to resolve block device '' @ format_device dev @ '': '' @ e))
      | Inr path \<Rightarrow>
          if fs_exists f (path_join path ''partition'')
          then (case path_parent path of
                  None \<Rightarrow> Inl (LoadError (''block partition has no parent: '' @ path))
                | Some parent \<Rightarrow> sysfs_device_number f parent)
          else Inr dev)"

definition resolve_device_filter :: "fs \<Rightarrow> string \<Rightarrow> bpf_error + u32" where
  "resolve_device_filter f value =
     (let dev = (if CHR '':'' \<in> set value \<and> CHR ''/'' \<notin> set value then parse_major_minor value
                 else if is_absolute value
                 then (case fs_device f value of
                         Inl e \<Rightarrow> Inl (LoadError (''failed to inspect device '' @ value @ '': '' @ e))
                       | Inr (major, minor) \<Rightarrow> encode_device major minor)
                 else sysfs_device_number f (path_join ''/sys/class/block'' value))
      in case dev of Inl e \<Rightarrow> Inl e | Inr d \<Rightarrow> physical_device f d)"

definition discover_physical_devices :: "fs \<Rightarrow> bpf_error + u32 list" where
  "discover_physical_devices f =
     (case fs_read_dir f ''/sys/class/block'' of
        Inl e \<Rightarrow> Inl (LoadError (''failed to enumerate block devices: '' @ e))
      | Inr entries \<Rightarrow>
          map_sum (\<lambda>e. e) remdups (collect_results (map (\<lambda>entry. case entry of
             Inl e \<Rightarrow> Inl (LoadError (''failed to enumerate block devices: '' @ e))
           | Inr path \<Rightarrow> (case sysfs_device_number f path of Inl e \<Rightarrow> Inl e | Inr d \<Rightarrow> physical_device f d)) entries)))"

section \<open>Mounts\<close>

text \<open>\<^verbatim>\<open>str::replace\<close> for a pattern that is not empty: occurrences from left to right, not overlapping.\<close>

function replace_all :: "string \<Rightarrow> string \<Rightarrow> string \<Rightarrow> string" where
  "replace_all pat r [] = []"
| "replace_all pat r (ch # cs) =
     (if pat \<noteq> [] \<and> take (length pat) (ch # cs) = pat then r @ replace_all pat r (drop (length pat) (ch # cs))
      else ch # replace_all pat r cs)"
  by pat_completeness auto
termination by (relation "measure (\<lambda>(pat, r, s). length s)") (auto simp: neq_Nil_conv)

definition decode_mount_field :: "string \<Rightarrow> string" where
  "decode_mount_field v =
     replace_all (CHR 0x5C # ''134'') [CHR 0x5C]
       (replace_all (CHR 0x5C # ''012'') [CHR 0x0A]
         (replace_all (CHR 0x5C # ''011'') [CHR 0x09]
           (replace_all (CHR 0x5C # ''040'') '' '' v)))"

record mount_info =
  mi_filesystem :: string
  mi_source :: string
  mi_mountpoint :: string

fun split_on :: "(char \<Rightarrow> bool) \<Rightarrow> string \<Rightarrow> string list" where
  "split_on P [] = [[]]"
| "split_on P (ch # cs) =
     (if P ch then [] # split_on P cs
      else case split_on P cs of [] \<Rightarrow> [[ch]] | w # ws \<Rightarrow> (ch # w) # ws)"

text \<open>\<^verbatim>\<open>str::lines\<close> and \<^verbatim>\<open>str::split_whitespace\<close>.\<close>

definition lines_of :: "string \<Rightarrow> string list" where
  "lines_of s =
     (let ls = split_on (\<lambda>ch. ch = CHR 0x0A) s;
          ls' = (if last ls = [] then butlast ls else ls)
      in map (\<lambda>l. if l \<noteq> [] \<and> last l = CHR 0x0D then butlast l else l) ls')"

definition split_whitespace :: "string \<Rightarrow> string list" where
  "split_whitespace s = filter (\<lambda>w. w \<noteq> []) (split_on is_space s)"

definition position :: "('a \<Rightarrow> bool) \<Rightarrow> 'a list \<Rightarrow> nat option" where
  "position P xs = (let k = length (takeWhile (\<lambda>x. \<not> P x) xs) in if k < length xs then Some k else None)"

type_synonym mount_table = "(u32 \<times> mount_info list) list"

definition extend_mounts :: "u32 \<Rightarrow> mount_info list \<Rightarrow> mount_table \<Rightarrow> mount_table" where
  "extend_mounts dev ms t =
     (case map_of t dev of
        None \<Rightarrow> t @ [(dev, ms)]
      | Some old \<Rightarrow> map (\<lambda>(d, x). if d = dev then (d, x @ ms) else (d, x)) t)"

definition mount_line :: "string \<Rightarrow> (u32 \<times> mount_info) option" where
  "mount_line l =
     (let fields = split_whitespace l
      in case position (\<lambda>w. w = ''-'') fields of
           None \<Rightarrow> None
         | Some separator \<Rightarrow>
             if length fields \<le> separator + 2 \<or> length fields < 5 then None
             else (case parse_major_minor (fields ! 2) of
                     Inl e \<Rightarrow> None
                   | Inr dev \<Rightarrow> Some (dev, \<lparr>mi_filesystem = fields ! (separator + 1),
                        mi_source = decode_mount_field (fields ! (separator + 2)),
                        mi_mountpoint = decode_mount_field (fields ! 4)\<rparr>)))"

definition read_mountinfo :: "fs \<Rightarrow> string + mount_table" where
  "read_mountinfo f =
     (case fs_read_to_string f ''/proc/self/mountinfo'' of
        Inl e \<Rightarrow> Inl e
      | Inr content \<Rightarrow>
          Inr (fold (\<lambda>l t. case mount_line l of None \<Rightarrow> t | Some (dev, mi) \<Rightarrow> extend_mounts dev [mi] t)
                 (lines_of content) []))"

section \<open>Devices\<close>

record device_info =
  di_dev :: u32
  di_name :: string
  di_mounts :: "mount_info list"

definition major_minor :: "device_info \<Rightarrow> string" where
  "major_minor d = format_device (di_dev d)"

fun join_with :: "string \<Rightarrow> string list \<Rightarrow> string" where
  "join_with sep [] = []"
| "join_with sep [w] = w"
| "join_with sep (w # ws) = w @ sep @ join_with sep ws"

text \<open>The different file systems of a device, sorted.\<close>

definition filesystems_of :: "mount_info list \<Rightarrow> string" where
  "filesystems_of ms = join_with '','' (sort (remdups (map mi_filesystem ms)))"

definition device_track_name :: "device_info \<Rightarrow> string" where
  "device_track_name d =
     di_name d @ '' ('' @ major_minor d @ '')'' @
     (if di_mounts d = [] then []
      else '' '' @ filesystems_of (di_mounts d) @ '' '' @ join_with '','' (map mi_mountpoint (take 3 (di_mounts d))))"

record device_registry =
  reg_mounts :: mount_table
  reg_infos :: "u32 \<Rightarrow> device_info option"
  reg_track_ids :: "u32 \<Rightarrow> u64 option"

text \<open>Mounts of a partition count for its physical device too; the table is copied before it is extended.\<close>

definition parent_mounts :: "fs \<Rightarrow> u32 \<times> mount_info list \<Rightarrow> mount_table \<Rightarrow> mount_table" where
  "parent_mounts f e t =
     (case e of (dev, ms) \<Rightarrow>
        case physical_device f dev of
          Inl err \<Rightarrow> t
        | Inr parent \<Rightarrow> if parent \<noteq> dev then extend_mounts parent ms t else t)"

definition device_registry_new :: "fs \<Rightarrow> (mount_table \<Rightarrow> mount_table) \<Rightarrow> device_registry" where
  "device_registry_new f order =
     (let mounts = (case read_mountinfo f of Inl e \<Rightarrow> [] | Inr t \<Rightarrow> t)
      in \<lparr>reg_mounts = fold (parent_mounts f) (order mounts) mounts, reg_infos = Map.empty, reg_track_ids = Map.empty\<rparr>)"

definition device_info_of :: "fs \<Rightarrow> u32 \<Rightarrow> device_registry \<Rightarrow> device_info \<times> device_registry" where
  "device_info_of f dev r =
     (case reg_infos r dev of
        Some info \<Rightarrow> (info, r)
      | None \<Rightarrow>
          let name = (case fs_canonicalize f (''/sys/dev/block/'' @ format_device dev) of
                        Inl e \<Rightarrow> None | Inr path \<Rightarrow> path_file_name path);
              info = \<lparr>di_dev = dev,
                      di_name = (case name of Some n \<Rightarrow> n | None \<Rightarrow> ''block-'' @ format_device dev),
                      di_mounts = (case map_of (reg_mounts r) dev of Some ms \<Rightarrow> ms | None \<Rightarrow> [])\<rparr>
          in (info, r\<lparr>reg_infos := (reg_infos r)(dev \<mapsto> info)\<rparr>))"

section \<open>Round trips\<close>

lemma unat_ucast_u32: "unat (x :: u64) < 2 ^ 32 \<Longrightarrow> unat (ucast x :: u32) = unat x"
  by (simp add: unsigned_ucast_eq take_bit_nat_eq_self)

lemma show_nat_not_Nil [simp]: "show_nat n \<noteq> []"
  by (subst show_nat.simps) simp

lemma digit_of_char: "(n :: nat) < 10 \<Longrightarrow> is_digit (char_of (48 + n)) \<and> of_char (char_of (48 + n) :: char) = 48 + n"
  by (simp add: is_digit_def)

lemma show_nat_digits: "ch \<in> set (show_nat n) \<Longrightarrow> is_digit ch"
proof (induction n rule: show_nat.induct)
  case (1 n)
  show ?case
  proof (cases "n < 10")
    case True
    with 1(2) digit_of_char [OF True] show ?thesis by (subst (asm) show_nat.simps) simp
  next
    case False
    with 1 digit_of_char [of "n mod 10"] show ?thesis by (subst (asm) show_nat.simps) auto
  qed
qed

lemma parse_digits_append:
  "parse_digits a xs = Inr b \<Longrightarrow> parse_digits a (xs @ ys) = parse_digits b ys"
  by (induction a xs rule: parse_digits.induct) (auto simp: Let_def split: if_splits)

lemma parse_show_nat: "n < 2 ^ 64 \<Longrightarrow> parse_digits 0 (show_nat n) = Inr n"
proof (induction n rule: show_nat.induct)
  case (1 n)
  show ?case
  proof (cases "n < 10")
    case True
    then show ?thesis using digit_of_char [OF True] 1(2) by (subst show_nat.simps) (simp add: Let_def)
  next
    case False
    have "parse_digits 0 (show_nat (n div 10)) = Inr (n div 10)" using False 1 by simp
    then show ?thesis
      using False digit_of_char [of "n mod 10"] 1(2)
      by (subst show_nat.simps) (simp add: parse_digits_append Let_def)
  qed
qed

lemma parse_u64_show: "parse_u64 (show_nat (unat x)) = Inr x"
proof -
  obtain ch cs where s: "show_nat (unat x) = ch # cs" using show_nat_not_Nil by (meson neq_Nil_conv)
  have "is_digit ch" using show_nat_digits [of ch "unat x"] s by simp
  then have "ch \<noteq> CHR ''+''" by (auto simp: is_digit_def)
  moreover have "parse_digits 0 (ch # cs) = Inr (unat x)"
    using parse_show_nat [of "unat x"] s unsigned_less [of x, where 'a = nat] by (simp del: parse_digits.simps)
  ultimately show ?thesis by (simp add: parse_u64_def s del: parse_digits.simps)
qed

lemma split_once_first: "ch \<notin> set xs \<Longrightarrow> split_once ch (xs @ ch # ys) = Some (xs, ys)"
proof -
  assume "ch \<notin> set xs"
  then have "\<And>x. x \<in> set xs \<Longrightarrow> x \<noteq> ch" by auto
  then show ?thesis by (simp add: split_once_def takeWhile_append2 dropWhile_append2)
qed

lemma encode_device_Inr:
  "encode_device major minor = Inr dev \<longleftrightarrow>
     major < 4096 \<and> minor < 1048576 \<and> dev = push_bit 20 (ucast major) OR ucast minor"
  by (auto simp: encode_device_def not_le)

lemma encode_decode_device:
  assumes "encode_device major minor = Inr dev"
  shows "decode_device dev = (ucast major, ucast minor)"
proof -
  have lt: "major < 2 ^ 12" "minor < 2 ^ 20" and d: "dev = push_bit 20 (ucast major) OR ucast minor"
    using assms by (simp_all add: encode_device_Inr)
  have m: "take_bit 12 major = major" "take_bit 20 minor = minor"
    unfolding take_bit_eq_mask by (rule less_mask_eq [OF lt(1)], rule less_mask_eq [OF lt(2)])
  have bm: "bit major n \<Longrightarrow> n < 12" "bit minor n \<Longrightarrow> n < 20" for n
    using m by (metis bit_take_bit_iff)+
  have mask: "push_bit 20 1 - 1 = (mask 20 :: u32)" by (simp add: mask_eq_exp_minus_1)
  show ?thesis
    unfolding d decode_device_def mask
    by (auto intro!: bit_word_eqI simp: bit_simps dest: bm)
qed

lemma decode_encode_device: "encode_device (ucast (fst (decode_device dev))) (ucast (snd (decode_device dev))) = Inr dev"
proof -
  have mask: "push_bit 20 1 - 1 = (mask 20 :: u32)" by (simp add: mask_eq_exp_minus_1)
  have high: "bit dev (20 + n) \<Longrightarrow> n < 12" for n using bit_imp_le_length [of dev "20 + n"] by simp
  have "(ucast (drop_bit 20 dev) :: u64) = ucast (drop_bit 20 dev) AND mask 12"
    using high by (auto intro!: bit_word_eqI simp: bit_simps)
  moreover have "(ucast (dev AND mask 20) :: u64) = ucast (dev AND mask 20) AND mask 20"
    by (auto intro!: bit_word_eqI simp: bit_simps)
  ultimately have "(ucast (drop_bit 20 dev) :: u64) < 2 ^ 12" "(ucast (dev AND mask 20) :: u64) < 2 ^ 20"
    using and_mask_less_size [of 12 "ucast (drop_bit 20 dev) :: u64"]
      and_mask_less_size [of 20 "ucast (dev AND mask 20) :: u64"] by (simp_all add: word_size)
  moreover have "dev = push_bit 20 (ucast (ucast (drop_bit 20 dev) :: u64)) OR ucast (ucast (dev AND mask 20) :: u64)"
    by (auto intro!: bit_word_eqI simp: bit_simps)
  ultimately show ?thesis unfolding encode_device_Inr decode_device_def mask by simp
qed

lemma ucast_u32_u64_u32: "(ucast (ucast (x :: u32) :: u64) :: u32) = x"
  by (auto intro!: bit_word_eqI simp: bit_simps)

text \<open>
  Device numbers survive their encodings. A major and minor number in range is encoded so
  that decoding gives it back, every device number is the encoding of what it decodes to, out
  of range numbers are rejected, and parsing the text printed for a device gives the device.
\<close>

theorem device_number_roundtrip:
  "(case encode_device major minor of
      Inr dev \<Rightarrow> major < 4096 \<and> minor < 1048576 \<and> decode_device dev = (ucast major, ucast minor)
    | Inl e \<Rightarrow> \<not> (major < 4096 \<and> minor < 1048576)) \<and>
   encode_device (ucast (fst (decode_device dev))) (ucast (snd (decode_device dev))) = Inr dev \<and>
   parse_major_minor (format_device dev) = Inr dev"
proof (intro conjI)
  show "case encode_device major minor of
      Inr dev \<Rightarrow> major < 4096 \<and> minor < 1048576 \<and> decode_device dev = (ucast major, ucast minor)
    | Inl e \<Rightarrow> \<not> (major < 4096 \<and> minor < 1048576)"
    using encode_decode_device [of major minor] by (auto simp: encode_device_Inr encode_device_def split: sum.split if_splits)
  show "encode_device (ucast (fst (decode_device dev))) (ucast (snd (decode_device dev))) = Inr dev"
    by (rule decode_encode_device)
  obtain a b where ab: "decode_device dev = (a, b)" by (cases "decode_device dev")
  have "CHR '':'' \<notin> set (show_nat n)" for n using show_nat_digits [of "CHR '':''" n] by (auto simp: is_digit_def)
  then have "split_once CHR '':'' (format_device dev) = Some (show_nat (unat a), show_nat (unat b))"
    by (simp add: format_device_def ab split_once_first)
  moreover have "parse_u64 (show_nat (unat a)) = Inr (ucast a)" "parse_u64 (show_nat (unat b)) = Inr (ucast b)"
    using parse_u64_show [of "ucast a"] parse_u64_show [of "ucast b"] by simp_all
  ultimately show "parse_major_minor (format_device dev) = Inr dev"
    using decode_encode_device [of dev] ab by (simp add: parse_major_minor_def)
qed

text \<open>
  How the kernel prints a field of the mount table: space, tab, newline and backslash as
  three octal digits behind a backslash.
\<close>

definition escape_mount_char :: "char \<Rightarrow> string" where
  "escape_mount_char ch =
     (if ch = CHR '' '' then CHR 0x5C # ''040'' else if ch = CHR 0x09 then CHR 0x5C # ''011''
      else if ch = CHR 0x0A then CHR 0x5C # ''012'' else if ch = CHR 0x5C then CHR 0x5C # ''134'' else [ch])"

text \<open>One replacement on text made of escapes and plain characters: \<open>S\<close> are the characters still escaped.\<close>

definition escape_in :: "char set \<Rightarrow> string \<Rightarrow> string" where
  "escape_in S s = concat (map (\<lambda>ch. if ch \<in> S then escape_mount_char ch else [ch]) s)"

lemma replace_match: "pat \<noteq> [] \<Longrightarrow> replace_all pat r (pat @ s) = r @ replace_all pat r s"
  by (cases pat) simp_all

lemma replace_skip: "ch \<noteq> p \<Longrightarrow> replace_all (p # pat) r (ch # cs) = ch # replace_all (p # pat) r cs"
  by simp

lemma replace_escape:
  assumes "x \<in> S" "CHR 0x5C \<in> S" "S \<subseteq> {CHR '' '', CHR 0x09, CHR 0x0A, CHR 0x5C}"
  shows "replace_all (escape_mount_char x) [x] (escape_in S s) = escape_in (S - {x}) s"
proof (induction s)
  case Nil
  then show ?case by (simp add: escape_in_def)
next
  case (Cons ch s)
  have split: "escape_in T (ch # s) = (if ch \<in> T then escape_mount_char ch else [ch]) @ escape_in T s" for T
    by (simp add: escape_in_def)
  have x: "\<exists>d. escape_mount_char x = CHR 0x5C # d" using assms(1,3) by (auto simp: escape_mount_char_def)
  consider "ch = x" | "ch \<noteq> x" "ch \<in> S" | "ch \<notin> S" by blast
  then show ?case
  proof cases
    case 1
    then show ?thesis
      using assms(1) x Cons.IH replace_match [of "escape_mount_char x" "[x]" "escape_in S s"] unfolding split by auto
  next
    case 2
    then have "ch \<in> {CHR '' '', CHR 0x09, CHR 0x0A, CHR 0x5C}" "x \<in> {CHR '' '', CHR 0x09, CHR 0x0A, CHR 0x5C}"
      using assms by auto
    then have "replace_all (escape_mount_char x) [x] (escape_mount_char ch @ escape_in S s) =
        escape_mount_char ch @ replace_all (escape_mount_char x) [x] (escape_in S s)"
      using 2(1) by (elim insertE emptyE) (simp_all add: escape_mount_char_def)
    then show ?thesis using 2 Cons.IH unfolding split by simp
  next
    case 3
    then have "ch \<noteq> CHR 0x5C" "ch \<notin> S - {x}" using assms(2) by auto
    then show ?thesis using x 3 Cons.IH unfolding split by (auto simp: replace_skip simp del: replace_all.simps)
  qed
qed

end
