(* ===== verification/Blocktrack.thy ===== *)
theory Blocktrack
  imports Block_Devices
begin

text \<open>
  \<^verbatim>\<open>bpf/src/blocktrack.rs\<close>: the block I/O collector. It reads the kernel's statistics per device,
  turns the differences between two readings into counters, and forwards request spans.
  Parameters: the callback, random numbers, the file system, the results of loading the BPF
  program, the contents of the kernel's maps when they are read, and the iteration order of
  hash sets.
\<close>

section \<open>Configuration\<close>

definition HISTOGRAM_BUCKETS :: nat where "HISTOGRAM_BUCKETS = 32"
definition MIN_RINGBUF_SIZE :: usize where "MIN_RINGBUF_SIZE = 4096"

datatype block_operation = Read | Write | Flush | Discard | Other

fun block_index :: "block_operation \<Rightarrow> nat" where
  "block_index Read = 0"
| "block_index Write = 1"
| "block_index Flush = 2"
| "block_index Discard = 3"
| "block_index Other = 4"

definition block_from_index :: "u8 \<Rightarrow> block_operation option" where
  "block_from_index i =
     (if i = 0 then Some Read else if i = 1 then Some Write else if i = 2 then Some Flush
      else if i = 3 then Some Discard else if i = 4 then Some Other else None)"

fun block_name :: "block_operation \<Rightarrow> string" where
  "block_name Read = ''read''"
| "block_name Write = ''write''"
| "block_name Flush = ''flush''"
| "block_name Discard = ''discard''"
| "block_name Other = ''other''"

datatype block_metric = BmThroughput | BmIops | BmLatency | BmSaturation | BmErrors

record block_io_config =
  bc_frequency :: u64
  bc_operations :: "block_operation list"
  bc_metrics :: "block_metric list"
  bc_devices :: "string list"
  bc_max_devices :: u32
  bc_max_requests :: u32
  bc_timeline :: bool
  bc_timeline_sample_every :: u32
  bc_timeline_min_latency_us :: u64
  bc_ringbuf :: usize

definition default_block_io_config :: block_io_config where
  "default_block_io_config =
     \<lparr>bc_frequency = 9, bc_operations = [Read, Write],
      bc_metrics = [BmThroughput, BmIops, BmLatency, BmSaturation, BmErrors], bc_devices = [], bc_max_devices = 64,
      bc_max_requests = 32768, bc_timeline = False, bc_timeline_sample_every = 1, bc_timeline_min_latency_us = 0,
      bc_ringbuf = 8 * 1024 * 1024\<rparr>"

definition block_has_metric :: "block_io_config \<Rightarrow> block_metric \<Rightarrow> bool" where
  "block_has_metric c m \<longleftrightarrow> m \<in> set (bc_metrics c)"

definition operation_mask :: "block_io_config \<Rightarrow> u32" where
  "operation_mask c = fold (\<lambda>op mask. mask OR push_bit (block_index op) 1) (bc_operations c) 0"

definition is_power_of_two :: "usize \<Rightarrow> bool" where
  "is_power_of_two n \<longleftrightarrow> n \<noteq> 0 \<and> n AND (n - 1) = 0"

definition block_validate :: "block_io_config \<Rightarrow> bpf_error + unit" where
  "block_validate c =
     (if bc_frequency c = 0 then Inl (LoadError ''block_io frequency must be greater than zero'')
      else if bc_operations c = [] \<or> bc_metrics c = []
      then Inl (LoadError ''block_io operations and metrics must not be empty'')
      else if bc_max_devices c = 0 \<or> bc_max_requests c = 0
      then Inl (LoadError ''block_io map limits must be greater than zero'')
      else if bc_timeline_sample_every c = 0
      then Inl (LoadError ''block_io timeline_sample_every must be greater than zero'')
      else if bc_timeline c \<and> (bc_ringbuf c < MIN_RINGBUF_SIZE \<or> 4294967295 < bc_ringbuf c \<or> \<not> is_power_of_two (bc_ringbuf c))
      then Inl (LoadError ''block_io ringbuf must be a power of two between 4096 and 4294967295 bytes'')
      else Inr ())"

section \<open>Statistics\<close>

record operation_stats =
  os_bytes :: u64
  os_operations :: u64
  os_errors :: u64
  os_queue_latency_ns :: u64
  os_service_latency_ns :: u64
  os_total_latency_ns :: u64
  os_service_histogram :: "u64 list"
  os_total_histogram :: "u64 list"

definition operation_delta :: "operation_stats \<Rightarrow> operation_stats \<Rightarrow> operation_stats" where
  "operation_delta s p =
     \<lparr>os_bytes = saturating_sub (os_bytes s) (os_bytes p),
      os_operations = saturating_sub (os_operations s) (os_operations p),
      os_errors = saturating_sub (os_errors s) (os_errors p),
      os_queue_latency_ns = saturating_sub (os_queue_latency_ns s) (os_queue_latency_ns p),
      os_service_latency_ns = saturating_sub (os_service_latency_ns s) (os_service_latency_ns p),
      os_total_latency_ns = saturating_sub (os_total_latency_ns s) (os_total_latency_ns p),
      os_service_histogram = map2 saturating_sub (os_service_histogram s) (os_service_histogram p),
      os_total_histogram = map2 saturating_sub (os_total_histogram s) (os_total_histogram p)\<rparr>"

text \<open>The array of statistics per operation is a function of the operation.\<close>

record device_stats =
  ds_operations :: "block_operation \<Rightarrow> operation_stats"
  ds_requeues :: u64
  ds_lost_requests :: u64
  ds_timeline_drops :: u64
  ds_first_seen_ns :: u64
  ds_last_seen_ns :: u64

definition device_delta :: "device_stats \<Rightarrow> device_stats option \<Rightarrow> device_stats" where
  "device_delta s prev =
     (case prev of
        None \<Rightarrow> s
      | Some p \<Rightarrow>
          if ds_first_seen_ns p \<noteq> ds_first_seen_ns s then s
          else \<lparr>ds_operations = (\<lambda>op. operation_delta (ds_operations s op) (ds_operations p op)),
                ds_requeues = saturating_sub (ds_requeues s) (ds_requeues p),
                ds_lost_requests = saturating_sub (ds_lost_requests s) (ds_lost_requests p),
                ds_timeline_drops = saturating_sub (ds_timeline_drops s) (ds_timeline_drops p),
                ds_first_seen_ns = ds_first_seen_ns s, ds_last_seen_ns = ds_last_seen_ns s\<rparr>)"

record device_depth =
  dd_first_seen_ns :: u64
  dd_last_update_ns :: u64
  dd_busy_ns :: u64
  dd_saturated_ns :: u64
  dd_inflight_ns :: u64
  dd_queued_ns :: u64
  dd_inflight :: u32
  dd_queued :: u32
  dd_max_inflight :: u32
  dd_max_queued :: u32

definition initial_depth :: "u64 \<Rightarrow> device_depth" where
  "initial_depth now = \<lparr>dd_first_seen_ns = now, dd_last_update_ns = now, dd_busy_ns = 0, dd_saturated_ns = 0,
     dd_inflight_ns = 0, dd_queued_ns = 0, dd_inflight = 0, dd_queued = 0, dd_max_inflight = 0, dd_max_queued = 0\<rparr>"

record depth_snapshot =
  sn_first_seen_ns :: u64
  sn_busy_ns :: u64
  sn_saturated_ns :: u64
  sn_inflight_ns :: u64
  sn_queued_ns :: u64
  sn_inflight :: u32
  sn_queued :: u32
  sn_max_inflight :: u32
  sn_max_queued :: u32

definition saturating_mul :: "u64 \<Rightarrow> u64 \<Rightarrow> u64" where
  "saturating_mul a b = (if unat a * unat b < 2 ^ 64 then a * b else - 1)"

text \<open>The depth integrals are extended to the time of the reading.\<close>

definition snapshot :: "device_depth \<Rightarrow> u64 \<Rightarrow> depth_snapshot" where
  "snapshot d now =
     (let elapsed = saturating_sub now (dd_last_update_ns d)
      in \<lparr>sn_first_seen_ns = dd_first_seen_ns d,
          sn_busy_ns = saturating_add (dd_busy_ns d) (if 0 < dd_inflight d then elapsed else 0),
          sn_saturated_ns = saturating_add (dd_saturated_ns d) (if 0 < dd_queued d then elapsed else 0),
          sn_inflight_ns = saturating_add (dd_inflight_ns d) (saturating_mul elapsed (ucast (dd_inflight d))),
          sn_queued_ns = saturating_add (dd_queued_ns d) (saturating_mul elapsed (ucast (dd_queued d))),
          sn_inflight = dd_inflight d, sn_queued = dd_queued d,
          sn_max_inflight = dd_max_inflight d, sn_max_queued = dd_max_queued d\<rparr>)"

definition depth_delta :: "depth_snapshot \<Rightarrow> depth_snapshot option \<Rightarrow> depth_snapshot" where
  "depth_delta s prev =
     (case prev of
        None \<Rightarrow> s
      | Some p \<Rightarrow>
          if sn_first_seen_ns p \<noteq> sn_first_seen_ns s then s
          else s\<lparr>sn_busy_ns := saturating_sub (sn_busy_ns s) (sn_busy_ns p),
                 sn_saturated_ns := saturating_sub (sn_saturated_ns s) (sn_saturated_ns p),
                 sn_inflight_ns := saturating_sub (sn_inflight_ns s) (sn_inflight_ns p),
                 sn_queued_ns := saturating_sub (sn_queued_ns s) (sn_queued_ns p)\<rparr>)"

text \<open>
  The upper bound, in microseconds, of the histogram bucket in which the given part of all
  requests is reached. Sums wrap as they do in the release profile.
\<close>

fun percentile_loop :: "u64 \<Rightarrow> nat \<Rightarrow> u64 \<Rightarrow> u64 list \<Rightarrow> f64_bits" where
  "percentile_loop target bucket cumulative [] = f64_of_u64 (push_bit 32 1)"
| "percentile_loop target bucket cumulative (count # rest) =
     (let cumulative' = cumulative + count
      in if target \<le> cumulative'
         then (if bucket = 0 then f64_of_u64 1 else f64_of_u64 (push_bit (min (bucket + 1) 32) 1))
         else percentile_loop target (Suc bucket) cumulative' rest)"

definition percentile_target :: "u64 list \<Rightarrow> f64_bits \<Rightarrow> u64" where
  "percentile_target histogram quantile = f64_ceil_u64 (f64_mul (f64_of_u64 (sum_list histogram)) quantile)"

definition histogram_percentile :: "u64 list \<Rightarrow> f64_bits \<Rightarrow> f64_bits" where
  "histogram_percentile histogram quantile =
     (if sum_list histogram = 0 then 0
      else percentile_loop (percentile_target histogram quantile) 0 0 histogram)"

definition Q50 :: f64_bits where "Q50 = f64_of_ratio 50 100"
definition Q95 :: f64_bits where "Q95 = f64_of_ratio 95 100"
definition Q99 :: f64_bits where "Q99 = f64_of_ratio 99 100"

section \<open>Samples\<close>

datatype block_kind =
    Throughput | Iops | QueueAverage | ServiceAverage | TotalAverage | ServiceP50 | ServiceP95 | ServiceP99
  | TotalP50 | TotalP95 | TotalP99 | BkErrors | BusyPercent | SaturatedPercent | AverageInflight | AverageQueued
  | Inflight | Queued | MaxInflight | MaxQueued | Requeues | LostRequests | TimelineDrops

record block_series_key =
  bk_dev :: u32
  bk_operation :: "block_operation option"
  bk_kind :: block_kind

record block_sample =
  bs_operation :: "block_operation option"
  bs_kind :: block_kind
  bs_name :: string
  bs_value :: f64_bits
  bs_unit :: string

definition block_counter_sample :: "block_operation option \<Rightarrow> block_kind \<Rightarrow> string \<Rightarrow> f64_bits \<Rightarrow> string \<Rightarrow> block_sample" where
  "block_counter_sample op k name v un =
     \<lparr>bs_operation = op, bs_kind = k, bs_name = name, bs_value = v, bs_unit = un\<rparr>"

definition per_operation_us :: "u64 \<Rightarrow> u64 \<Rightarrow> f64_bits" where
  "per_operation_us sum_ns operations = f64_div (f64_div (f64_of_u64 sum_ns) (f64_of_u64 (max operations 1))) (f64_of_u64 1000)"

definition operation_samples :: "block_io_config \<Rightarrow> block_operation \<Rightarrow> operation_stats \<Rightarrow> f64_bits \<Rightarrow> block_sample list" where
  "operation_samples c op s elapsed =
     (let smp = (\<lambda>k suffix v un. block_counter_sample (Some op) k (block_name op @ ''_'' @ suffix) v un)
      in (if block_has_metric c BmThroughput
          then [smp Throughput ''throughput'' (f64_div (f64_of_u64 (os_bytes s)) elapsed) ''bytes/s''] else []) @
         (if block_has_metric c BmIops
          then [smp Iops ''iops'' (f64_div (f64_of_u64 (os_operations s)) elapsed) ''operations/s''] else []) @
         (if block_has_metric c BmLatency
          then [smp QueueAverage ''queue_latency_avg'' (per_operation_us (os_queue_latency_ns s) (os_operations s)) ''us'',
                smp ServiceAverage ''service_latency_avg'' (per_operation_us (os_service_latency_ns s) (os_operations s)) ''us'',
                smp TotalAverage ''total_latency_avg'' (per_operation_us (os_total_latency_ns s) (os_operations s)) ''us'',
                smp ServiceP50 ''service_latency_p50'' (histogram_percentile (os_service_histogram s) Q50) ''us'',
                smp ServiceP95 ''service_latency_p95'' (histogram_percentile (os_service_histogram s) Q95) ''us'',
                smp ServiceP99 ''service_latency_p99'' (histogram_percentile (os_service_histogram s) Q99) ''us'',
                smp TotalP50 ''total_latency_p50'' (histogram_percentile (os_total_histogram s) Q50) ''us'',
                smp TotalP95 ''total_latency_p95'' (histogram_percentile (os_total_histogram s) Q95) ''us'',
                smp TotalP99 ''total_latency_p99'' (histogram_percentile (os_total_histogram s) Q99) ''us''] else []) @
         (if block_has_metric c BmErrors
          then [smp BkErrors ''errors'' (f64_of_u64 (os_errors s)) ''count''] else []))"

definition depth_samples :: "depth_snapshot \<Rightarrow> u64 \<Rightarrow> block_sample list" where
  "depth_samples d elapsed_ns =
     (let elapsed = f64_of_u64 (max elapsed_ns 1);
          percent = (\<lambda>ns. f64_clamp 0 (f64_of_u64 100) (f64_div (f64_mul (f64_of_u64 ns) (f64_of_u64 100)) elapsed));
          smp = (\<lambda>k name v un. block_counter_sample None k name v un);
          requests = (\<lambda>k name (n :: u32). smp k name (f64_of_u64 (ucast n)) ''requests'')
      in [smp BusyPercent ''busy_percent'' (percent (sn_busy_ns d)) ''percent'',
          smp SaturatedPercent ''saturated_percent'' (percent (sn_saturated_ns d)) ''percent'',
          smp AverageInflight ''average_inflight'' (f64_div (f64_of_u64 (sn_inflight_ns d)) elapsed) ''requests'',
          smp AverageQueued ''average_queued'' (f64_div (f64_of_u64 (sn_queued_ns d)) elapsed) ''requests'',
          requests Inflight ''inflight'' (sn_inflight d),
          requests Queued ''queued'' (sn_queued d),
          requests MaxInflight ''max_inflight'' (sn_max_inflight d),
          requests MaxQueued ''max_queued'' (sn_max_queued d)])"

section \<open>Emitting\<close>

record block_env =
  be_cb :: "nat \<Rightarrow> i32"
  be_rng :: "nat \<Rightarrow> u64"
  be_fs :: fs
  be_order :: "u32 list \<Rightarrow> u32 list"

record block_io =
  bl_config :: block_io_config
  bl_registry :: device_registry
  bl_last_sample_ns :: u64
  bl_previous_stats :: "u32 \<Rightarrow> device_stats option"
  bl_previous_depth :: "u32 \<Rightarrow> depth_snapshot option"
  bl_series_ids :: "block_series_key \<Rightarrow> u64 option"
  bl_draws :: nat
  bl_log :: "message list"

definition block_call :: "block_env \<Rightarrow> event \<Rightarrow> block_io \<Rightarrow> i32 \<times> block_io" where
  "block_call env e b = (case call (be_cb env) (MEvent e) (bl_log b) of (r, log) \<Rightarrow> (r, b\<lparr>bl_log := log\<rparr>))"

definition block_draw :: "block_env \<Rightarrow> block_io \<Rightarrow> u64 \<times> block_io" where
  "block_draw env b = (be_rng env (bl_draws b), b\<lparr>bl_draws := Suc (bl_draws b)\<rparr>)"

definition registry_info :: "block_env \<Rightarrow> u32 \<Rightarrow> block_io \<Rightarrow> device_info \<times> block_io" where
  "registry_info env dev b =
     (case device_info_of (be_fs env) dev (bl_registry b) of (info, r) \<Rightarrow> (info, b\<lparr>bl_registry := r\<rparr>))"

definition ensure_track :: "block_env \<Rightarrow> u32 \<Rightarrow> block_io \<Rightarrow> (u64 \<times> i32) \<times> block_io" where
  "ensure_track env dev b =
     (case reg_track_ids (bl_registry b) dev of
        Some i \<Rightarrow> ((i, 0), b)
      | None \<Rightarrow>
          let (i, b1) = block_draw env b;
              (info, b2) = registry_info env dev b1;
              (r, b3) = block_call env (ETrack \<lparr>trk_name = device_track_name info, trk_type = TyCustom i, trk_parent = None\<rparr>) b2
          in ((i, r), if r = 0 then b3\<lparr>bl_registry := (bl_registry b3)\<lparr>reg_track_ids :=
                        (reg_track_ids (bl_registry b3))(dev \<mapsto> i)\<rparr>\<rparr> else b3))"

definition block_series :: "block_env \<Rightarrow> block_series_key \<Rightarrow> block_io \<Rightarrow> (u64 \<times> bool) \<times> block_io" where
  "block_series env key b =
     (case bl_series_ids b key of
        Some i \<Rightarrow> ((i, False), b)
      | None \<Rightarrow> let (i, b1) = block_draw env b in ((i, True), b1\<lparr>bl_series_ids := (bl_series_ids b1)(key \<mapsto> i)\<rparr>))"

definition emit_counter :: "block_env \<Rightarrow> u32 \<Rightarrow> u64 \<Rightarrow> block_sample \<Rightarrow> block_io \<Rightarrow> i32 \<times> block_io" where
  "emit_counter env dev ts smp b =
     (case ensure_track env dev b of ((device_track, r), b1) \<Rightarrow>
        if r \<noteq> 0 then (r, b1)
        else let ((i, new_track), b2) = block_series env \<lparr>bk_dev = dev, bk_operation = bs_operation smp, bk_kind = bs_kind smp\<rparr> b1;
                 (r', b3) = (if new_track
                             then block_call env (ETrack \<lparr>trk_name = bs_name smp, trk_type = TyCounter i (Some (bs_unit smp)),
                                    trk_parent = Some (TyCustom device_track)\<rparr>) b2
                             else (0, b2))
             in if r' \<noteq> 0 then (r', b3)
                else block_call env (ECounter \<lparr>ctr_name = bs_name smp, ctr_value = bs_value smp, ctr_timestamp = ts,
                       ctr_track_id = CounterId i, ctr_labels = labels_new, ctr_unit = Some (bs_unit smp)\<rparr>) b3)"

text \<open>The samples of a loop that a failing callback ends.\<close>

fun emit_counters :: "block_env \<Rightarrow> u32 \<Rightarrow> u64 \<Rightarrow> block_sample list \<Rightarrow> block_io \<Rightarrow> block_io" where
  "emit_counters env dev ts [] b = b"
| "emit_counters env dev ts (s # ss) b =
     (case emit_counter env dev ts s b of (r, b1) \<Rightarrow> if r \<noteq> 0 then b1 else emit_counters env dev ts ss b1)"

section \<open>Sampling\<close>

record block_maps =
  bm_stats :: "string + (string + u32 \<times> device_stats) list"
  bm_depths :: "string + (string + u32 \<times> device_depth) list"

definition read_map :: "string \<Rightarrow> string + (string + 'a) list \<Rightarrow> bpf_error + 'a list" where
  "read_map what entries =
     (case entries of
        Inl e \<Rightarrow> Inl (MapError (''failed to read block_io device '' @ what @ '': '' @ e))
      | Inr vs \<Rightarrow> collect_results (map (map_sum (\<lambda>e. MapError (''failed to parse '' @ e)) (\<lambda>x. x)) vs))"

definition read_stats :: "block_maps \<Rightarrow> bpf_error + (u32 \<times> device_stats) list" where
  "read_stats mp = read_map ''stats'' (bm_stats mp)"

definition read_depth :: "block_maps \<Rightarrow> bpf_error + (u32 \<times> device_depth) list" where
  "read_depth mp = read_map ''depth'' (bm_depths mp)"

text \<open>A hash map collected from a list: later entries replace earlier ones.\<close>

definition hash_map :: "('k \<times> 'v) list \<Rightarrow> 'k \<Rightarrow> 'v option" where
  "hash_map es = map_of (rev es)"

definition depth_active :: "device_depth \<Rightarrow> bool" where
  "depth_active d \<longleftrightarrow> 0 < dd_busy_ns d \<or> 0 < dd_saturated_ns d \<or> 0 < dd_inflight d \<or> 0 < dd_queued d \<or>
     0 < dd_max_inflight d \<or> 0 < dd_max_queued d"

definition sampled_devices :: "(u32 \<times> device_stats) list \<Rightarrow> (u32 \<times> device_depth) list \<Rightarrow> u32 list" where
  "sampled_devices stats depths =
     remdups (map fst stats @ filter (\<lambda>dev. case hash_map depths dev of Some d \<Rightarrow> depth_active d | None \<Rightarrow> False) (map fst depths))"

definition sample_stats_of ::
  "block_env \<Rightarrow> f64_bits \<Rightarrow> u64 \<Rightarrow> u32 \<Rightarrow> device_stats \<Rightarrow> block_io \<Rightarrow> bool \<times> block_io" where
  "sample_stats_of env elapsed now dev current b =
     (let c = bl_config b;
          d = device_delta current (bl_previous_stats b dev);
          b1 = b\<lparr>bl_previous_stats := (bl_previous_stats b)(dev \<mapsto> current)\<rparr>;
          b2 = fold (\<lambda>op. emit_counters env dev now (operation_samples c op (ds_operations d op) elapsed)) (bc_operations c) b1;
          b3 = (if block_has_metric c BmErrors
                then emit_counters env dev now
                       [block_counter_sample None Requeues ''requeues'' (f64_of_u64 (ds_requeues d)) ''count'',
                        block_counter_sample None LostRequests ''lost_requests'' (f64_of_u64 (ds_lost_requests d)) ''count''] b2
                else b2)
      in if bc_timeline c
         then (case emit_counter env dev now (block_counter_sample None TimelineDrops ''timeline_drops''
                      (f64_of_u64 (ds_timeline_drops d)) ''count'') b3 of (r, b4) \<Rightarrow> (r \<noteq> 0, b4))
         else (False, b3))"

definition sample_device ::
  "block_env \<Rightarrow> (u32 \<Rightarrow> device_stats option) \<Rightarrow> (u32 \<Rightarrow> device_depth option) \<Rightarrow> u64 \<Rightarrow> u64 \<Rightarrow> u32 \<Rightarrow> block_io \<Rightarrow> block_io" where
  "sample_device env stats depths elapsed_ns now dev b =
     (let elapsed = f64_div (f64_of_u64 elapsed_ns) (f64_of_u64 NS_PER_SEC);
          (skip, b1) = (case stats dev of None \<Rightarrow> (False, b) | Some current \<Rightarrow> sample_stats_of env elapsed now dev current b)
      in if skip then b1
         else case depths dev of
                None \<Rightarrow> b1
              | Some current \<Rightarrow>
                  let sn = snapshot current now;
                      d = depth_delta sn (bl_previous_depth b1 dev)
                  in emit_counters env dev now (depth_samples d elapsed_ns)
                       (b1\<lparr>bl_previous_depth := (bl_previous_depth b1)(dev \<mapsto> sn)\<rparr>))"

definition block_sample_all :: "block_env \<Rightarrow> block_maps \<Rightarrow> u64 \<Rightarrow> block_io \<Rightarrow> (bpf_error + unit) \<times> block_io" where
  "block_sample_all env mp now b =
     (let elapsed_ns = max (saturating_sub now (bl_last_sample_ns b)) 1
      in case read_stats mp of
           Inl e \<Rightarrow> (Inl e, b)
         | Inr stats \<Rightarrow>
             (case (if block_has_metric (bl_config b) BmSaturation then read_depth mp else Inr []) of
                Inl e \<Rightarrow> (Inl e, b)
              | Inr depths \<Rightarrow>
                  (Inr (), (fold (sample_device env (hash_map stats) (hash_map depths) elapsed_ns now)
                              (be_order env (sampled_devices stats depths)) b)\<lparr>bl_last_sample_ns := now\<rparr>)))"

definition block_sample_if_due :: "block_env \<Rightarrow> block_maps \<Rightarrow> u64 \<Rightarrow> bool \<Rightarrow> block_io \<Rightarrow> (bpf_error + unit) \<times> block_io" where
  "block_sample_if_due env mp now force b =
     (if force \<or> NS_PER_SEC div bc_frequency (bl_config b) \<le> saturating_sub now (bl_last_sample_ns b)
      then block_sample_all env mp now b else (Inr (), b))"
section \<open>Request spans\<close>

record request_span_event =
  rs_request_id :: u64
  rs_start_ns :: u64
  rs_end_ns :: u64
  rs_queue_ns :: u64
  rs_service_ns :: u64
  rs_total_ns :: u64
  rs_sector :: u64
  rs_dev :: u32
  rs_partition_dev :: u32
  rs_bytes :: u32
  rs_tgid :: u32
  rs_pid :: u32
  rs_requeues :: u32
  rs_error :: i32
  rs_operation :: u8
  rs_completed :: u8
  rs_comm :: string

definition format_bytes :: "u32 \<Rightarrow> string" where
  "format_bytes n =
     (if 0 < n \<and> n mod (1024 * 1024) = 0 then show_nat (unat (n div (1024 * 1024))) @ '' MiB''
      else if 0 < n \<and> n mod 1024 = 0 then show_nat (unat (n div 1024)) @ '' KiB''
      else show_nat (unat n) @ '' B'')"

definition request_operation :: "request_span_event \<Rightarrow> block_operation" where
  "request_operation e = (case block_from_index (rs_operation e) of Some op \<Rightarrow> op | None \<Rightarrow> Other)"

definition request_labels :: "request_span_event \<Rightarrow> device_info \<Rightarrow> labels" where
  "request_labels e p =
     (let us = (\<lambda>ns. f64_div (f64_of_u64 ns) (f64_of_u64 1000)); ms = di_mounts p
      in \<lparr>strings = [(''comm'', c_str (rs_comm e)), (''operation'', block_name (request_operation e)),
                     (''partition'', di_name p @ '' ('' @ major_minor p @ '')'')] @
            (if ms = [] then []
             else [(''filesystems'', filesystems_of ms), (''mountpoints'', join_with '','' (map mi_mountpoint ms)),
                   (''sources'', join_with '','' (map mi_source ms))]),
          ints = [(''bytes'', ucast (rs_bytes e)), (''sector'', rs_sector e), (''pid'', ucast (rs_pid e)),
                  (''tgid'', ucast (rs_tgid e)), (''error'', scast (rs_error e)), (''requeues'', ucast (rs_requeues e))],
          bools = [(''completed'', rs_completed e \<noteq> 0)],
          floats = [(''queue_latency_us'', us (rs_queue_ns e)), (''service_latency_us'', us (rs_service_ns e)),
                    (''total_latency_us'', us (rs_total_ns e))]\<rparr>)"

definition request_span_name :: "request_span_event \<Rightarrow> string" where
  "request_span_name e =
     (if rs_completed e \<noteq> 0
      then (if rs_error e = 0 then block_name (request_operation e) else ''error'') else ''requeued'') @ '' '' @
     format_bytes (rs_bytes e)"

definition emit_request_span :: "block_env \<Rightarrow> request_span_event \<Rightarrow> block_io \<Rightarrow> i32 \<times> block_io" where
  "emit_request_span env e b =
     (case ensure_track env (rs_dev e) b of ((track, r), b1) \<Rightarrow>
        if r \<noteq> 0 then (r, b1)
        else let (partition, b2) = registry_info env (rs_partition_dev e) b1
             in block_call env (ESpan \<lparr>span_name = request_span_name e, span_id = rs_request_id e XOR rs_start_ns e,
                  start_timestamp = rs_start_ns e, end_timestamp = rs_end_ns e, span_track_id = Custom track,
                  span_labels = request_labels e partition\<rparr>) b2)"

text \<open>
  Consuming the ring buffer: the events the library hands to the callback (\<open>None\<close> when one cannot
  be parsed) and the error it ends with, if any. Then sampling: \<open>consume\<close> and \<open>poll\<close> when it is
  due, \<open>flush\<close> always; \<open>verb\<close> is the word in the error message.
\<close>

definition drain_spans :: "block_env \<Rightarrow> request_span_event option list \<Rightarrow> block_io \<Rightarrow> block_io" where
  "drain_spans env evs b = fold (\<lambda>ev b. case ev of None \<Rightarrow> b | Some e \<Rightarrow> snd (emit_request_span env e b)) evs b"

definition block_consume ::
  "block_env \<Rightarrow> string \<Rightarrow> request_span_event option list \<times> string option \<Rightarrow> block_maps \<Rightarrow> u64 \<Rightarrow> bool \<Rightarrow> block_io
   \<Rightarrow> (bpf_error + unit) \<times> block_io" where
  "block_consume env verb rb mp now force b =
     (case (if bc_timeline (bl_config b) then (snd rb, drain_spans env (fst rb) b) else (None, b)) of
        (Some e, b1) \<Rightarrow> (Inl (MapError (''failed to '' @ verb @ '' block_io spans: '' @ e)), b1)
      | (None, b1) \<Rightarrow> block_sample_if_due env mp now force b1)"

section \<open>Construction\<close>

record block_rodata =
  br_operation_mask :: u32
  br_timeline_sample_every :: u32
  br_timeline_min_latency_ns :: u64
  br_bytes_enabled :: bool
  br_operations_enabled :: bool
  br_latency_enabled :: bool
  br_saturation_enabled :: bool
  br_errors_enabled :: bool
  br_timeline_enabled :: bool
  br_filter_enabled :: bool
  br_request_tracking_enabled :: bool

definition request_tracking :: "block_io_config \<Rightarrow> bool" where
  "request_tracking c \<longleftrightarrow> block_has_metric c BmIops \<or> block_has_metric c BmLatency \<or> block_has_metric c BmSaturation \<or> bc_timeline c"

definition block_rodata_of :: "block_io_config \<Rightarrow> u32 list \<Rightarrow> block_rodata" where
  "block_rodata_of c filters =
     \<lparr>br_operation_mask = operation_mask c, br_timeline_sample_every = bc_timeline_sample_every c,
      br_timeline_min_latency_ns = saturating_mul (bc_timeline_min_latency_us c) 1000,
      br_bytes_enabled = block_has_metric c BmThroughput,
      br_operations_enabled = (block_has_metric c BmIops \<or> block_has_metric c BmLatency),
      br_latency_enabled = block_has_metric c BmLatency, br_saturation_enabled = block_has_metric c BmSaturation,
      br_errors_enabled = block_has_metric c BmErrors, br_timeline_enabled = bc_timeline c,
      br_filter_enabled = (filters \<noteq> []), br_request_tracking_enabled = request_tracking c\<rparr>"

text \<open>The sizes set for the five maps, in order.\<close>

definition block_map_sizes :: "block_io_config \<Rightarrow> u32 list \<Rightarrow> (string \<times> u32) list" where
  "block_map_sizes c filters =
     [(''device map'', bc_max_devices c),
      (''depth map'', if block_has_metric c BmSaturation then bc_max_devices c else 1),
      (''request map'', if request_tracking c then bc_max_requests c else 1),
      (''filter map'', max (max (bc_max_devices c) (of_nat (length filters))) 1),
      (''ring buffer'', if bc_timeline c then ucast (bc_ringbuf c) else ucast MIN_RINGBUF_SIZE)]"

record block_os =
  bos_open :: "string option"
  bos_size :: "string \<Rightarrow> u32 \<Rightarrow> string option"
  bos_load :: "string option"
  bos_init_depth :: "u32 \<Rightarrow> string option"
  bos_add_filter :: "u32 \<Rightarrow> string option"
  bos_attach :: "string option"
  bos_ringbuf_add :: "string option"
  bos_ringbuf_build :: "string option"

definition first_error :: "('a \<Rightarrow> string option) \<Rightarrow> ('a \<Rightarrow> string \<Rightarrow> bpf_error) \<Rightarrow> 'a list \<Rightarrow> bpf_error option" where
  "first_error f err xs = (case filter (\<lambda>x. f x \<noteq> None) xs of [] \<Rightarrow> None | x # _ \<Rightarrow> map_option (err x) (f x))"

text \<open>The devices of the filters, and those whose queue depth is kept.\<close>

definition device_filters_of :: "fs \<Rightarrow> block_io_config \<Rightarrow> bpf_error + u32 list" where
  "device_filters_of f c =
     (case collect_results (map (resolve_device_filter f) (bc_devices c)) of
        Inl e \<Rightarrow> Inl e
      | Inr ds \<Rightarrow>
          let filters = remdups ds
          in if unat (bc_max_devices c) < length filters
             then Inl (LoadError (''block_io has '' @ show_nat (length filters) @ '' device filters but max_devices is '' @
                         show_nat (unat (bc_max_devices c))))
             else Inr filters)"

definition depth_devices_of :: "fs \<Rightarrow> block_io_config \<Rightarrow> u32 list \<Rightarrow> bpf_error + u32 list" where
  "depth_devices_of f c filters =
     (case (if block_has_metric c BmSaturation
            then (if filters = [] then discover_physical_devices f else Inr filters) else Inr []) of
        Inl e \<Rightarrow> Inl e
      | Inr ds \<Rightarrow>
          if unat (bc_max_devices c) < length ds
          then Inl (LoadError (''block_io found '' @ show_nat (length ds) @ '' devices but max_devices is '' @
                      show_nat (unat (bc_max_devices c)) @ ''; increase max_devices or configure devices''))
          else Inr ds)"

text \<open>What is set up in the kernel, when nothing fails.\<close>

record block_setup =
  set_rodata :: block_rodata
  set_sizes :: "(string \<times> u32) list"
  set_depths :: "u32 list"
  set_filters :: "u32 list"

definition block_first_failure :: "block_os \<Rightarrow> block_env \<Rightarrow> block_io_config \<Rightarrow> u32 list \<Rightarrow> u32 list \<Rightarrow> bpf_error option" where
  "block_first_failure os env c filters depths =
     (let steps =
        [map_option (\<lambda>e. LoadError (''failed to open block_io BPF: '' @ e)) (bos_open os),
         first_error (\<lambda>(w, n). bos_size os w n) (\<lambda>(w, n) e. LoadError (''failed to size block_io '' @ w @ '': '' @ e))
           (block_map_sizes c filters),
         map_option (\<lambda>e. LoadError (''failed to load block_io BPF: '' @ e)) (bos_load os),
         first_error (bos_init_depth os) (\<lambda>dev e. MapError (''failed to initialize block_io depth for '' @ format_device dev @ '': '' @ e))
           (be_order env depths),
         first_error (bos_add_filter os) (\<lambda>dev e. MapError (''failed to add block_io device filter: '' @ e)) (be_order env filters),
         map_option (\<lambda>e. AttachError (''failed to attach block_io programs: '' @ e)) (bos_attach os)] @
        (if bc_timeline c
         then [map_option (\<lambda>e. MapError (''failed to add block_io ring buffer: '' @ e)) (bos_ringbuf_add os),
               map_option (\<lambda>e. MapError (''failed to build block_io ring buffer: '' @ e)) (bos_ringbuf_build os)] else [])
      in case filter (\<lambda>x. x \<noteq> None) steps of [] \<Rightarrow> None | x # _ \<Rightarrow> x)"

definition block_io_new ::
  "block_os \<Rightarrow> block_env \<Rightarrow> (mount_table \<Rightarrow> mount_table) \<Rightarrow> u64 \<Rightarrow> block_io_config \<Rightarrow> bpf_error + block_io \<times> block_setup" where
  "block_io_new os env mount_order now c =
     (case device_filters_of (be_fs env) c of
        Inl e \<Rightarrow> Inl e
      | Inr filters \<Rightarrow>
          (case depth_devices_of (be_fs env) c filters of
             Inl e \<Rightarrow> Inl e
           | Inr depths \<Rightarrow>
               (case block_first_failure os env c filters depths of
                  Some e \<Rightarrow> Inl e
                | None \<Rightarrow> Inr (\<lparr>bl_config = c, bl_registry = device_registry_new (be_fs env) mount_order,
                     bl_last_sample_ns = now, bl_previous_stats = Map.empty, bl_previous_depth = Map.empty,
                     bl_series_ids = Map.empty, bl_draws = 0, bl_log = []\<rparr>,
                     \<lparr>set_rodata = block_rodata_of c filters, set_sizes = block_map_sizes c filters,
                      set_depths = depths, set_filters = filters\<rparr>))))"

definition block_build ::
  "block_os \<Rightarrow> block_env \<Rightarrow> (mount_table \<Rightarrow> mount_table) \<Rightarrow> u64 \<Rightarrow> block_io_config \<Rightarrow> bpf_error + block_io \<times> block_setup" where
  "block_build os env mount_order now c =
     (case block_validate c of Inl e \<Rightarrow> Inl e | Inr _ \<Rightarrow> block_io_new os env mount_order now c)"
section \<open>Announcements\<close>

definition block_ok :: "message list \<Rightarrow> block_io_config \<Rightarrow> block_io \<Rightarrow> bool" where
  "block_ok base c b \<longleftrightarrow> bl_config b = c \<and> log_grows base (bl_log b) \<and> announced_first (bl_log b) \<and>
     (\<forall>k i. bl_series_ids b k = Some i \<longrightarrow> (\<exists>m \<in> set (bl_log b). announces m (CounterId i))) \<and>
     (\<forall>dev i. reg_track_ids (bl_registry b) dev = Some i \<longrightarrow> (\<exists>m \<in> set (bl_log b). announces m (Custom i)))"

lemma block_call_eq: "block_call env e b = (be_cb env (length (bl_log b)), b\<lparr>bl_log := bl_log b @ [MEvent e]\<rparr>)"
  by (simp add: block_call_def call_def)

text \<open>Reading the registry changes only the cached device names.\<close>

lemma registry_info_keeps:
  "bl_config (snd (registry_info env dev b)) = bl_config b"
  "bl_log (snd (registry_info env dev b)) = bl_log b"
  "bl_series_ids (snd (registry_info env dev b)) = bl_series_ids b"
  "reg_track_ids (bl_registry (snd (registry_info env dev b))) = reg_track_ids (bl_registry b)"
  by (simp_all add: registry_info_def device_info_of_def Let_def split: option.split)

lemma block_ok_info: "block_ok base c b \<Longrightarrow> block_ok base c (snd (registry_info env dev b))"
  by (simp add: block_ok_def registry_info_keeps)

lemma block_ok_draw: "block_ok base c b \<Longrightarrow> block_ok base c (snd (block_draw env b))"
  by (simp add: block_ok_def block_draw_def)

lemma block_ok_log:
  assumes "block_ok base c b" "\<forall>t \<in> set (tracks_needed (MEvent e)). \<exists>m \<in> set (bl_log b). announces m t"
  shows "block_ok base c (snd (block_call env e b))"
  using assms by (auto simp: block_ok_def block_call_eq announced_first_snoc)

lemma block_ok_ensure_track:
  assumes "block_ok base c b" "ensure_track env dev b = ((i, r), b')"
  shows "block_ok base c b' \<and> (r = 0 \<longrightarrow> (\<exists>m \<in> set (bl_log b'). announces m (Custom i)))"
proof (cases "reg_track_ids (bl_registry b) dev")
  case (Some j)
  with assms show ?thesis by (auto simp: ensure_track_def block_ok_def)
next
  case None
  obtain j b1 where d: "block_draw env b = (j, b1)" by fastforce
  obtain info b2 where n: "registry_info env dev b1 = (info, b2)" by fastforce
  have b2: "block_ok base c b2"
    using block_ok_info [OF block_ok_draw [OF assms(1), of env], of env dev] d n by simp
  let ?t = "ETrack \<lparr>trk_name = device_track_name info, trk_type = TyCustom j, trk_parent = None\<rparr>"
  have b3: "block_ok base c (snd (block_call env ?t b2))" by (rule block_ok_log [OF b2]) simp
  let ?b3 = "b2\<lparr>bl_log := bl_log b2 @ [MEvent ?t]\<rparr>"
  have ij: "i = j" and b': "b' = (if r = 0 then ?b3\<lparr>bl_registry := (bl_registry b2)\<lparr>reg_track_ids :=
      (reg_track_ids (bl_registry b2))(dev \<mapsto> j)\<rparr>\<rparr> else ?b3)"
    using assms(2) None d n by (auto simp: ensure_track_def Let_def block_call_eq)
  have ok3: "block_ok base c ?b3" using b3 by (simp add: block_call_eq)
  show ?thesis
  proof (cases "r = 0")
    case True
    show ?thesis using ok3 unfolding b' ij by (simp add: True block_ok_def)
  next
    case False
    then show ?thesis using ok3 unfolding b' by simp
  qed
qed

lemma block_ok_emit_counter:
  assumes "block_ok base c b"
  shows "block_ok base c (snd (emit_counter env dev ts smp b))"
proof -
  obtain track r b1 where t: "ensure_track env dev b = ((track, r), b1)" by (metis prod.collapse)
  have b1: "block_ok base c b1" and announced: "r = 0 \<Longrightarrow> \<exists>m \<in> set (bl_log b1). announces m (Custom track)"
    using block_ok_ensure_track [OF assms t] by auto
  let ?k = "\<lparr>bk_dev = dev, bk_operation = bs_operation smp, bk_kind = bs_kind smp\<rparr>"
  show ?thesis
  proof (cases "r = 0")
    case False
    with t b1 show ?thesis by (simp add: emit_counter_def)
  next
    case True
    show ?thesis
    proof (cases "bl_series_ids b1 ?k")
      case (Some i)
      have "\<exists>m \<in> set (bl_log b1). announces m (CounterId i)" using b1 Some by (auto simp: block_ok_def)
      then show ?thesis
        using t True Some block_ok_log [OF b1] by (simp add: emit_counter_def block_series_def Let_def)
    next
      case None
      let ?i = "be_rng env (bl_draws b1)"
      let ?b3 = "b1\<lparr>bl_draws := Suc (bl_draws b1), bl_series_ids := (bl_series_ids b1)(?k \<mapsto> ?i),
        bl_log := bl_log b1 @ [MEvent (ETrack \<lparr>trk_name = bs_name smp, trk_type = TyCounter ?i (Some (bs_unit smp)),
          trk_parent = Some (TyCustom track)\<rparr>)]\<rparr>"
      have b3: "block_ok base c ?b3"
        using b1 announced [OF True] by (auto simp: block_ok_def announced_first_track)
      show ?thesis
        using t True None b3 block_ok_log [OF b3]
        by (simp add: emit_counter_def block_series_def block_draw_def block_call_eq Let_def)
    qed
  qed
qed

lemma block_ok_emit_counters: "block_ok base c b \<Longrightarrow> block_ok base c (emit_counters env dev ts ss b)"
proof (induction ss arbitrary: b)
  case (Cons s ss)
  have "block_ok base c (snd (emit_counter env dev ts s b))" by (rule block_ok_emit_counter [OF Cons.prems])
  with Cons.IH show ?case by (cases "emit_counter env dev ts s b") simp
qed simp

lemma block_ok_frame:
  "\<lbrakk>block_ok base c b; bl_config b' = bl_config b; bl_log b' = bl_log b; bl_series_ids b' = bl_series_ids b;
    bl_registry b' = bl_registry b\<rbrakk> \<Longrightarrow> block_ok base c b'"
  by (simp add: block_ok_def)

lemma block_ok_fold: "(\<And>x b. block_ok base c b \<Longrightarrow> block_ok base c (f x b)) \<Longrightarrow> block_ok base c b \<Longrightarrow> block_ok base c (fold f xs b)"
  by (induction xs arbitrary: b) simp_all

lemma block_ok_stats: "block_ok base c b \<Longrightarrow> block_ok base c (snd (sample_stats_of env el now dev cur b))"
proof -
  assume ok: "block_ok base c b"
  let ?b1 = "b\<lparr>bl_previous_stats := (bl_previous_stats b)(dev \<mapsto> cur)\<rparr>"
  have b1: "block_ok base c ?b1" by (rule block_ok_frame [OF ok]) simp_all
  have b2: "block_ok base c (fold (\<lambda>op. emit_counters env dev now (f op)) ops ?b1)" for f ops
    by (rule block_ok_fold) (simp_all add: block_ok_emit_counters b1)
  have b3: "block_ok base c (if x then emit_counters env dev now ss (fold (\<lambda>op. emit_counters env dev now (f op)) ops ?b1)
      else fold (\<lambda>op. emit_counters env dev now (f op)) ops ?b1)" for x ss f ops
    by (simp add: b2 block_ok_emit_counters)
  have last: "block_ok base c b' \<Longrightarrow> block_ok base c (snd (if t then (case emit_counter env dev now s b' of (r, b4) \<Rightarrow> (r \<noteq> 0, b4))
      else (False, b')))" for t s b'
    using block_ok_emit_counter [of base c b' env dev now s] by (simp add: case_prod_beta)
  show ?thesis
    unfolding sample_stats_of_def Let_def by (rule last, rule b3)
qed

lemma block_ok_device: "block_ok base c b \<Longrightarrow> block_ok base c (sample_device env stats depths el now dev b)"
proof -
  assume ok: "block_ok base c b"
  let ?s = "\<lambda>el. case stats dev of None \<Rightarrow> (False, b) | Some cur \<Rightarrow> sample_stats_of env el now dev cur b"
  have s: "block_ok base c (snd (?s el))" for el by (simp add: ok block_ok_stats split: option.split)
  have d: "block_ok base c b' \<Longrightarrow> block_ok base c (emit_counters env dev now ss (b'\<lparr>bl_previous_depth := m\<rparr>))" for b' ss m
    by (rule block_ok_emit_counters) (erule block_ok_frame, simp_all)
  have final: "block_ok base c (snd p) \<Longrightarrow> block_ok base c (case p of (skip, b1) \<Rightarrow> if skip then b1 else case depths dev of None \<Rightarrow> b1
      | Some cur \<Rightarrow> emit_counters env dev now (depth_samples (depth_delta (snapshot cur now) (bl_previous_depth b1 dev)) el)
          (b1\<lparr>bl_previous_depth := (bl_previous_depth b1)(dev \<mapsto> snapshot cur now)\<rparr>))" for p
    by (cases p) (simp add: d split: option.split)
  show ?thesis
    unfolding sample_device_def Let_def by (rule final, rule s)
qed

lemma block_ok_sample_all: "block_ok base c b \<Longrightarrow> block_ok base c (snd (block_sample_all env mp now b))"
proof -
  assume ok: "block_ok base c b"
  have f: "block_ok base c (fold (sample_device env st dp el now) ds b)" for st dp el ds
    by (rule block_ok_fold) (simp_all add: block_ok_device ok)
  have stamp: "block_ok base c b' \<Longrightarrow> block_ok base c (b'\<lparr>bl_last_sample_ns := now\<rparr>)" for b' by (erule block_ok_frame) simp_all
  show ?thesis
    unfolding block_sample_all_def Let_def by (simp add: ok stamp f split: sum.split)
qed

lemma block_ok_span: "block_ok base c b \<Longrightarrow> block_ok base c (snd (emit_request_span env e b))"
proof -
  assume ok: "block_ok base c b"
  obtain track r b1 where t: "ensure_track env (rs_dev e) b = ((track, r), b1)" by (metis prod.collapse)
  have b1: "block_ok base c b1" and announced: "r = 0 \<Longrightarrow> \<exists>m \<in> set (bl_log b1). announces m (Custom track)"
    using block_ok_ensure_track [OF ok t] by auto
  obtain p b2 where i: "registry_info env (rs_partition_dev e) b1 = (p, b2)" by fastforce
  have b2: "block_ok base c b2" "bl_log b2 = bl_log b1"
    using block_ok_info [OF b1, of env "rs_partition_dev e"] registry_info_keeps(2) [of env "rs_partition_dev e" b1] i by simp_all
  show ?thesis
    using t b1 i announced b2 block_ok_log [OF b2(1)] by (simp add: emit_request_span_def)
qed

lemma block_ok_consume: "block_ok base c b \<Longrightarrow> block_ok base c (snd (block_consume env verb rb mp now force b))"
proof -
  assume ok: "block_ok base c b"
  have d: "block_ok base c (drain_spans env evs b)" for evs
    unfolding drain_spans_def by (rule block_ok_fold) (simp_all add: ok block_ok_span split: option.split)
  have s: "block_ok base c b' \<Longrightarrow> block_ok base c (snd (block_sample_if_due env mp now force b'))" for b'
    by (simp add: block_sample_if_due_def block_ok_sample_all)
  show ?thesis
    by (simp add: block_consume_def ok d s split: option.split)
qed

text \<open>The collector driven by its caller: ring-buffer contents, map contents, time, and whether to force a reading.\<close>

fun block_run ::
  "block_env \<Rightarrow> ((request_span_event option list \<times> string option) \<times> block_maps \<times> u64 \<times> bool) list \<Rightarrow> block_io \<Rightarrow> block_io" where
  "block_run env [] b = b"
| "block_run env ((rb, mp, now, force) # steps) b =
     block_run env steps (snd (block_consume env (if force then ''flush'' else ''consume'') rb mp now force b))"

lemma block_run_ok: "block_ok base c b \<Longrightarrow> block_ok base c (block_run env steps b)"
  by (induction env steps b rule: block_run.induct) (simp_all add: block_ok_consume)

lemma block_build_ok: "block_build os env mo now c = Inr (b, x) \<Longrightarrow> block_ok [] c b"
  by (auto simp: block_build_def block_io_new_def block_ok_def device_registry_new_def Let_def
      split: sum.splits option.splits)

lemma block_build_log: "block_build os env mo now c = Inr (b, x) \<Longrightarrow> bl_log b = [] \<and> bl_config b = c"
  by (auto simp: block_build_def block_io_new_def Let_def split: sum.splits option.splits)

text \<open>
  C14: whatever the kernel reports, the random numbers, the file system and the callback's
  answers are, the block I/O collector announces the track of a device before any counter
  track under it and any request span on it, and every counter's track before its values.
\<close>

theorem block_tracks_announced:
  assumes "block_build os env mo now c = Inr (b, x)"
  shows "announced_first (bl_log (block_run env steps b))"
  using block_run_ok [OF block_build_ok [OF assms], of env steps] by (simp add: block_ok_def)

definition sample_fs :: fs where
  "sample_fs = \<lparr>fs_canonicalize = (\<lambda>_. Inr ''/sys/devices/sda''), fs_exists = (\<lambda>_. False),
     fs_read_to_string = (\<lambda>_. Inl ''not found''), fs_device = (\<lambda>_. Inl ''not found''), fs_read_dir = (\<lambda>_. Inr [])\<rparr>"

definition ok_block_os :: block_os where
  "ok_block_os = \<lparr>bos_open = None, bos_size = (\<lambda>_ _. None), bos_load = None, bos_init_depth = (\<lambda>_. None),
     bos_add_filter = (\<lambda>_. None), bos_attach = None, bos_ringbuf_add = None, bos_ringbuf_build = None\<rparr>"

definition sample_block_env :: block_env where
  "sample_block_env = \<lparr>be_cb = (\<lambda>_. 0), be_rng = of_nat, be_fs = sample_fs, be_order = (\<lambda>ds. ds)\<rparr>"

definition sample_request :: request_span_event where
  "sample_request = \<lparr>rs_request_id = 3, rs_start_ns = 100, rs_end_ns = 900, rs_queue_ns = 300, rs_service_ns = 500,
     rs_total_ns = 800, rs_sector = 64, rs_dev = 0x800000, rs_partition_dev = 0x800001, rs_bytes = 4096, rs_tgid = 5,
     rs_pid = 7, rs_requeues = 0, rs_error = 0, rs_operation = 1, rs_completed = 1, rs_comm = ''dd''\<rparr>"

definition sample_operation_stats :: operation_stats where
  "sample_operation_stats = \<lparr>os_bytes = 4096, os_operations = 1, os_errors = 0, os_queue_latency_ns = 300,
     os_service_latency_ns = 500, os_total_latency_ns = 800, os_service_histogram = 1 # replicate 31 0,
     os_total_histogram = 1 # replicate 31 0\<rparr>"

definition sample_block_maps :: block_maps where
  "sample_block_maps = \<lparr>bm_stats = Inr [Inr (0x800000, \<lparr>ds_operations = (\<lambda>_. sample_operation_stats), ds_requeues = 0,
     ds_lost_requests = 0, ds_timeline_drops = 0, ds_first_seen_ns = 1, ds_last_seen_ns = 900\<rparr>)], bm_depths = Inr []\<rparr>"

theorem block_tracks_announced_witness:
  "\<exists>b x. block_build ok_block_os sample_block_env (\<lambda>t. t) 0
       (default_block_io_config\<lparr>bc_operations := [Write], bc_metrics := [BmErrors], bc_timeline := True\<rparr>) = Inr (b, x) \<and>
     length (bl_log (block_run sample_block_env [(([Some sample_request], None), sample_block_maps, 1000, True)] b)) = 10 \<and>
     announced_first (bl_log (block_run sample_block_env [(([Some sample_request], None), sample_block_maps, 1000, True)] b))"
proof -
  let ?c = "default_block_io_config\<lparr>bc_operations := [Write], bc_metrics := [BmErrors], bc_timeline := True\<rparr>"
  let ?b = "\<lparr>bl_config = ?c, bl_registry = device_registry_new sample_fs (\<lambda>t. t), bl_last_sample_ns = 0,
    bl_previous_stats = Map.empty, bl_previous_depth = Map.empty, bl_series_ids = Map.empty, bl_draws = 0, bl_log = []\<rparr>"
  have "\<exists>x. block_build ok_block_os sample_block_env (\<lambda>t. t) 0 ?c = Inr (?b, x)"
    by (simp add: block_build_def block_validate_def block_io_new_def device_filters_of_def depth_devices_of_def
        block_first_failure_def first_error_def ok_block_os_def sample_block_env_def default_block_io_config_def
        block_has_metric_def is_power_of_two_def MIN_RINGBUF_SIZE_def block_map_sizes_def)
  then obtain x where b: "block_build ok_block_os sample_block_env (\<lambda>t. t) 0 ?c = Inr (?b, x)" by blast
  have "length (bl_log (block_run sample_block_env [(([Some sample_request], None), sample_block_maps, 1000, True)] ?b)) = 10"
    by (simp add: block_consume_def drain_spans_def emit_request_span_def ensure_track_def block_draw_def registry_info_def
        device_info_of_def block_call_eq sample_block_env_def sample_request_def device_registry_new_def
        default_block_io_config_def block_sample_if_due_def block_sample_all_def read_stats_def read_map_def
        sample_block_maps_def block_has_metric_def sampled_devices_def hash_map_def sample_device_def sample_stats_of_def
        operation_samples_def emit_counter_def block_series_def block_counter_sample_def Let_def)
  then show ?thesis
    using b block_tracks_announced [OF b, of "[(([Some sample_request], None), sample_block_maps, 1000, True)]"] by blast
qed
section \<open>Percentiles\<close>

definition bucket_bound :: "nat \<Rightarrow> f64_bits" where
  "bucket_bound b = (if b = 0 then f64_of_u64 1 else f64_of_u64 (push_bit (min (b + 1) 32) 1))"

text \<open>The number of requests in a histogram, and in its buckets up to the given one.\<close>

definition requests :: "u64 list \<Rightarrow> nat" where
  "requests h = sum_list (map unat h)"

definition reached :: "u64 list \<Rightarrow> nat \<Rightarrow> nat" where
  "reached h b = requests (take (Suc b) h)"

lemma unat_sum_list: "sum_list (map unat h) < 2 ^ 64 \<Longrightarrow> unat (sum_list h) = sum_list (map unat h)"
  for h :: "u64 list"
  by (induction h) (simp_all add: unat_add_small)

lemma percentile_loop_bucket:
  assumes "unat c + requests h < 2 ^ 64" "unat c < unat t" "unat t \<le> unat c + requests h"
  shows "\<exists>i < length h. percentile_loop t j c h = bucket_bound (j + i) \<and> unat t \<le> unat c + reached h i \<and>
           (\<forall>i' < i. unat c + reached h i' < unat t)"
  using assms
proof (induction h arbitrary: c j)
  case Nil
  then show ?case by (simp add: requests_def)
next
  case (Cons x h)
  have c': "unat (c + x) = unat c + unat x" using Cons.prems(1) by (intro unat_add_small) (simp add: requests_def)
  show ?case
  proof (cases "t \<le> c + x")
    case True
    then have "unat t \<le> unat c + reached (x # h) 0" using c' by (simp add: word_le_nat_alt reached_def requests_def)
    with True show ?thesis by (intro exI [of _ 0]) (simp add: bucket_bound_def)
  next
    case False
    then have "unat (c + x) < unat t" by (simp add: word_le_nat_alt)
    with Cons.prems obtain i where i: "i < length h" "percentile_loop t (Suc j) (c + x) h = bucket_bound (Suc j + i)"
        "unat t \<le> unat (c + x) + reached h i" "\<forall>i' < i. unat (c + x) + reached h i' < unat t"
      using Cons.IH [of "c + x" "Suc j"] by (auto simp: c' requests_def)
    have r: "unat c + reached (x # h) (Suc k) = unat (c + x) + reached h k" for k
      by (simp add: c' reached_def requests_def)
    have "unat c + reached (x # h) i' < unat t" if "i' < Suc i" for i'
    proof (cases i')
      case 0
      then show ?thesis using \<open>unat (c + x) < unat t\<close> c' by (simp add: reached_def requests_def)
    next
      case (Suc k)
      then show ?thesis using that i(4) r [of k] by simp
    qed
    with i r False show ?thesis by (intro exI [of _ "Suc i"]) simp
  qed
qed

lemma quantile_range:
  "q \<in> {Q50, Q95, Q99} \<Longrightarrow> f64_num q \<le> f64_den q \<and> f64_den q \<le> 2 * f64_num q \<and> q < f64_inf"
  by (auto simp: Q50_def Q95_def Q99_def f64_eval)

text \<open>The target is at least one request and never more than all of them.\<close>

lemma percentile_target_range:
  assumes "0 < requests h" "requests h < 2 ^ 53" "q \<in> {Q50, Q95, Q99}"
  shows "1 \<le> unat (percentile_target h q) \<and> unat (percentile_target h q) \<le> requests h"
proof -
  let ?N = "requests h" and ?T = "f64_of_u64 (sum_list h)"
  have N: "unat (sum_list h) = ?N" using assms(2) by (simp add: requests_def unat_sum_list)
  have T: "f64_num ?T = ?N * f64_den ?T" using f64_of_u64_exact [of "sum_list h"] assms N by simp
  have Tfin: "?T < f64_inf"
    using f64_ratio_le(3) [of ?N 1 ?N] assms N by (simp add: f64_of_u64_def Suc_le_eq)
  note q = quantile_range [OF assms(3)]
  have d: "0 < f64_den b" for b by (simp add: f64_den_def split: prod.split)
  let ?n = "f64_num ?T * f64_num q" and ?d = "f64_den ?T * f64_den q"
  have n0: "0 < ?n" using T d [of ?T] d [of q] q assms(1) by (auto intro: Nat.gr0I)
  have half: "?d \<le> 2 * ?n"
  proof -
    have "f64_den q \<le> ?N * (2 * f64_num q)" using q assms(1) by (metis mult_le_mono Suc_leI mult_1 One_nat_def)
    then show ?thesis unfolding T using mult_le_mono2 [of _ _ "f64_den ?T"] by (simp add: algebra_simps)
  qed
  have le: "?n \<le> ?N * ?d" using q unfolding T by (simp add: mult_le_mono2 algebra_simps)
  let ?b = "f64_of_ratio ?n ?d"
  have b: "f64_num ?b \<le> ?N * f64_den ?b" "0 < f64_num ?b" "?b < f64_inf"
    using f64_ratio_le [OF n0 _ half le assms(2)] d by simp_all
  have mul: "f64_mul ?T q = ?b"
    using Tfin q by (auto simp: f64_mul_def f64_is_nan_def)
  let ?c = "(f64_num ?b + (f64_den ?b - 1)) div f64_den ?b"
  have "?c \<le> ?N"
  proof -
    have "f64_num ?b + (f64_den ?b - 1) < (?N + 1) * f64_den ?b" using b(1) d [of ?b] by simp
    then have "?c < ?N + 1" by (simp add: less_mult_imp_div_less)
    then show ?thesis by simp
  qed
  moreover have "1 \<le> ?c" using b(2) d [of ?b] by (simp add: div_greater_zero_iff Suc_le_eq)
  moreover have "unat (percentile_target h q) = min ?c (2 ^ 64 - 1)"
    using b(3) unfolding percentile_target_def mul f64_ceil_u64_def
    by (auto simp: f64_is_nan_def unat_of_nat_small min_def)
  ultimately show ?thesis using assms(2) by (simp add: min_def)
qed


definition sample_histogram :: "u64 list" where
  "sample_histogram = [0, 0, 0, 90, 0, 0, 0, 10] @ replicate 24 0"

lemma sample_histogram_facts:
  "length sample_histogram = HISTOGRAM_BUCKETS" "requests sample_histogram = 100" "sum_list sample_histogram = 100"
  by (simp_all add: sample_histogram_def HISTOGRAM_BUCKETS_def requests_def sum_list_replicate)


text \<open>Two values worked out: the median and the 99th percentile of that histogram.\<close>

lemma percentile_samples:
  "histogram_percentile sample_histogram Q50 = f64_of_u64 16"
  "histogram_percentile sample_histogram Q99 = f64_of_u64 256"
proof -
  have "percentile_target sample_histogram Q50 = 50" "percentile_target sample_histogram Q99 = 99"
    by (simp_all add: percentile_target_def sample_histogram_facts Q50_def Q99_def f64_ceil_u64_def f64_eval)
  then show "histogram_percentile sample_histogram Q50 = f64_of_u64 16"
    "histogram_percentile sample_histogram Q99 = f64_of_u64 256"
    by (simp_all add: histogram_percentile_def sample_histogram_facts) (simp_all add: sample_histogram_def)
qed
end
