(* ===== verification/Perfcounter.thy ===== *)
theory Perfcounter
  imports Bpf_Load
begin

text \<open>
  \<^verbatim>\<open>bpf/src/perfcounter.rs\<close>: hardware and software performance counters per CPU. The
  configured counters are expanded (\<open>ipc\<close> is derived from two others), opened on every CPU, their
  tracks announced, and each event of the ring buffer is turned into counter values. Parameters:
  the numbers of the kernel's performance events, the outcome of the calls that load the
  program (\<open>Bpf_Load\<close>), the number of CPUs and the callback.
\<close>

section \<open>Configuration\<close>

definition MAX_PERF_COUNTERS :: nat where "MAX_PERF_COUNTERS = 8"

datatype counter_config = Named string | CustomCounter string u32 u64

datatype derived_counter = Ipc nat nat

datatype perf_count =
    HW_CPU_CYCLES | HW_INSTRUCTIONS | HW_CACHE_REFERENCES | HW_CACHE_MISSES | HW_BRANCH_INSTRUCTIONS
  | HW_BRANCH_MISSES | HW_STALLED_CYCLES_FRONTEND | HW_STALLED_CYCLES_BACKEND | SW_CPU_CLOCK | SW_TASK_CLOCK
  | SW_PAGE_FAULTS | SW_CONTEXT_SWITCHES | SW_CPU_MIGRATIONS | SW_PAGE_FAULTS_MIN | SW_PAGE_FAULTS_MAJ

record counter_abi = perf_abi +
  PERF_COUNT :: "perf_count \<Rightarrow> u32"

definition named_counters :: "(string \<times> bool \<times> perf_count) list" where
  "named_counters =
     [(''cpu-cycles'', True, HW_CPU_CYCLES), (''cpu-instructions'', True, HW_INSTRUCTIONS),
      (''instructions'', True, HW_INSTRUCTIONS), (''cache-references'', True, HW_CACHE_REFERENCES),
      (''cache-misses'', True, HW_CACHE_MISSES), (''branch-instructions'', True, HW_BRANCH_INSTRUCTIONS),
      (''branches'', True, HW_BRANCH_INSTRUCTIONS), (''branch-misses'', True, HW_BRANCH_MISSES),
      (''stalled-cycles-frontend'', True, HW_STALLED_CYCLES_FRONTEND),
      (''stalled-cycles-backend'', True, HW_STALLED_CYCLES_BACKEND), (''cpu-clock'', False, SW_CPU_CLOCK),
      (''task-clock'', False, SW_TASK_CLOCK), (''page-faults'', False, SW_PAGE_FAULTS), (''faults'', False, SW_PAGE_FAULTS),
      (''context-switches'', False, SW_CONTEXT_SWITCHES), (''cs'', False, SW_CONTEXT_SWITCHES),
      (''cpu-migrations'', False, SW_CPU_MIGRATIONS), (''migrations'', False, SW_CPU_MIGRATIONS),
      (''minor-faults'', False, SW_PAGE_FAULTS_MIN), (''major-faults'', False, SW_PAGE_FAULTS_MAJ)]"

definition to_perf_config :: "counter_abi \<Rightarrow> counter_config \<Rightarrow> bpf_error + string \<times> u32 \<times> u64" where
  "to_perf_config abi c =
     (case c of
        Named name \<Rightarrow>
          (case map_of named_counters name of
             Some (hw, n) \<Rightarrow> Inr (name, if hw then PERF_TYPE_HARDWARE abi else PERF_TYPE_SOFTWARE abi, ucast (PERF_COUNT abi n))
           | None \<Rightarrow> Inl (LoadError (''unknown performance counter: '' @ name)))
      | CustomCounter name ty config \<Rightarrow> Inr (name, ty, config))"

record perf_counter_config =
  pcc_frequency :: u64
  pcc_counters :: "counter_config list"
  pcc_ringbuf :: usize

text \<open>The loop: expanded counters, derived counters, and for each expanded one whether it is only there for a derived one.\<close>

fun expand_loop ::
  "counter_config list \<Rightarrow> counter_config list \<Rightarrow> (string \<times> derived_counter) list \<Rightarrow> bool list \<Rightarrow> nat
   \<Rightarrow> counter_config list \<times> (string \<times> derived_counter) list \<times> bool list" where
  "expand_loop [] expanded derived only idx = (expanded, derived, only)"
| "expand_loop (c # cs) expanded derived only idx =
     (if c = Named ''ipc''
      then expand_loop cs (expanded @ [Named ''cpu-cycles'', Named ''cpu-instructions''])
             (derived @ [(''ipc'', Ipc idx (idx + 1))]) (only @ [True, True]) (idx + 2)
      else expand_loop cs (expanded @ [c]) derived (only @ [False]) (idx + 1))"

definition expand_counters ::
  "perf_counter_config \<Rightarrow> ((string \<times> derived_counter) list \<times> bool list) \<times> perf_counter_config" where
  "expand_counters c =
     (case expand_loop (pcc_counters c) [] [] [] 0 of
        (expanded, derived, only) \<Rightarrow> ((derived, only), c\<lparr>pcc_counters := expanded\<rparr>))"

definition perf_validate ::
  "counter_abi \<Rightarrow> perf_counter_config \<Rightarrow> bpf_error + ((string \<times> derived_counter) list \<times> bool list) \<times> perf_counter_config" where
  "perf_validate abi c0 =
     (case expand_counters c0 of (info, c) \<Rightarrow>
        if pcc_counters c = [] then Inl (LoadError ''no performance counters configured'')
        else if MAX_PERF_COUNTERS < length (pcc_counters c)
        then Inl (LoadError (''too many performance counters: '' @ show_nat (length (pcc_counters c)) @ '' (max: '' @
                    show_nat MAX_PERF_COUNTERS @ '')''))
        else case collect_results (map (to_perf_config abi) (pcc_counters c)) of
               Inl e \<Rightarrow> Inl e
             | Inr _ \<Rightarrow> Inr (info, c))"

section \<open>Events\<close>

record perf_counter_event =
  pv_timestamp :: u64
  pv_cpu_id :: u32
  pv_counters :: "u64 list"

definition counter_track_id :: "u32 \<Rightarrow> nat \<Rightarrow> u64" where
  "counter_track_id cpu i = push_bit 32 (ucast cpu) OR of_nat i"

text \<open>The increase since the previous event of the CPU; a counter that went down has restarted.\<close>

definition counter_delta :: "u64 option \<Rightarrow> u64 \<Rightarrow> u64" where
  "counter_delta prev v = (case prev of Some p \<Rightarrow> if p \<le> v then v - p else v | None \<Rightarrow> 0)"

record perf_state =
  ps_previous :: "u32 \<times> nat \<Rightarrow> u64 option"
  ps_log :: "message list"

record perf_env =
  pv_cb :: "nat \<Rightarrow> i32"
  pv_stream :: stream_id

definition perf_call :: "perf_env \<Rightarrow> event \<Rightarrow> perf_state \<Rightarrow> i32 \<times> perf_state" where
  "perf_call env e s =
     (case call (pv_cb env) (MStream (pv_stream env) e) (ps_log s) of (r, log) \<Rightarrow> (r, s\<lparr>ps_log := log\<rparr>))"

definition perf_value :: "perf_counter_event \<Rightarrow> nat \<Rightarrow> f64_bits \<Rightarrow> event" where
  "perf_value e i v = ECounter \<lparr>ctr_name = '''', ctr_value = v, ctr_timestamp = pv_timestamp e,
     ctr_track_id = CounterId (counter_track_id (pv_cpu_id e) i), ctr_labels = labels_new, ctr_unit = None\<rparr>"

fun process_regular_counters :: "perf_env \<Rightarrow> perf_counter_event \<Rightarrow> bool list \<Rightarrow> nat list \<Rightarrow> perf_state \<Rightarrow> i32 \<times> perf_state" where
  "process_regular_counters env e only [] s = (0, s)"
| "process_regular_counters env e only (i # is) s =
     (if only ! i then process_regular_counters env e only is s
      else let d = counter_delta (ps_previous s (pv_cpu_id e, i)) (pv_counters e ! i);
               (r, s1) = perf_call env (perf_value e i (f64_of_u64 d)) s
           in if r \<noteq> 0 then (1, s1) else process_regular_counters env e only is s1)"

definition ipc_value :: "perf_counter_event \<Rightarrow> (u32 \<times> nat \<Rightarrow> u64 option) \<Rightarrow> derived_counter \<Rightarrow> f64_bits" where
  "ipc_value e prev dc =
     (case dc of Ipc cycles_idx instructions_idx \<Rightarrow>
        let cycles = counter_delta (prev (pv_cpu_id e, cycles_idx)) (pv_counters e ! cycles_idx);
            instructions = counter_delta (prev (pv_cpu_id e, instructions_idx)) (pv_counters e ! instructions_idx)
        in if 0 < cycles then f64_div (f64_of_u64 instructions) (f64_of_u64 cycles) else 0)"

fun process_derived_counters ::
  "perf_env \<Rightarrow> perf_counter_event \<Rightarrow> nat \<Rightarrow> (string \<times> derived_counter) list \<Rightarrow> nat list \<Rightarrow> perf_state \<Rightarrow> i32 \<times> perf_state" where
  "process_derived_counters env e len derived [] s = (0, s)"
| "process_derived_counters env e len derived (idx # idxs) s =
     (let (r, s1) = perf_call env (perf_value e (len + idx) (ipc_value e (ps_previous s) (snd (derived ! idx)))) s
      in if r \<noteq> 0 then (1, s1) else process_derived_counters env e len derived idxs s1)"

definition update_previous_values :: "perf_counter_event \<Rightarrow> nat \<Rightarrow> perf_state \<Rightarrow> perf_state" where
  "update_previous_values e len s =
     s\<lparr>ps_previous := (\<lambda>(cpu, i). if cpu = pv_cpu_id e \<and> i < len then Some (pv_counters e ! i) else ps_previous s (cpu, i))\<rparr>"

definition perf_handle_event ::
  "perf_env \<Rightarrow> (string \<times> derived_counter) list \<Rightarrow> bool list \<Rightarrow> nat \<Rightarrow> perf_counter_event \<Rightarrow> perf_state \<Rightarrow> i32 \<times> perf_state" where
  "perf_handle_event env derived only len e s =
     (case process_regular_counters env e only [0..<len] s of (r, s1) \<Rightarrow>
        if r \<noteq> 0 then (1, s1)
        else case process_derived_counters env e len derived [0..<length derived] s1 of (r', s2) \<Rightarrow>
               if r' \<noteq> 0 then (1, s2) else (0, update_previous_values e len s2))"

section \<open>Construction\<close>

definition pad_zero :: "nat \<Rightarrow> string \<Rightarrow> string" where
  "pad_zero w s = replicate (w - length s) CHR ''0'' @ s"

definition format_track_name :: "string \<Rightarrow> nat \<Rightarrow> nat \<Rightarrow> string" where
  "format_track_name name cpu cpu_count = name @ '' #'' @ pad_zero (length (show_nat (cpu_count - 1))) (show_nat cpu)"

definition counter_name :: "counter_config \<Rightarrow> string" where
  "counter_name c = (case c of Named n \<Rightarrow> n | CustomCounter n ty cfg \<Rightarrow> n)"

definition perf_track :: "string \<Rightarrow> nat \<Rightarrow> nat \<Rightarrow> nat \<Rightarrow> event" where
  "perf_track name nprocs cpu i = ETrack \<lparr>trk_name = format_track_name name cpu nprocs,
     trk_type = TyCounter (counter_track_id (of_nat cpu) i) None, trk_parent = Some (TyCpu (of_nat cpu))\<rparr>"

text \<open>The tracks announced for one CPU: the counters that are not only there for a derived one, then the derived ones.\<close>

definition cpu_tracks :: "(string \<times> derived_counter) list \<Rightarrow> bool list \<Rightarrow> counter_config list \<Rightarrow> nat \<Rightarrow> nat \<Rightarrow> event list" where
  "cpu_tracks derived only cs nprocs cpu =
     map (\<lambda>i. perf_track (counter_name (cs ! i)) nprocs cpu i) (filter (\<lambda>i. \<not> only ! i) [0..<length cs]) @
     map (\<lambda>idx. perf_track (fst (derived ! idx)) nprocs cpu (length cs + idx)) [0..<length derived]"

fun announce_tracks :: "perf_env \<Rightarrow> event list \<Rightarrow> perf_state \<Rightarrow> (bpf_error + unit) \<times> perf_state" where
  "announce_tracks env [] s = (Inr (), s)"
| "announce_tracks env (e # es) s =
     (case perf_call env e s of (r, s1) \<Rightarrow>
        if r \<noteq> 0 then (Inl (LoadError ''callback terminated''), s1) else announce_tracks env es s1)"

text \<open>Opening one counter on one CPU: the configuration is cut to 32 bits.\<close>

definition open_counter :: "os \<Rightarrow> nat \<Rightarrow> nat \<Rightarrow> string \<times> u32 \<times> u64 \<Rightarrow> nat \<Rightarrow> i32 loading" where
  "open_counter os n idx conf cpu =
     (case conf of (name, ty, config) \<Rightarrow>
        bindE (perf_event_open os ty (ucast config) None (of_nat cpu)
                 (prefixed AttachError (''failed to open perf event for counter '' @ name @ '' on cpu '' @ show_nat cpu))) (\<lambda>fd.
        let slot = cpu * n + idx
        in bindE (syscall os (UpdateMap ''perf_counters'' (of_nat slot) fd)
                 (prefixed MapError (''failed to update perf counter map at idx '' @ show_nat slot))) (\<lambda>_.
           bindE (syscall os (IoctlEnable fd) (prefixed AttachError ''failed to enable perf counter'')) (\<lambda>_. returnE fd))))"

definition open_on_cpus :: "os \<Rightarrow> counter_abi \<Rightarrow> nat \<Rightarrow> nat \<Rightarrow> nat \<times> counter_config \<Rightarrow> i32 list loading" where
  "open_on_cpus os abi nprocs n ic =
     (case ic of (idx, counter) \<Rightarrow>
        case to_perf_config abi counter of
          Inl e \<Rightarrow> (\<lambda>log. (Inl e, log))
        | Inr conf \<Rightarrow> mapE (open_counter os n idx conf) [0..<nprocs])"

definition perf_counter_start :: "os \<Rightarrow> counter_abi \<Rightarrow> nat \<Rightarrow> perf_counter_config \<Rightarrow> unit loading" where
  "perf_counter_start os abi nprocs c =
     (let n = length (pcc_counters c)
      in bindE (run_steps os (open_steps (pcc_ringbuf c) @
              [Do (SetMaxEntries ''perf_counters'' (of_nat (nprocs * n))) (prefixed LoadError ''failed to set perf counters map size''),
               Note (WriteConst ''counter_count'' (of_nat n)), load_step])) (\<lambda>_.
         bindE (perf_event_per_cpu os nprocs (PERF_TYPE_SOFTWARE abi) (PERF_COUNT_SW_CPU_CLOCK abi) (pcc_frequency c)
              (prefixed AttachError ''failed to create timer perf events'')) (\<lambda>fds.
         bindE (attach_perf_event os ''perfcounter_timer'' fds (prefixed AttachError ''failed to attach timer perf event'')) (\<lambda>_.
         bindE (mapE (open_on_cpus os abi nprocs n) (enumerate 0 (pcc_counters c)))
           (\<lambda>_. returnE ())))))"

definition perf_counter_new ::
  "os \<Rightarrow> counter_abi \<Rightarrow> perf_env \<Rightarrow> nat \<Rightarrow> perf_counter_config
   \<Rightarrow> bpf_error + ((string \<times> derived_counter) list \<times> bool list) \<times> nat \<times> perf_state" where
  "perf_counter_new os abi env nprocs c0 =
     (case perf_validate abi c0 of
        Inl e \<Rightarrow> Inl e
      | Inr ((derived, only), c) \<Rightarrow>
          (case fst (perf_counter_start os abi nprocs c []) of
             Inl e \<Rightarrow> Inl e
           | Inr _ \<Rightarrow>
               (case announce_tracks env (concat (map (cpu_tracks derived only (pcc_counters c) nprocs) [0..<nprocs]))
                       \<lparr>ps_previous = Map.empty, ps_log = []\<rparr> of
                  (Inl e, s) \<Rightarrow> Inl e
                | (Inr _, s) \<Rightarrow>
                    (case fst (run_steps os (ring_steps LoadError) []) of
                       Inl e \<Rightarrow> Inl e
                     | Inr _ \<Rightarrow> Inr ((derived, only), length (pcc_counters c), s)))))"

section \<open>Expansion\<close>

definition expansion :: "counter_config \<Rightarrow> (bool \<times> counter_config) list" where
  "expansion c = (if c = Named ''ipc'' then [(True, Named ''cpu-cycles''), (True, Named ''cpu-instructions'')] else [(False, c)])"

lemma expansion_simps:
  "expansion (Named ''ipc'') = [(True, Named ''cpu-cycles''), (True, Named ''cpu-instructions'')]"
  "c \<noteq> Named ''ipc'' \<Longrightarrow> expansion c = [(False, c)]"
  by (simp_all add: expansion_def)

fun derived_of :: "nat \<Rightarrow> counter_config list \<Rightarrow> (string \<times> derived_counter) list" where
  "derived_of idx [] = []"
| "derived_of idx (c # cs) =
     (if c = Named ''ipc'' then (''ipc'', Ipc idx (idx + 1)) # derived_of (idx + 2) cs else derived_of (idx + 1) cs)"

lemma expand_loop_eq:
  "expand_loop cs ex de on idx =
     (ex @ map snd (concat (map expansion cs)), de @ derived_of idx cs, on @ map fst (concat (map expansion cs)))"
  by (induction cs arbitrary: ex de on idx) (simp_all add: expansion_def)

lemma length_derived_of: "length (derived_of idx cs) = length (filter (\<lambda>c. c = Named ''ipc'') cs)"
  by (induction idx cs rule: derived_of.induct) simp_all

text \<open>Where a derived counter points to.\<close>

lemma derived_of_points:
  assumes "(name, Ipc a b) \<in> set (derived_of idx cs)"
  shows "idx \<le> a \<and> b = Suc a \<and> b - idx < length (concat (map expansion cs)) \<and>
    concat (map expansion cs) ! (a - idx) = (True, Named ''cpu-cycles'') \<and>
    concat (map expansion cs) ! (b - idx) = (True, Named ''cpu-instructions'')"
  using assms
proof (induction idx cs rule: derived_of.induct)
  case (2 idx c cs)
  show ?case
  proof (cases "c = Named ''ipc''")
    case True
    consider "a = idx" "b = Suc idx" | "(name, Ipc a b) \<in> set (derived_of (idx + 2) cs)"
      using "2.prems" True by auto
    then show ?thesis
    proof cases
      case 1
      then show ?thesis using True by (simp add: expansion_simps)
    next
      case 2
      from "2.IH"(1) [OF True this] have IH: "idx + 2 \<le> a" "b = Suc a"
          "b - (idx + 2) < length (concat (map expansion cs))"
          "concat (map expansion cs) ! (a - (idx + 2)) = (True, Named ''cpu-cycles'')"
          "concat (map expansion cs) ! (b - (idx + 2)) = (True, Named ''cpu-instructions'')" by auto
      have "a - idx = Suc (Suc (a - (idx + 2)))" "b - idx = Suc (Suc (b - (idx + 2)))" using IH(1,2) by auto
      then show ?thesis using True IH by (simp add: expansion_simps)
    qed
  next
    case False
    from "2.IH"(2) [OF False] "2.prems" False have IH: "idx + 1 \<le> a" "b = Suc a"
        "b - (idx + 1) < length (concat (map expansion cs))"
        "concat (map expansion cs) ! (a - (idx + 1)) = (True, Named ''cpu-cycles'')"
        "concat (map expansion cs) ! (b - (idx + 1)) = (True, Named ''cpu-instructions'')" by auto
    have "a - idx = Suc (a - (idx + 1))" "b - idx = Suc (b - (idx + 1))" using IH(1,2) by auto
    then show ?thesis using False IH by (simp add: expansion_simps)
  qed
qed simp

lemma expansion_regular: "map snd (filter (\<lambda>oc. \<not> fst oc) (concat (map expansion cs))) = filter (\<lambda>c. c \<noteq> Named ''ipc'') cs"
  by (induction cs) (simp_all add: expansion_def)

lemma collect_results_Inr: "collect_results xs = Inr ys \<Longrightarrow> \<forall>x \<in> set xs. \<exists>y. x = Inr y"
  by (induction xs arbitrary: ys rule: collect_results.induct) (auto split: sum.splits)

lemma perf_validate_Inr:
  assumes "perf_validate abi c0 = Inr ((derived, only), c)"
  shows "derived = derived_of 0 (pcc_counters c0)" "only = map fst (concat (map expansion (pcc_counters c0)))"
    "pcc_counters c = map snd (concat (map expansion (pcc_counters c0)))" "pcc_counters c \<noteq> []"
    "length (pcc_counters c) \<le> MAX_PERF_COUNTERS" "\<forall>k \<in> set (pcc_counters c). \<exists>x. to_perf_config abi k = Inr x"
proof -
  let ?E = "concat (map expansion (pcc_counters c0))" and ?c = "c0\<lparr>pcc_counters := map snd (concat (map expansion (pcc_counters c0)))\<rparr>"
  have ex: "expand_counters c0 = ((derived_of 0 (pcc_counters c0), map fst ?E), ?c)"
    by (simp add: expand_counters_def expand_loop_eq)
  obtain ys where ys: "collect_results (map (to_perf_config abi) (map snd ?E)) = Inr ys"
      and v: "map snd ?E \<noteq> []" "length (map snd ?E) \<le> MAX_PERF_COUNTERS"
      and eq: "derived = derived_of 0 (pcc_counters c0)" "only = map fst ?E" "c = ?c"
    using assms unfolding perf_validate_def ex by (simp del: map_concat split: if_splits sum.splits)
  show "\<forall>k \<in> set (pcc_counters c). \<exists>x. to_perf_config abi k = Inr x"
    using collect_results_Inr [OF ys] unfolding eq(3) by auto
  show "derived = derived_of 0 (pcc_counters c0)" "only = map fst ?E" "pcc_counters c = map snd ?E" "pcc_counters c \<noteq> []"
    "length (pcc_counters c) \<le> MAX_PERF_COUNTERS" using v eq by simp_all
qed

text \<open>
  C38: expanding and validating the counters keeps the configured ones, in order, marks exactly
  the additional ones, stays within the array of an event, and gives every \<open>ipc\<close> the positions of
  its own two counters, cycles and instructions: no derived counter reads another's or beyond
  the array.
\<close>

theorem derived_counters_resolve:
  assumes "perf_validate abi c0 = Inr ((derived, only), c)"
  shows "length only = length (pcc_counters c) \<and> 0 < length (pcc_counters c) \<and> length (pcc_counters c) \<le> MAX_PERF_COUNTERS \<and>
    map snd (filter (\<lambda>oc. \<not> fst oc) (zip only (pcc_counters c))) = filter (\<lambda>k. k \<noteq> Named ''ipc'') (pcc_counters c0) \<and>
    length derived = length (filter (\<lambda>k. k = Named ''ipc'') (pcc_counters c0)) \<and>
    (\<forall>name a b. (name, Ipc a b) \<in> set derived \<longrightarrow> b = Suc a \<and> b < length (pcc_counters c) \<and> only ! a \<and> only ! b \<and>
       pcc_counters c ! a = Named ''cpu-cycles'' \<and> pcc_counters c ! b = Named ''cpu-instructions'') \<and>
    (\<forall>k \<in> set (pcc_counters c). \<exists>x. to_perf_config abi k = Inr x)"
proof -
  let ?E = "concat (map expansion (pcc_counters c0))"
  note v = perf_validate_Inr [OF assms]
  have z: "zip only (pcc_counters c) = ?E" unfolding v(2,3) by (rule zip_map_fst_snd)
  have "b = Suc a \<and> b < length (pcc_counters c) \<and> only ! a \<and> only ! b \<and>
       pcc_counters c ! a = Named ''cpu-cycles'' \<and> pcc_counters c ! b = Named ''cpu-instructions''"
    if m: "(name, Ipc a b) \<in> set derived" for name a b
  proof -
    have p: "b = Suc a" "b < length ?E" "?E ! a = (True, Named ''cpu-cycles'')" "?E ! b = (True, Named ''cpu-instructions'')"
      using derived_of_points [of name a b 0] m v(1) by auto
    then have "a < length ?E" by simp
    then show ?thesis using p unfolding v(2,3) by (simp del: map_concat length_concat)
  qed
  moreover have "0 < length (pcc_counters c)" using v(4) by simp
  moreover have "length only = length (pcc_counters c)" unfolding v(2,3) by simp
  moreover have "length derived = length (filter (\<lambda>k. k = Named ''ipc'') (pcc_counters c0))"
    unfolding v(1) by (rule length_derived_of)
  ultimately show ?thesis
    using v(5,6) unfolding z expansion_regular by (intro conjI) (assumption | rule refl | blast)+
qed

definition sample_counter_abi :: counter_abi where
  "sample_counter_abi = \<lparr>PERF_TYPE_HARDWARE = 0, PERF_TYPE_SOFTWARE = 1, PERF_COUNT_SW_CPU_CLOCK = 0, PERF_COUNT = (\<lambda>_. 1)\<rparr>"

definition sample_perf_config :: perf_counter_config where
  "sample_perf_config = \<lparr>pcc_frequency = 9, pcc_counters = [Named ''cs'', Named ''ipc''], pcc_ringbuf = 4096\<rparr>"

lemma sample_perf_validated:
  "perf_validate sample_counter_abi sample_perf_config = Inr (([(''ipc'', Ipc 1 2)], [False, True, True]),
     sample_perf_config\<lparr>pcc_counters := [Named ''cs'', Named ''cpu-cycles'', Named ''cpu-instructions'']\<rparr>)"
  by (simp add: perf_validate_def expand_counters_def sample_perf_config_def MAX_PERF_COUNTERS_def to_perf_config_def
      named_counters_def)

theorem derived_counters_resolve_witness:
  "\<exists>derived only c. perf_validate sample_counter_abi sample_perf_config = Inr ((derived, only), c) \<and>
     length only = length (pcc_counters c) \<and> length derived = 1"
  using derived_counters_resolve [OF sample_perf_validated] sample_perf_validated by auto

section \<open>Announcements\<close>

text \<open>The identifiers of different counters, on one CPU or on different ones, differ.\<close>

lemma counter_track_id_inj:
  assumes "counter_track_id cpu i = counter_track_id cpu' i'" "i < 2 ^ 32" "i' < 2 ^ 32"
  shows "cpu = cpu' \<and> i = i'"
proof -
  have bits: "take_bit 32 (of_nat i :: u64) = of_nat i" if "i < 2 ^ 32" for i
  proof -
    have "(of_nat i :: u64) < 2 ^ 32" using that by (simp add: word_less_nat_alt unsigned_of_nat take_bit_nat_eq_self)
    then show ?thesis unfolding take_bit_eq_mask by (rule less_mask_eq)
  qed
  have low: "take_bit 32 (counter_track_id cpu i) = of_nat i" if "i < 2 ^ 32" for cpu i
    using bits [OF that] by (simp add: counter_track_id_def take_bit_or take_bit_push_bit)
  have high: "drop_bit 32 (counter_track_id cpu i) = ucast cpu" if "i < 2 ^ 32" for cpu i
  proof -
    have "drop_bit 32 (of_nat i :: u64) = 0" using bits [OF that] by (simp only: take_bit_eq_self_iff_drop_bit_eq_0)
    moreover have "drop_bit 32 (push_bit 32 (ucast cpu) :: u64) = ucast cpu"
      using bit_imp_le_length [of cpu] by (auto intro!: bit_word_eqI simp: bit_simps)
    ultimately show ?thesis by (simp add: counter_track_id_def drop_bit_or)
  qed
  have "(of_nat i :: u64) = of_nat i'" using low [OF assms(2), of cpu] low [OF assms(3), of cpu'] assms(1) by simp
  moreover have "i < 2 ^ LENGTH(64)" "i' < 2 ^ LENGTH(64)" using assms(2,3) by simp_all
  ultimately have "i = i'" by (rule of_nat_word_inj)
  moreover have "(ucast cpu :: u64) = ucast cpu'"
    using high [OF assms(2), of cpu] high [OF assms(3), of cpu'] assms(1) by simp
  then have "unat cpu = unat cpu'" using unat_u32_to_u64 [of cpu] unat_u32_to_u64 [of cpu'] by simp
  then have "cpu = cpu'" by (simp add: word_unat_eq_iff)
  ultimately show ?thesis by blast
qed

text \<open>The counters that are announced: those that are reported, and the derived ones.\<close>

definition reported :: "bool list \<Rightarrow> nat \<Rightarrow> nat \<Rightarrow> nat list" where
  "reported only len n = filter (\<lambda>i. \<not> only ! i) [0..<len] @ [len..<len + n]"

definition announced_id :: "nat \<Rightarrow> nat \<Rightarrow> track_id" where
  "announced_id cpu i = CounterId (counter_track_id (of_nat cpu) i)"

lemma upt_shift: "[len..<len + n] = map (\<lambda>i. len + i) [0..<n]" for len n :: nat
  by (induction n) simp_all

definition announced_track :: "message \<Rightarrow> track_id option" where
  "announced_track m = (case message_event m of ETrack k \<Rightarrow> Some (to_id (trk_type k)) | _ \<Rightarrow> None)"

lemma announces_iff: "announces m t \<longleftrightarrow> announced_track m = Some t"
  by (simp add: announces_def announced_track_def split: event.split)

lemma cpu_tracks_announced:
  "map (\<lambda>e. announced_track (MStream sid e)) (cpu_tracks derived only cs nprocs cpu) =
     map (\<lambda>i. Some (announced_id cpu i)) (reported only (length cs) (length derived))"
  unfolding cpu_tracks_def reported_def upt_shift
  by (simp add: perf_track_def announced_id_def announced_track_def)

lemma cpu_tracks_need_nothing: "\<forall>e \<in> set (cpu_tracks derived only cs nprocs cpu). tracks_needed (MStream sid e) = []"
  by (auto simp: cpu_tracks_def perf_track_def)

definition all_ids :: "bool list \<Rightarrow> nat \<Rightarrow> nat \<Rightarrow> nat \<Rightarrow> track_id list" where
  "all_ids only len n nprocs = concat (map (\<lambda>cpu. map (announced_id cpu) (reported only len n)) [0..<nprocs])"

lemma distinct_all_ids:
  assumes "nprocs \<le> 2 ^ 32" "len + n \<le> 2 ^ 32"
  shows "distinct (all_ids only len n nprocs)"
proof -
  have lt: "i \<in> set (reported only len n) \<Longrightarrow> i < 2 ^ 32" for i using assms(2) by (auto simp: reported_def)
  have inj: "cpu = cpu' \<and> i = i'"
    if "announced_id cpu i = announced_id cpu' i'" "cpu < nprocs" "cpu' < nprocs"
      "i \<in> set (reported only len n)" "i' \<in> set (reported only len n)" for cpu cpu' i i'
  proof -
    have "(of_nat cpu :: u32) = of_nat cpu'" "i = i'"
      using counter_track_id_inj [of "of_nat cpu" i "of_nat cpu'" i'] that lt by (auto simp: announced_id_def)
    moreover have "cpu < 2 ^ LENGTH(32)" "cpu' < 2 ^ LENGTH(32)" using that assms(1) by simp_all
    ultimately show ?thesis using of_nat_word_inj [of cpu cpu', where 'a = 32] by blast
  qed
  have "distinct (reported only len n)" by (auto simp: reported_def)
  then have one: "distinct (map (announced_id cpu) (reported only len n))" if "cpu < nprocs" for cpu
    using inj [of cpu _ cpu] that by (auto simp: distinct_map inj_on_def)
  have "m \<le> nprocs \<Longrightarrow> distinct (concat (map (\<lambda>cpu. map (announced_id cpu) (reported only len n)) [0..<m]))" for m
  proof (induction m)
    case (Suc m)
    have "announced_id cpu i \<noteq> announced_id m j"
      if "cpu < m" "i \<in> set (reported only len n)" "j \<in> set (reported only len n)" for cpu i j
      using inj [of cpu i m j] that Suc.prems by auto
    then have "set (concat (map (\<lambda>cpu. map (announced_id cpu) (reported only len n)) [0..<m])) \<inter>
        set (map (announced_id m) (reported only len n)) = {}" by fastforce
    then show ?case using Suc one [of m] by (simp del: set_concat)
  qed simp
  then show ?thesis by (simp add: all_ids_def)
qed

lemma announced_tracks_concat:
  "map announced_track (map (MStream sid) (concat (map (cpu_tracks derived only cs nprocs) cpus))) =
     map Some (concat (map (\<lambda>cpu. map (announced_id cpu) (reported only (length cs) (length derived))) cpus))"
  by (induction cpus) (simp_all add: cpu_tracks_announced o_def)

lemma perf_call_eq: "perf_call env e s = (pv_cb env (length (ps_log s)), s\<lparr>ps_log := ps_log s @ [MStream (pv_stream env) e]\<rparr>)"
  by (simp add: perf_call_def call_def)

lemma announce_tracks_log:
  "announce_tracks env es s = (Inr (), s') \<Longrightarrow> ps_log s' = ps_log s @ map (MStream (pv_stream env)) es"
  by (induction env es s rule: announce_tracks.induct) (auto simp: perf_call_eq split: if_splits)

lemma count_list_distinct: "distinct xs \<Longrightarrow> count_list xs x \<le> 1"
proof (induction xs)
  case (Cons a xs)
  then show ?case by (cases "a = x") (simp_all add: count_notin)
qed simp

text \<open>The state once all tracks are announced: nothing else is ever announced, and values use these tracks.\<close>

definition perf_ok :: "message list \<Rightarrow> track_id list \<Rightarrow> perf_state \<Rightarrow> bool" where
  "perf_ok base ids s \<longleftrightarrow> log_grows base (ps_log s) \<and> announced_first (ps_log s) \<and>
     filter (\<lambda>x. x \<noteq> None) (map announced_track (ps_log s)) = map Some ids"

lemma perf_ok_announced:
  assumes "perf_ok base ids s" "t \<in> set ids"
  shows "\<exists>m \<in> set (ps_log s). announces m t"
proof -
  have "Some t \<in> set (map announced_track (ps_log s))"
  proof -
    have "Some t \<in> set (filter (\<lambda>x. x \<noteq> None) (map announced_track (ps_log s)))"
      using assms unfolding perf_ok_def by simp
    then show ?thesis by simp
  qed
  then show ?thesis by (auto simp: announces_iff)
qed

lemma perf_ok_value:
  assumes "perf_ok base ids s" "CounterId (counter_track_id (pv_cpu_id e) i) \<in> set ids"
  shows "perf_ok base ids (snd (perf_call env (perf_value e i v) s))"
  using assms perf_ok_announced [OF assms]
  by (simp add: perf_ok_def perf_call_eq perf_value_def announced_first_snoc announced_track_def)

lemma perf_ok_regular:
  assumes "perf_ok base ids s" "\<forall>i \<in> set is. \<not> only ! i \<longrightarrow> CounterId (counter_track_id (pv_cpu_id e) i) \<in> set ids"
  shows "perf_ok base ids (snd (process_regular_counters env e only is s))"
  using assms
proof (induction "is" arbitrary: s)
  case (Cons i "is")
  show ?case
  proof (cases "only ! i")
    case False
    let ?d = "counter_delta (ps_previous s (pv_cpu_id e, i)) (pv_counters e ! i)"
    obtain r s1 where c: "perf_call env (perf_value e i (f64_of_u64 ?d)) s = (r, s1)" by fastforce
    have "perf_ok base ids s1" using perf_ok_value [OF Cons.prems(1), of e i env "f64_of_u64 ?d"] c Cons.prems(2) False by simp
    then show ?thesis using Cons.IH Cons.prems(2) c False by (simp add: Let_def)
  qed (use Cons in simp)
qed simp

lemma perf_ok_derived:
  assumes "perf_ok base ids s" "\<forall>idx \<in> set idxs. CounterId (counter_track_id (pv_cpu_id e) (len + idx)) \<in> set ids"
  shows "perf_ok base ids (snd (process_derived_counters env e len derived idxs s))"
  using assms
proof (induction idxs arbitrary: s)
  case (Cons idx idxs)
  let ?v = "ipc_value e (ps_previous s) (snd (derived ! idx))"
  obtain r s1 where c: "perf_call env (perf_value e (len + idx) ?v) s = (r, s1)" by fastforce
  have "perf_ok base ids s1" using perf_ok_value [OF Cons.prems(1), of e "len + idx" env ?v] c Cons.prems(2) by simp
  then show ?case using Cons.IH Cons.prems(2) c by (simp add: Let_def)
qed simp

lemma perf_ok_handle:
  assumes "perf_ok base (all_ids only len (length derived) nprocs) s" "unat (pv_cpu_id e) < nprocs"
  shows "perf_ok base (all_ids only len (length derived) nprocs) (snd (perf_handle_event env derived only len e s))"
proof -
  let ?ids = "all_ids only len (length derived) nprocs"
  have known: "CounterId (counter_track_id (pv_cpu_id e) i) \<in> set ?ids" if "i \<in> set (reported only len (length derived))" for i
  proof -
    have "CounterId (counter_track_id (pv_cpu_id e) i) = announced_id (unat (pv_cpu_id e)) i"
      by (simp add: announced_id_def)
    then show ?thesis using that assms(2) by (auto simp: all_ids_def)
  qed
  obtain r s1 where r: "process_regular_counters env e only [0..<len] s = (r, s1)" by fastforce
  have s1: "perf_ok base ?ids s1"
    using perf_ok_regular [OF assms(1), of "[0..<len]" only e env] known r by (simp add: reported_def)
  obtain r' s2 where d: "process_derived_counters env e len derived [0..<length derived] s1 = (r', s2)" by fastforce
  have s2: "perf_ok base ?ids s2"
    using perf_ok_derived [OF s1, of "[0..<length derived]" e len env derived] known d by (simp add: reported_def)
  then have "perf_ok base ?ids (update_previous_values e len s2)" by (simp add: perf_ok_def update_previous_values_def)
  with r d s1 s2 show ?thesis by (simp add: perf_handle_event_def)
qed

fun perf_run ::
  "perf_env \<Rightarrow> (string \<times> derived_counter) list \<Rightarrow> bool list \<Rightarrow> nat \<Rightarrow> perf_counter_event list \<Rightarrow> perf_state \<Rightarrow> perf_state" where
  "perf_run env derived only len [] s = s"
| "perf_run env derived only len (e # es) s = perf_run env derived only len es (snd (perf_handle_event env derived only len e s))"

lemma perf_run_ok:
  "\<lbrakk>perf_ok base (all_ids only len (length derived) nprocs) s; \<forall>e \<in> set es. unat (pv_cpu_id e) < nprocs\<rbrakk> \<Longrightarrow>
   perf_ok base (all_ids only len (length derived) nprocs) (perf_run env derived only len es s)"
  by (induction es arbitrary: s) (simp_all add: perf_ok_handle)

lemma announced_first_independent: "\<forall>m \<in> set log. tracks_needed m = [] \<Longrightarrow> announced_first log"
  by (simp add: announced_first_def)

lemma perf_new_ok:
  assumes "perf_counter_new os abi env nprocs c0 = Inr ((derived, only), len, s)"
  shows "perf_ok [] (all_ids only len (length derived) nprocs) s" "len \<le> MAX_PERF_COUNTERS" "length derived \<le> len"
proof -
  obtain c where v: "perf_validate abi c0 = Inr ((derived, only), c)" and len: "len = length (pcc_counters c)"
    and a: "announce_tracks env (concat (map (cpu_tracks derived only (pcc_counters c) nprocs) [0..<nprocs]))
       \<lparr>ps_previous = Map.empty, ps_log = []\<rparr> = (Inr (), s)"
    using assms by (auto simp: perf_counter_new_def split: sum.splits prod.splits)
  let ?log = "map (MStream (pv_stream env)) (concat (map (cpu_tracks derived only (pcc_counters c) nprocs) [0..<nprocs]))"
  have log: "ps_log s = ?log" using announce_tracks_log [OF a] by simp
  have "announced_first ?log"
    by (rule announced_first_independent) (use cpu_tracks_need_nothing in \<open>fastforce\<close>)
  moreover have "filter (\<lambda>x. x \<noteq> None) (map Some xs) = map Some xs" for xs :: "track_id list" by (simp add: filter_id_conv)
  ultimately show "perf_ok [] (all_ids only len (length derived) nprocs) s"
    unfolding perf_ok_def log announced_tracks_concat all_ids_def len by simp
  show "len \<le> MAX_PERF_COUNTERS" using perf_validate_Inr(5) [OF v] len by simp
  have "length (filter (\<lambda>c. c = Named ''ipc'') cs) \<le> length (concat (map expansion cs))" for cs
    by (induction cs) (auto simp: expansion_def)
  then show "length derived \<le> len"
    unfolding len perf_validate_Inr(1,3) [OF v] length_derived_of by (simp del: map_concat length_concat)
qed


definition sample_perf_env :: perf_env where "sample_perf_env = \<lparr>pv_cb = \<lambda>_. 0, pv_stream = 7\<rparr>"

lemma sample_perf_start:
  "fst (perf_counter_start (\<lambda>_. Inr 3) sample_counter_abi 1
     (sample_perf_config\<lparr>pcc_counters := [Named ''cs'', Named ''cpu-cycles'', Named ''cpu-instructions'']\<rparr>) []) = Inr ()"
  by (simp add: perf_counter_start_def open_on_cpus_def open_counter_def perf_event_per_cpu_def perf_event_open_def
      attach_perf_event_def to_perf_config_def named_counters_def open_steps_def load_step_def Let_def bindE_def returnE_def
      syscall_def note_call_def)

lemma announce_tracks_accepted: "\<forall>n. pv_cb env n = 0 \<Longrightarrow> fst (announce_tracks env es s) = Inr ()"
  by (induction env es s rule: announce_tracks.induct) (simp add: perf_call_eq)+

lemma sample_perf_accepts: "\<forall>n. pv_cb sample_perf_env n = 0"
  by (simp add: sample_perf_env_def)

lemma sample_perf_new:
  "\<exists>derived only len s. perf_counter_new (\<lambda>_. Inr 3) sample_counter_abi sample_perf_env 1 sample_perf_config = Inr ((derived, only), len, s)"
proof -
  let ?cs = "[Named ''cs'', Named ''cpu-cycles'', Named ''cpu-instructions'']"
  let ?es = "concat (map (cpu_tracks [(''ipc'', Ipc 1 2)] [False, True, True] ?cs 1) [0..<1])"
  obtain s where s: "announce_tracks sample_perf_env ?es \<lparr>ps_previous = Map.empty, ps_log = []\<rparr> = (Inr (), s)"
    using announce_tracks_accepted [of sample_perf_env ?es] by (metis (no_types) sample_perf_accepts prod.collapse)
  have ring: "fst (run_steps (\<lambda>_. Inr 3) (ring_steps LoadError) []) = Inr ()"
    by (simp add: ring_steps_def bindE_def returnE_def syscall_def)
  show ?thesis
    unfolding perf_counter_new_def sample_perf_validated by (simp add: sample_perf_start [simplified] s [simplified] ring)
qed


end
