(* ===== verification/Interned.thy ===== *)
theory Interned
  imports Protocol
begin

text \<open>
  \<^verbatim>\<open>interned-symbolizer/src/lib.rs\<close>: interning of symbolised call stacks. Every frame, function name
  and call stack is announced once, in an \<open>InternedData\<close> event, under a sequence number;
  later events refer to the number. Parameters: the symbolizer (crate blazesym, which maps a
  source and addresses to symbols) and the 64-bit hash of a list of frame ids (\<open>hash\<close>, the
  standard library's \<open>DefaultHasher\<close>, whose algorithm is unspecified). A symbol is modelled
  by \<open>as_sym\<close>: the function's name, or \<open>None\<close> when the address is unknown.
\<close>

definition FAKE_MAPPING_ID :: u64 where "FAKE_MAPPING_ID = 1"

datatype 'e symbolizer_error = Blazesym 'e | EmptySymbols

record interned_cache =
  next_callstack_sequence :: u64
  callstack_hash_to_sequence :: "u64 \<Rightarrow> u64 option"
  next_frame_sequence :: u64
  pid_frame_to_sequence :: "i32 \<times> u64 \<Rightarrow> u64 option"
  unknown_function_id :: "u64 option"
  next_function_id :: u64
  fake_mapping_id :: "u64 option"
  next_mapping_id :: u64
  is_first_interned_data :: bool

definition interned_cache_new :: interned_cache where
  "interned_cache_new = \<lparr>next_callstack_sequence = 0, callstack_hash_to_sequence = Map.empty,
     next_frame_sequence = 0, pid_frame_to_sequence = Map.empty, unknown_function_id = None,
     next_function_id = 0, fake_mapping_id = None, next_mapping_id = 0, is_first_interned_data = True\<rparr>"

definition cached_frame :: "interned_cache \<Rightarrow> i32 \<Rightarrow> u64 \<Rightarrow> u64 option" where
  "cached_frame c pid frame = pid_frame_to_sequence c (pid, frame)"

definition cached_callstack :: "(u64 list \<Rightarrow> u64) \<Rightarrow> interned_cache \<Rightarrow> u64 list \<Rightarrow> u64 option" where
  "cached_callstack hash c callstack = callstack_hash_to_sequence c (hash callstack)"

definition reserve_frame :: "i32 \<Rightarrow> u64 \<Rightarrow> interned_cache \<Rightarrow> u64 \<times> interned_cache" where
  "reserve_frame pid frame c =
     (case pid_frame_to_sequence c (pid, frame) of
        Some i \<Rightarrow> (i, c)
      | None \<Rightarrow>
          (let i = next_frame_sequence c
           in (i, c\<lparr>next_frame_sequence := i + 1,
                    pid_frame_to_sequence := (pid_frame_to_sequence c)((pid, frame) \<mapsto> i)\<rparr>)))"

definition reserve_callstack :: "(u64 list \<Rightarrow> u64) \<Rightarrow> u64 list \<Rightarrow> interned_cache \<Rightarrow> u64 \<times> interned_cache" where
  "reserve_callstack hash callstack c =
     (let h = hash callstack in
      case callstack_hash_to_sequence c h of
        Some i \<Rightarrow> (i, c)
      | None \<Rightarrow>
          (let i = next_callstack_sequence c
           in (i, c\<lparr>next_callstack_sequence := i + 1,
                    callstack_hash_to_sequence := (callstack_hash_to_sequence c)(h \<mapsto> i)\<rparr>)))"

definition get_or_create_unknown_function_id :: "interned_cache \<Rightarrow> u64 \<times> interned_cache" where
  "get_or_create_unknown_function_id c =
     (case unknown_function_id c of
        Some i \<Rightarrow> (i, c)
      | None \<Rightarrow>
          (let i = next_function_id c in (i, c\<lparr>next_function_id := i + 1, unknown_function_id := Some i\<rparr>)))"

definition get_or_create_fake_mapping_id :: "interned_cache \<Rightarrow> u64 \<times> interned_cache" where
  "get_or_create_fake_mapping_id c =
     (case fake_mapping_id c of
        Some i \<Rightarrow> (i, c)
      | None \<Rightarrow> (FAKE_MAPPING_ID,
                  c\<lparr>fake_mapping_id := Some FAKE_MAPPING_ID, next_mapping_id := FAKE_MAPPING_ID + 1\<rparr>))"

definition reserve_function_id :: "interned_cache \<Rightarrow> u64 \<times> interned_cache" where
  "reserve_function_id c = (let i = next_function_id c in (i, c\<lparr>next_function_id := i + 1\<rparr>))"

definition take_is_first_interned_data :: "interned_cache \<Rightarrow> bool \<times> interned_cache" where
  "take_is_first_interned_data c = (is_first_interned_data c, c\<lparr>is_first_interned_data := False\<rparr>)"

section \<open>Interning one stack\<close>

text \<open>The vectors the loops push to: frame ids, new function names, new frames.\<close>

type_synonym pushed = "u64 list \<times> interned_string list \<times> frame list"

definition intern_frame :: "i32 \<Rightarrow> string option \<times> u64 \<Rightarrow> interned_cache \<times> pushed \<Rightarrow> interned_cache \<times> pushed" where
  "intern_frame pid sa st =
     (case sa of (sm, addr) \<Rightarrow> case st of (c, ids, names, frms) \<Rightarrow>
      let is_new_frame = (cached_frame c pid addr = None);
          (frame_id, c1) = reserve_frame pid addr c;
          ids' = ids @ [frame_id]
      in if is_new_frame then
           (let (func_id, c2, names') =
                  (case sm of
                     Some nm \<Rightarrow> (let (i, c2) = reserve_function_id c1 in (i, c2, names @ [\<lparr>istr_iid = i, istr_str = nm\<rparr>]))
                   | None \<Rightarrow> (let (i, c2) = get_or_create_unknown_function_id c1 in (i, c2, names)))
            in (c2, ids', names', frms @ [\<lparr>frm_iid = frame_id, function_name_id = func_id,
                                           mapping_id = FAKE_MAPPING_ID, rel_pc = addr\<rparr>]))
         else (c1, ids', names, frms))"

definition intern_frames :: "i32 \<Rightarrow> (string option \<times> u64) list \<Rightarrow> interned_cache \<times> pushed \<Rightarrow> interned_cache \<times> pushed" where
  "intern_frames pid = fold (intern_frame pid)"

definition announce_unknown :: "interned_cache \<Rightarrow> interned_cache \<times> interned_string list" where
  "announce_unknown c =
     (if unknown_function_id c = None
      then (let (i, c') = get_or_create_unknown_function_id c in (c', [\<lparr>istr_iid = i, istr_str = ''<unknown>''\<rparr>]))
      else (c, []))"

definition announce_mapping :: "interned_cache \<Rightarrow> interned_cache \<times> mapping_rec list \<times> interned_string list" where
  "announce_mapping c =
     (if fake_mapping_id c = None
      then (let (i, c') = get_or_create_fake_mapping_id c
            in (c', [\<lparr>map_iid = i, build_id = 1, exact_offset = 0, start_offset = 0, map_start = 0,
                      map_end = 0x7fffffffffffffff, load_bias = 0, path_string_ids = []\<rparr>],
                [\<lparr>istr_iid = 1, istr_str = ''unknown''\<rparr>]))
      else (c, [], []))"

record interned =
  in_pid :: i32
  in_user_addresses :: "u64 list"
  in_kernel_addresses :: "u64 list"
  in_user_symbols :: "string option list"
  in_kernel_symbols :: "string option list"

text \<open>The announcements and the two loops; then the call stack.\<close>

definition intern_stack ::
  "interned \<Rightarrow> interned_cache \<Rightarrow> interned_cache \<times> pushed \<times> mapping_rec list \<times> interned_string list" where
  "intern_stack s c0 =
     (let (c1, names0) = announce_unknown c0;
          (c2, new_mappings, new_build_ids) = announce_mapping c1;
          st1 = intern_frames (in_pid s) (rev (zip (in_user_symbols s) (in_user_addresses s))) (c2, [], names0, []);
          (c3, pushed) = intern_frames (- 1) (zip (in_kernel_symbols s) (in_kernel_addresses s)) st1
      in (c3, pushed, new_mappings, new_build_ids))"

definition interned_stack_data ::
  "(u64 list \<Rightarrow> u64) \<Rightarrow> interned \<Rightarrow> interned_cache \<Rightarrow> u64 \<times> interned_data option \<times> interned_cache" where
  "interned_stack_data hash s c0 =
     (let (c3, (all_frame_ids, new_names, new_frames), new_mappings, new_build_ids) = intern_stack s c0;
          new_callstack = (cached_callstack hash c3 all_frame_ids = None);
          (callstack_id, c4) = reserve_callstack hash all_frame_ids c3
      in if new_callstack \<or> new_names \<noteq> [] \<or> new_frames \<noteq> [] \<or> new_mappings \<noteq> [] then
           (let (was_first, c5) = take_is_first_interned_data c4
            in (callstack_id,
                Some \<lparr>function_names = new_names, frames = new_frames,
                      callstacks = [\<lparr>cs_iid = callstack_id, frame_ids = all_frame_ids\<rparr>],
                      mappings = new_mappings, build_ids = new_build_ids, continuation = \<not> was_first\<rparr>, c5))
         else (callstack_id, None, c4))"

section \<open>Symbolising\<close>

record process_config =
  debug_syms :: bool
  perf_map :: bool
  map_files :: bool

definition default_process_config :: process_config where
  "default_process_config = \<lparr>debug_syms = True, perf_map = False, map_files = False\<rparr>"

datatype symbol_source = ProcessSource u32 bool bool bool | KernelSource

record symbolizer =
  sy_cache :: interned_cache
  sy_cfg :: process_config

definition symbolizer_new :: "process_config \<Rightarrow> symbolizer" where
  "symbolizer_new cfg = \<lparr>sy_cache = interned_cache_new, sy_cfg = cfg\<rparr>"

definition symbolize ::
  "(symbol_source \<Rightarrow> u64 list \<Rightarrow> 'e + string option list) \<Rightarrow> process_config \<Rightarrow> i32 \<Rightarrow> u64 list \<Rightarrow> u64 list
   \<Rightarrow> 'e symbolizer_error + interned" where
  "symbolize blaze cfg pid user kern =
     (if user = [] \<and> kern = [] then Inl EmptySymbols
      else case (if user \<noteq> []
                 then blaze (ProcessSource (ucast pid) (debug_syms cfg) (perf_map cfg) (map_files cfg)) user
                 else Inr []) of
             Inl e \<Rightarrow> Inl (Blazesym e)
           | Inr us \<Rightarrow>
               (case (if kern \<noteq> [] then blaze KernelSource kern else Inr []) of
                  Inl e \<Rightarrow> Inl (Blazesym e)
                | Inr ks \<Rightarrow>
                    if us = [] \<and> ks = [] then Inl EmptySymbols
                    else Inr \<lparr>in_pid = pid, in_user_addresses = user, in_kernel_addresses = kern,
                              in_user_symbols = us, in_kernel_symbols = ks\<rparr>))"

section \<open>Reading the announcements back\<close>

text \<open>
  The reader's view of the announced data: the tables of frames and of call stacks, a later
  announcement of an id replacing an earlier one, and the addresses a call stack id stands
  for.
\<close>

definition all_frames :: "interned_data list \<Rightarrow> frame list" where
  "all_frames E = concat (map frames E)"

definition all_stacks :: "interned_data list \<Rightarrow> callstack list" where
  "all_stacks E = concat (map callstacks E)"

definition all_names :: "interned_data list \<Rightarrow> u64 set" where
  "all_names E = (\<Union>d \<in> set E. istr_iid ` set (function_names d))"

definition all_mappings :: "interned_data list \<Rightarrow> u64 set" where
  "all_mappings E = (\<Union>d \<in> set E. map_iid ` set (mappings d))"

definition resolve :: "interned_data list \<Rightarrow> u64 \<Rightarrow> u64 list option" where
  "resolve E i =
     (case map_of (rev (map (\<lambda>s. (cs_iid s, frame_ids s)) (all_stacks E))) i of
        None \<Rightarrow> None
      | Some ids \<Rightarrow> those (map (map_of (rev (map (\<lambda>f. (frm_iid f, rel_pc f)) (all_frames E)))) ids))"

text \<open>The addresses of a stack in the order of the trace: user frames outermost first, then kernel frames.\<close>

definition stack_addresses :: "interned \<Rightarrow> u64 list" where
  "stack_addresses s =
     map snd (rev (zip (in_user_symbols s) (in_user_addresses s)) @ zip (in_kernel_symbols s) (in_kernel_addresses s))"

text \<open>Interning stack after stack: the ids, the announcements, the lists of frame ids that were hashed.\<close>

fun intern_all :: "(u64 list \<Rightarrow> u64) \<Rightarrow> interned list \<Rightarrow> interned_cache \<Rightarrow> u64 list \<times> interned_data list \<times> interned_cache" where
  "intern_all hash [] c = ([], [], c)"
| "intern_all hash (s # ss) c =
     (let (i, d, c1) = interned_stack_data hash s c; (is, ds, c2) = intern_all hash ss c1
      in (i # is, (case d of None \<Rightarrow> [] | Some x \<Rightarrow> [x]) @ ds, c2))"

fun hashed_lists :: "(u64 list \<Rightarrow> u64) \<Rightarrow> interned list \<Rightarrow> interned_cache \<Rightarrow> u64 list set" where
  "hashed_lists hash [] c = {}"
| "hashed_lists hash (s # ss) c =
     insert (fst (fst (snd (intern_stack s c)))) (hashed_lists hash ss (snd (snd (interned_stack_data hash s c))))"

section \<open>Frames\<close>

text \<open>Frames \<open>F\<close> and function ids \<open>N\<close> have been announced; \<open>k\<close> more frames can be numbered.\<close>

definition frames_inv :: "nat \<Rightarrow> interned_cache \<Rightarrow> frame list \<Rightarrow> u64 set \<Rightarrow> bool" where
  "frames_inv k c F N \<longleftrightarrow>
     distinct (map frm_iid F) \<and> unat (next_frame_sequence c) + k < 2 ^ 64 \<and>
     (\<forall>f \<in> set F. unat (frm_iid f) < unat (next_frame_sequence c) \<and> function_name_id f \<in> N \<and>
        mapping_id f = FAKE_MAPPING_ID) \<and>
     (\<forall>p a i. pid_frame_to_sequence c (p, a) = Some i \<longrightarrow> (\<exists>f \<in> set F. frm_iid f = i \<and> rel_pc f = a)) \<and>
     (\<exists>i \<in> N. unknown_function_id c = Some i)"

definition same_stacks :: "interned_cache \<Rightarrow> interned_cache \<Rightarrow> bool" where
  "same_stacks c c' \<longleftrightarrow> next_callstack_sequence c' = next_callstack_sequence c \<and>
     callstack_hash_to_sequence c' = callstack_hash_to_sequence c \<and>
     is_first_interned_data c' = is_first_interned_data c \<and> fake_mapping_id c' = fake_mapping_id c"

lemma same_stacks_refl [simp]: "same_stacks c c"
  and same_stacks_trans: "same_stacks c c' \<Longrightarrow> same_stacks c' c'' \<Longrightarrow> same_stacks c c''"
  by (simp_all add: same_stacks_def)

definition is_frame :: "frame list \<Rightarrow> u64 \<Rightarrow> u64 \<Rightarrow> bool" where
  "is_frame F i a \<longleftrightarrow> (\<exists>f \<in> set F. frm_iid f = i \<and> rel_pc f = a)"

lemma is_frame_append: "is_frame F i a \<Longrightarrow> is_frame (F @ F') i a"
  by (auto simp: is_frame_def)

lemma frames_inv_known: "frames_inv k c F N \<Longrightarrow> cached_frame c p a = Some i \<Longrightarrow> is_frame F i a"
  by (auto simp: frames_inv_def cached_frame_def is_frame_def)

text \<open>A new frame: numbered, with a function id that is announced already or along with it.\<close>

lemma frames_inv_new:
  assumes I: "frames_inv (Suc k) c F N" and fn: "fn \<in> N'" and N: "N \<subseteq> N'"
    and c': "next_frame_sequence c' = next_frame_sequence c + 1"
      "pid_frame_to_sequence c' = (pid_frame_to_sequence c)((p, a) \<mapsto> next_frame_sequence c)"
      "unknown_function_id c' = unknown_function_id c"
  shows "frames_inv k c' (F @ [\<lparr>frm_iid = next_frame_sequence c, function_name_id = fn, mapping_id = FAKE_MAPPING_ID, rel_pc = a\<rparr>]) N'"
proof -
  let ?n = "next_frame_sequence c"
  have n: "unat (?n + 1) = unat ?n + 1"
    using I unat_add_small [of ?n 1] by (simp add: frames_inv_def)
  have "?n \<notin> frm_iid ` set F" using I by (auto simp: frames_inv_def)
  then show ?thesis
    using I fn N unfolding frames_inv_def c' n by (auto simp: less_Suc_eq)
qed

lemma intern_frame_step:
  assumes I: "frames_inv (Suc k) c F N"
  shows "\<exists>c' i ns fs. intern_frame pid (sm, a) (c, ids, names, frms) = (c', ids @ [i], names @ ns, frms @ fs) \<and>
    frames_inv k c' (F @ fs) (N \<union> istr_iid ` set ns) \<and> is_frame (F @ fs) i a \<and> same_stacks c c'"
proof (cases "cached_frame c pid a")
  case (Some i)
  have "frames_inv k c F N" using I by (simp add: frames_inv_def)
  moreover have "intern_frame pid (sm, a) (c, ids, names, frms) = (c, ids @ [i], names @ [], frms @ [])"
    using Some by (simp add: intern_frame_def reserve_frame_def cached_frame_def)
  moreover have "is_frame (F @ []) i a" using frames_inv_known [OF I Some] by simp
  ultimately show ?thesis by fastforce
next
  case None
  let ?n = "next_frame_sequence c"
  let ?c1 = "c\<lparr>next_frame_sequence := ?n + 1, pid_frame_to_sequence := (pid_frame_to_sequence c)((pid, a) \<mapsto> ?n)\<rparr>"
  have r: "reserve_frame pid a c = (?n, ?c1)"
    using None by (simp add: reserve_frame_def cached_frame_def Let_def)
  show ?thesis
  proof (cases sm)
    case (Some nm)
    let ?fn = "next_function_id c" and ?c2 = "?c1\<lparr>next_function_id := next_function_id c + 1\<rparr>"
    let ?f = "\<lparr>frm_iid = ?n, function_name_id = ?fn, mapping_id = FAKE_MAPPING_ID, rel_pc = a\<rparr>"
    have "intern_frame pid (sm, a) (c, ids, names, frms) =
        (?c2, ids @ [?n], names @ [\<lparr>istr_iid = ?fn, istr_str = nm\<rparr>], frms @ [?f])"
      using None by (simp add: intern_frame_def r Some reserve_function_id_def Let_def)
    moreover have "frames_inv k ?c2 (F @ [?f]) (N \<union> istr_iid ` set [\<lparr>istr_iid = ?fn, istr_str = nm\<rparr>])"
      by (rule frames_inv_new [OF I]) auto
    moreover have "is_frame (F @ [?f]) ?n a" "same_stacks c ?c2" by (auto simp: is_frame_def same_stacks_def)
    ultimately show ?thesis by blast
  next
    case no_sym: None
    obtain u where u: "u \<in> N" "unknown_function_id c = Some u" using I by (auto simp: frames_inv_def)
    let ?f = "\<lparr>frm_iid = ?n, function_name_id = u, mapping_id = FAKE_MAPPING_ID, rel_pc = a\<rparr>"
    have "intern_frame pid (sm, a) (c, ids, names, frms) = (?c1, ids @ [?n], names @ [], frms @ [?f])"
      using None u by (simp add: intern_frame_def r no_sym get_or_create_unknown_function_id_def Let_def)
    moreover have "frames_inv k ?c1 (F @ [?f]) (N \<union> istr_iid ` set ([] :: interned_string list))"
      by (rule frames_inv_new [OF I]) (use u in auto)
    moreover have "is_frame (F @ [?f]) ?n a" "same_stacks c ?c1" by (auto simp: is_frame_def same_stacks_def)
    ultimately show ?thesis by blast
  qed
qed
lemma intern_frames_loop:
  assumes "frames_inv (k + length sas) c F N"
  shows "\<exists>c' is ns fs. intern_frames pid sas (c, ids, names, frms) = (c', ids @ is, names @ ns, frms @ fs) \<and>
    frames_inv k c' (F @ fs) (N \<union> istr_iid ` set ns) \<and> list_all2 (is_frame (F @ fs)) is (map snd sas) \<and> same_stacks c c'"
  using assms
proof (induction sas arbitrary: c F N ids names frms)
  case Nil
  then have "intern_frames pid [] (c, ids, names, frms) = (c, ids @ [], names @ [], frms @ [])"
    by (simp add: intern_frames_def)
  with Nil show ?case by fastforce
next
  case (Cons sa sas)
  obtain sm a where sa: "sa = (sm, a)" by (cases sa)
  have "frames_inv (Suc (k + length sas)) c F N" using Cons.prems by simp
  then obtain c1 i ns fs where 1: "intern_frame pid sa (c, ids, names, frms) = (c1, ids @ [i], names @ ns, frms @ fs)"
      "frames_inv (k + length sas) c1 (F @ fs) (N \<union> istr_iid ` set ns)" "is_frame (F @ fs) i a" "same_stacks c c1"
    using intern_frame_step [where pid = pid and sm = sm and a = a and ids = ids and names = names and frms = frms]
    unfolding sa by blast
  from Cons.IH [OF 1(2), of "ids @ [i]" "names @ ns" "frms @ fs"] obtain c2 "is" ns' fs' where
    2: "intern_frames pid sas (c1, ids @ [i], names @ ns, frms @ fs) = (c2, (ids @ [i]) @ is, (names @ ns) @ ns', (frms @ fs) @ fs')"
      "frames_inv k c2 ((F @ fs) @ fs') (N \<union> istr_iid ` set ns \<union> istr_iid ` set ns')"
      "list_all2 (is_frame ((F @ fs) @ fs')) is (map snd sas)" "same_stacks c1 c2"
    by blast
  have "intern_frames pid (sa # sas) (c, ids, names, frms) = (c2, ids @ (i # is), names @ (ns @ ns'), frms @ (fs @ fs'))"
    using 1(1) 2(1) by (simp add: intern_frames_def)
  moreover have "frames_inv k c2 (F @ (fs @ fs')) (N \<union> istr_iid ` set (ns @ ns'))"
    using 2(2) by (simp add: image_Un Un_assoc)
  moreover have "list_all2 (is_frame (F @ (fs @ fs'))) (i # is) (map snd (sa # sas))"
    using 2(3) is_frame_append [OF 1(3), of fs'] by (simp add: sa)
  ultimately show ?case using same_stacks_trans [OF 1(4) 2(4)] by blast
qed

section \<open>Stacks\<close>

definition stacks_inv :: "(u64 list \<Rightarrow> u64) \<Rightarrow> nat \<Rightarrow> interned_cache \<Rightarrow> callstack list \<Rightarrow> bool" where
  "stacks_inv hash k c S \<longleftrightarrow>
     unat (next_callstack_sequence c) + k < 2 ^ 64 \<and>
     (\<forall>h i. callstack_hash_to_sequence c h = Some i \<longrightarrow> unat i < unat (next_callstack_sequence c) \<and>
        (\<exists>s \<in> set S. cs_iid s = i \<and> hash (frame_ids s) = h)) \<and>
     (\<forall>s \<in> set S. callstack_hash_to_sequence c (hash (frame_ids s)) = Some (cs_iid s)) \<and>
     (\<forall>h h' i. callstack_hash_to_sequence c h = Some i \<longrightarrow> callstack_hash_to_sequence c h' = Some i \<longrightarrow> h = h')"

lemma stacks_inv_cong: "stacks_inv hash k c S \<Longrightarrow> same_stacks c c' \<Longrightarrow> stacks_inv hash k c' S"
  by (simp add: stacks_inv_def same_stacks_def)

lemma stacks_inv_mono: "stacks_inv hash k c S \<Longrightarrow> j \<le> k \<Longrightarrow> stacks_inv hash j c S"
  by (auto simp: stacks_inv_def)

lemma stacks_inv_reserve:
  assumes I: "stacks_inv hash (Suc k) c S" and r: "reserve_callstack hash ids c = (i, c')"
  shows "stacks_inv hash k c' (S @ [\<lparr>cs_iid = i, frame_ids = ids\<rparr>])"
proof (cases "callstack_hash_to_sequence c (hash ids)")
  case (Some j)
  then have "i = j" "c' = c" using r by (simp_all add: reserve_callstack_def)
  with I Some show ?thesis by (fastforce simp: stacks_inv_def)
next
  case None
  let ?n = "next_callstack_sequence c"
  have c': "i = ?n" "next_callstack_sequence c' = ?n + 1"
    "callstack_hash_to_sequence c' = (callstack_hash_to_sequence c)(hash ids \<mapsto> ?n)"
    using r None by (auto simp: reserve_callstack_def Let_def)
  have n: "unat (?n + 1) = unat ?n + 1"
    using I unat_add_small [of ?n 1] by (simp add: stacks_inv_def)
  have old: "unat j < unat ?n" "\<exists>s \<in> set S. cs_iid s = j \<and> hash (frame_ids s) = h"
    if "callstack_hash_to_sequence c h = Some j" for h j
    using I that unfolding stacks_inv_def by blast+
  have mem: "callstack_hash_to_sequence c (hash (frame_ids s)) = Some (cs_iid s)" if "s \<in> set S" for s
    using I that unfolding stacks_inv_def by blast
  have inj: "h = h'" if "callstack_hash_to_sequence c h = Some j" "callstack_hash_to_sequence c h' = Some j" for h h' j
    using I that unfolding stacks_inv_def by blast
  have fresh: "callstack_hash_to_sequence c h \<noteq> Some ?n" for h using old(1) [of h ?n] by auto
  have "unat (?n + 1) + k < 2 ^ 64" using I n by (simp add: stacks_inv_def)
  moreover have "unat j < unat (?n + 1) \<and> (\<exists>s \<in> set (S @ [\<lparr>cs_iid = ?n, frame_ids = ids\<rparr>]). cs_iid s = j \<and> hash (frame_ids s) = h)"
    if "((callstack_hash_to_sequence c)(hash ids \<mapsto> ?n)) h = Some j" for h j
    using that old [of h j] n by (cases "h = hash ids") auto
  moreover have "((callstack_hash_to_sequence c)(hash ids \<mapsto> ?n)) (hash (frame_ids s)) = Some (cs_iid s)"
    if "s \<in> set (S @ [\<lparr>cs_iid = ?n, frame_ids = ids\<rparr>])" for s
    using that mem [of s] None by auto
  moreover have "h = h'" if "((callstack_hash_to_sequence c)(hash ids \<mapsto> ?n)) h = Some j"
      "((callstack_hash_to_sequence c)(hash ids \<mapsto> ?n)) h' = Some j" for h h' j
    using that fresh [of h] fresh [of h'] inj [of h j h'] by (auto split: if_splits)
  ultimately show ?thesis unfolding stacks_inv_def c' by blast
qed

text \<open>Under a hash without collisions the announcements of one id agree.\<close>

lemma stacks_inv_unique:
  assumes "stacks_inv hash k c S" "inj_on hash (frame_ids ` set S)" "s \<in> set S" "s' \<in> set S" "cs_iid s = cs_iid s'"
  shows "frame_ids s = frame_ids s'"
proof -
  have "callstack_hash_to_sequence c (hash (frame_ids s)) = Some (cs_iid s)"
    "callstack_hash_to_sequence c (hash (frame_ids s')) = Some (cs_iid s)"
    using assms(1,3-5) unfolding stacks_inv_def by auto
  then have "hash (frame_ids s) = hash (frame_ids s')" using assms(1) unfolding stacks_inv_def by blast
  then show ?thesis using assms(2-4) by (auto dest: inj_onD)
qed
section \<open>The whole cache\<close>

definition intern_inv :: "(u64 list \<Rightarrow> u64) \<Rightarrow> nat \<Rightarrow> interned_cache \<Rightarrow> interned_data list \<Rightarrow> bool" where
  "intern_inv hash k c E \<longleftrightarrow> stacks_inv hash k c (all_stacks E) \<and>
     (c = interned_cache_new \<and> E = [] \<and> k < 2 ^ 64 \<or>
      frames_inv k c (all_frames E) (all_names E) \<and> fake_mapping_id c \<noteq> None \<and> FAKE_MAPPING_ID \<in> all_mappings E)"

lemma announcements_simps [simp]:
  "all_frames [] = []" "all_stacks [] = []" "all_names [] = {}" "all_mappings [] = {}"
  "all_frames (E @ E') = all_frames E @ all_frames E'" "all_stacks (E @ E') = all_stacks E @ all_stacks E'"
  "all_names (E @ E') = all_names E \<union> all_names E'" "all_mappings (E @ E') = all_mappings E \<union> all_mappings E'"
  "all_frames [d] = frames d" "all_stacks [d] = callstacks d"
  "all_names [d] = istr_iid ` set (function_names d)" "all_mappings [d] = map_iid ` set (mappings d)"
  by (simp_all add: all_frames_def all_stacks_def all_names_def all_mappings_def)

lemma intern_inv_new: "k < 2 ^ 64 \<Longrightarrow> intern_inv hash k interned_cache_new []"
  by (simp add: intern_inv_def stacks_inv_def interned_cache_new_def)

lemma announce_inv:
  assumes "intern_inv hash k c E" "announce_unknown c = (c1, ns)" "announce_mapping c1 = (c2, ms, bs)"
  shows "frames_inv k c2 (all_frames E) (all_names E \<union> istr_iid ` set ns) \<and> fake_mapping_id c2 \<noteq> None \<and>
    FAKE_MAPPING_ID \<in> all_mappings E \<union> map_iid ` set ms \<and> stacks_inv hash k c2 (all_stacks E) \<and>
    (ns = [] \<or> ms \<noteq> []) \<and> is_first_interned_data c2 = is_first_interned_data c"
proof (cases "c = interned_cache_new \<and> E = [] \<and> k < 2 ^ 64")
  case True
  then show ?thesis
    using assms by (auto simp: announce_unknown_def announce_mapping_def get_or_create_unknown_function_id_def
        get_or_create_fake_mapping_id_def interned_cache_new_def Let_def frames_inv_def stacks_inv_def intern_inv_def)
next
  case False
  then have I: "frames_inv k c (all_frames E) (all_names E)" "fake_mapping_id c \<noteq> None" "FAKE_MAPPING_ID \<in> all_mappings E"
    "stacks_inv hash k c (all_stacks E)"
    using assms(1) by (auto simp: intern_inv_def)
  then have "unknown_function_id c \<noteq> None" by (auto simp: frames_inv_def)
  with I assms(2,3) show ?thesis by (auto simp: announce_unknown_def announce_mapping_def)
qed

definition stack_size :: "interned \<Rightarrow> nat" where
  "stack_size s = Suc (length (zip (in_user_symbols s) (in_user_addresses s)) +
                       length (zip (in_kernel_symbols s) (in_kernel_addresses s)))"

lemma intern_stack_step:
  assumes I: "intern_inv hash (k + stack_size s) c E"
  shows "\<exists>c' ids ns fs ms bs. intern_stack s c = (c', (ids, ns, fs), ms, bs) \<and>
    frames_inv (Suc k) c' (all_frames E @ fs) (all_names E \<union> istr_iid ` set ns) \<and> fake_mapping_id c' \<noteq> None \<and>
    FAKE_MAPPING_ID \<in> all_mappings E \<union> map_iid ` set ms \<and> stacks_inv hash (Suc k) c' (all_stacks E) \<and>
    list_all2 (is_frame (all_frames E @ fs)) ids (stack_addresses s) \<and>
    is_first_interned_data c' = is_first_interned_data c"
proof -
  let ?us = "rev (zip (in_user_symbols s) (in_user_addresses s))"
  let ?ks = "zip (in_kernel_symbols s) (in_kernel_addresses s)"
  obtain c1 ns0 where a: "announce_unknown c = (c1, ns0)" by fastforce
  obtain c2 ms bs where b: "announce_mapping c1 = (c2, ms, bs)" by (metis prod_cases3)
  note A = announce_inv [OF I a b]
  have "k + stack_size s = (Suc k + length ?ks) + length ?us" by (simp add: stack_size_def)
  with A have "frames_inv ((Suc k + length ?ks) + length ?us) c2 (all_frames E) (all_names E \<union> istr_iid ` set ns0)" by metis
  from intern_frames_loop [OF this, of "in_pid s" "[]" ns0 "[]"] obtain c3 is1 ns1 fs1 where
    u: "intern_frames (in_pid s) ?us (c2, [], ns0, []) = (c3, is1, ns0 @ ns1, fs1)"
      "frames_inv (Suc k + length ?ks) c3 (all_frames E @ fs1) (all_names E \<union> istr_iid ` set ns0 \<union> istr_iid ` set ns1)"
      "list_all2 (is_frame (all_frames E @ fs1)) is1 (map snd ?us)" "same_stacks c2 c3"
    by auto
  from intern_frames_loop [OF u(2), of "- 1" is1 "ns0 @ ns1" fs1] obtain c4 is2 ns2 fs2 where
    v: "intern_frames (- 1) ?ks (c3, is1, ns0 @ ns1, fs1) = (c4, is1 @ is2, (ns0 @ ns1) @ ns2, fs1 @ fs2)"
      "frames_inv (Suc k) c4 ((all_frames E @ fs1) @ fs2)
         (all_names E \<union> istr_iid ` set ns0 \<union> istr_iid ` set ns1 \<union> istr_iid ` set ns2)"
      "list_all2 (is_frame ((all_frames E @ fs1) @ fs2)) is2 (map snd ?ks)" "same_stacks c3 c4"
    by blast
  have run: "intern_stack s c = (c4, (is1 @ is2, ns0 @ ns1 @ ns2, fs1 @ fs2), ms, bs)"
    using u(1) v(1) by (simp add: intern_stack_def a b)
  have st: "same_stacks c2 c4" using u(4) v(4) same_stacks_trans by blast
  have "list_all2 (is_frame (all_frames E @ fs1 @ fs2)) is1 (map snd ?us)"
    using u(3) is_frame_append [of "all_frames E @ fs1"] by (auto elim!: list_all2_mono)
  then have "list_all2 (is_frame (all_frames E @ fs1 @ fs2)) (is1 @ is2) (stack_addresses s)"
    using v(3) by (simp add: stack_addresses_def list_all2_appendI)
  moreover have "stacks_inv hash (Suc k) c4 (all_stacks E)"
    by (rule stacks_inv_cong [OF stacks_inv_mono st], use A in blast) (simp add: stack_size_def)
  moreover have "frames_inv (Suc k) c4 (all_frames E @ fs1 @ fs2) (all_names E \<union> istr_iid ` set (ns0 @ ns1 @ ns2))"
    using v(2) by (simp add: image_Un Un_assoc)
  ultimately show ?thesis using run A st by (simp add: same_stacks_def)
qed
definition means :: "interned_data list \<Rightarrow> u64 \<Rightarrow> u64 list \<Rightarrow> bool" where
  "means E i addrs \<longleftrightarrow>
     (\<exists>st \<in> set (all_stacks E). cs_iid st = i \<and> list_all2 (is_frame (all_frames E)) (frame_ids st) addrs)"

lemma means_append: "means E i addrs \<Longrightarrow> means (E @ E') i addrs"
  using is_frame_append [of "all_frames E"] unfolding means_def
  by (fastforce elim!: list_all2_mono)

abbreviation ids_of :: "interned \<Rightarrow> interned_cache \<Rightarrow> u64 list" where
  "ids_of s c \<equiv> fst (fst (snd (intern_stack s c)))"

abbreviation announced :: "interned_data option \<Rightarrow> interned_data list" where
  "announced d \<equiv> (case d of None \<Rightarrow> [] | Some x \<Rightarrow> [x])"

lemma interned_stack_data_step:
  assumes I: "intern_inv hash (k + stack_size s) c E"
    and r: "interned_stack_data hash s c = (i, d, c')"
    and inj: "inj_on hash (insert (ids_of s c) (frame_ids ` set (all_stacks E)))"
  shows "intern_inv hash k c' (E @ announced d) \<and> means (E @ announced d) i (stack_addresses s) \<and>
    frame_ids ` set (all_stacks (E @ announced d)) \<subseteq> insert (ids_of s c) (frame_ids ` set (all_stacks E)) \<and>
    is_first_interned_data c' = (is_first_interned_data c \<and> d = None) \<and>
    (\<forall>x. d = Some x \<longrightarrow> continuation x = (\<not> is_first_interned_data c))"
proof -
  obtain c3 ids ns fs ms bs where st: "intern_stack s c = (c3, (ids, ns, fs), ms, bs)"
    and F: "frames_inv (Suc k) c3 (all_frames E @ fs) (all_names E \<union> istr_iid ` set ns)"
    and M: "fake_mapping_id c3 \<noteq> None" "FAKE_MAPPING_ID \<in> all_mappings E \<union> map_iid ` set ms"
    and S: "stacks_inv hash (Suc k) c3 (all_stacks E)"
    and L: "list_all2 (is_frame (all_frames E @ fs)) ids (stack_addresses s)"
    and first: "is_first_interned_data c3 = is_first_interned_data c"
    using intern_stack_step [OF I] by blast
  obtain j c4 where rc: "reserve_callstack hash ids c3 = (j, c4)" by fastforce
  have F4: "frames_inv k c4 (all_frames E @ fs) (all_names E \<union> istr_iid ` set ns)"
    and M4: "fake_mapping_id c4 = fake_mapping_id c3" "is_first_interned_data c4 = is_first_interned_data c"
    using F rc first by (auto simp: frames_inv_def reserve_callstack_def Let_def split: option.splits)
  note S4 = stacks_inv_reserve [OF S rc]
  let ?new = "cached_callstack hash c3 ids = None \<or> ns \<noteq> [] \<or> fs \<noteq> [] \<or> ms \<noteq> []"
  let ?st = "\<lparr>cs_iid = j, frame_ids = ids\<rparr>"
  show ?thesis
  proof (cases ?new)
    case True
    let ?d = "\<lparr>function_names = ns, frames = fs, callstacks = [?st], mappings = ms, build_ids = bs,
      continuation = \<not> is_first_interned_data c4\<rparr>"
    have d: "i = j" "d = Some ?d" "c' = c4\<lparr>is_first_interned_data := False\<rparr>"
      using r True by (auto simp: interned_stack_data_def st rc take_is_first_interned_data_def)
    have "stacks_inv hash k c' (all_stacks E @ [?st])" "frames_inv k c' (all_frames E @ fs) (all_names E \<union> istr_iid ` set ns)"
      using S4 F4 unfolding d(3) by (simp_all add: stacks_inv_def frames_inv_def)
    then have "intern_inv hash k c' (E @ [?d])" using M M4 unfolding intern_inv_def d(3) by simp
    moreover have "means (E @ [?d]) j (stack_addresses s)" using L unfolding means_def by simp
    ultimately show ?thesis
      using d M4 by (simp add: st)
  next
    case False
    then have e: "ns = []" "fs = []" "ms = []" "d = None" "i = j" "c' = c4"
      using r by (auto simp: interned_stack_data_def st rc)
    from False have cs: "callstack_hash_to_sequence c3 (hash ids) = Some j" "c4 = c3"
      using rc by (auto simp: cached_callstack_def reserve_callstack_def)
    then obtain s' where s': "s' \<in> set (all_stacks E)" "cs_iid s' = j" "hash (frame_ids s') = hash ids"
      using S unfolding stacks_inv_def by blast
    then have "frame_ids s' = ids" using inj_onD [OF inj, of "frame_ids s'" ids] by (simp add: st)
    with s' L e have "means E j (stack_addresses s)" by (auto simp: means_def)
    moreover have "intern_inv hash k c4 E"
      using F4 M M4 e stacks_inv_mono [OF S, of k] cs(2) by (simp add: intern_inv_def)
    ultimately show ?thesis
      using e M4 by auto
  qed
qed
lemma resolve_means:
  assumes S: "stacks_inv hash k c (all_stacks E)" and F: "frames_inv k c (all_frames E) (all_names E)"
    and inj: "inj_on hash (frame_ids ` set (all_stacks E))" and m: "means E i addrs"
  shows "resolve E i = Some addrs"
proof -
  obtain st where st: "st \<in> set (all_stacks E)" "cs_iid st = i"
    "list_all2 (is_frame (all_frames E)) (frame_ids st) addrs"
    using m by (auto simp: means_def)
  have stack: "map_of (rev (map (\<lambda>s. (cs_iid s, frame_ids s)) (all_stacks E))) (cs_iid st) = Some (frame_ids st)"
    by (rule map_of_rev_unique [OF st(1)]) (rule stacks_inv_unique [OF S inj _ st(1)])
  have "map_of (rev (map (\<lambda>f. (frm_iid f, rel_pc f)) (all_frames E))) j = Some a"
    if "is_frame (all_frames E) j a" for j a
  proof -
    from that obtain f where f: "f \<in> set (all_frames E)" "frm_iid f = j" "rel_pc f = a" by (auto simp: is_frame_def)
    have "inj_on frm_iid (set (all_frames E))" using F by (simp add: frames_inv_def distinct_map)
    then have "map_of (rev (map (\<lambda>f. (frm_iid f, rel_pc f)) (all_frames E))) (frm_iid f) = Some (rel_pc f)"
      by (intro map_of_rev_unique [OF f(1)]) (metis f(1) inj_onD)
    with f show ?thesis by simp
  qed
  note frame = this
  have "list_all2 (\<lambda>j a. map_of (rev (map (\<lambda>f. (frm_iid f, rel_pc f)) (all_frames E))) j = Some a) (frame_ids st) addrs"
    using st(3) by (rule list_all2_mono) (rule frame)
  note frames = those_map_Some [OF this]
  show ?thesis
    unfolding resolve_def st(2) [symmetric] stack by (simp only: option.case frames)
qed

lemma intern_all_inv:
  assumes "intern_inv hash (k + sum_list (map stack_size ss)) c E" "intern_all hash ss c = (is, D, c')"
    and "inj_on hash (hashed_lists hash ss c \<union> frame_ids ` set (all_stacks E))"
    and "is_first_interned_data c = (E = [])" "map continuation E = map (\<lambda>j. 0 < j) [0..<length E]"
  shows "intern_inv hash k c' (E @ D) \<and> list_all2 (means (E @ D)) is (map stack_addresses ss) \<and>
    frame_ids ` set (all_stacks (E @ D)) \<subseteq> hashed_lists hash ss c \<union> frame_ids ` set (all_stacks E) \<and>
    map continuation (E @ D) = map (\<lambda>j. 0 < j) [0..<length (E @ D)]"
  using assms
proof (induction ss arbitrary: c E "is" D)
  case (Cons s ss)
  obtain i d c1 where s: "interned_stack_data hash s c = (i, d, c1)" by (metis prod_cases3)
  obtain is' D' where rest: "intern_all hash ss c1 = (is', D', c')" "is = i # is'" "D = announced d @ D'"
    using Cons.prems(2) s by (auto split: prod.splits)
  let ?E = "E @ announced d"
  have H: "hashed_lists hash (s # ss) c = insert (ids_of s c) (hashed_lists hash ss c1)" using s by simp
  have I: "intern_inv hash ((k + sum_list (map stack_size ss)) + stack_size s) c E"
    using Cons.prems(1) by (simp add: add_ac)
  have j: "inj_on hash (insert (ids_of s c) (frame_ids ` set (all_stacks E)))"
    by (rule inj_on_subset [OF Cons.prems(3)]) (use H in auto)
  note step = interned_stack_data_step [OF I s j]
  then have sub: "frame_ids ` set (all_stacks ?E) \<subseteq> insert (ids_of s c) (frame_ids ` set (all_stacks E))" by blast
  have "inj_on hash (hashed_lists hash ss c1 \<union> frame_ids ` set (all_stacks ?E))"
    by (rule inj_on_subset [OF Cons.prems(3)]) (use H sub in auto)
  moreover have "is_first_interned_data c1 = (?E = [])" using step Cons.prems(4) by (auto split: option.splits)
  moreover have "map continuation ?E = map (\<lambda>j. 0 < j) [0..<length ?E]"
    using step Cons.prems(4,5) by (cases d) auto
  ultimately have IH: "intern_inv hash k c' (?E @ D') \<and> list_all2 (means (?E @ D')) is' (map stack_addresses ss) \<and>
      frame_ids ` set (all_stacks (?E @ D')) \<subseteq> hashed_lists hash ss c1 \<union> frame_ids ` set (all_stacks ?E) \<and>
      map continuation (?E @ D') = map (\<lambda>j. 0 < j) [0..<length (?E @ D')]"
    using step rest(1) by (intro Cons.IH) blast+
  moreover have "means (?E @ D') i (stack_addresses s)" using step means_append by blast
  moreover have "frame_ids ` set (all_stacks (?E @ D')) \<subseteq> hashed_lists hash (s # ss) c \<union> frame_ids ` set (all_stacks E)"
    unfolding H using IH sub by blast
  ultimately show ?case unfolding rest by simp
qed simp

lemma callstacks_resolve_lemma:
  assumes "intern_all hash ss interned_cache_new = (is, E, c)" and "sum_list (map stack_size ss) < 2 ^ 64"
    and "inj_on hash (hashed_lists hash ss interned_cache_new)"
  shows "map (resolve E) is = map (\<lambda>s. Some (stack_addresses s)) ss \<and>
    (\<forall>f \<in> set (all_frames E). function_name_id f \<in> all_names E \<and> mapping_id f \<in> all_mappings E) \<and>
    map continuation E = map (\<lambda>j. 0 < j) [0..<length E]"
proof -
  have "intern_inv hash (0 + sum_list (map stack_size ss)) interned_cache_new []"
    using assms(2) by (intro intern_inv_new) simp
  then have "intern_inv hash 0 c ([] @ E) \<and> list_all2 (means ([] @ E)) is (map stack_addresses ss) \<and>
    frame_ids ` set (all_stacks ([] @ E)) \<subseteq> hashed_lists hash ss interned_cache_new \<union> frame_ids ` set (all_stacks []) \<and>
    map continuation ([] @ E) = map (\<lambda>j. 0 < j) [0..<length ([] @ E)]"
  proof (rule intern_all_inv [OF _ assms(1)])
    show "inj_on hash (hashed_lists hash ss interned_cache_new \<union> frame_ids ` set (all_stacks []))"
      using assms(3) by simp
    show "is_first_interned_data interned_cache_new = ([] = ([] :: interned_data list))"
      by (simp add: interned_cache_new_def)
  qed simp
  then have A: "intern_inv hash 0 c E" "list_all2 (means E) is (map stack_addresses ss)"
    "frame_ids ` set (all_stacks E) \<subseteq> hashed_lists hash ss interned_cache_new"
    "map continuation E = map (\<lambda>j. 0 < j) [0..<length E]"
    unfolding append_Nil announcements_simps(2) list.set(1) image_empty Un_empty_right by blast+
  show ?thesis
  proof (cases "ss = []")
    case True
    then show ?thesis using assms(1) by simp
  next
    case False
    then have "E \<noteq> []" using A(2) by (cases ss) (auto simp: means_def list_all2_Cons2)
    then have F: "frames_inv 0 c (all_frames E) (all_names E)" "FAKE_MAPPING_ID \<in> all_mappings E"
      and S: "stacks_inv hash 0 c (all_stacks E)"
      using A(1) by (auto simp: intern_inv_def)
    have inj: "inj_on hash (frame_ids ` set (all_stacks E))" using assms(3) A(3) by (rule inj_on_subset)
    have "list_all2 (\<lambda>i a. resolve E i = Some a) is (map stack_addresses ss)"
      using A(2) by (rule list_all2_mono) (rule resolve_means [OF S F(1) inj])
    then have "map (resolve E) is = map Some (map stack_addresses ss)"
      by (rule list_all2_map_Some)
    moreover have "\<forall>f \<in> set (all_frames E). function_name_id f \<in> all_names E \<and> mapping_id f \<in> all_mappings E"
      using F by (auto simp: frames_inv_def)
    ultimately show ?thesis using A(4) by simp
  qed
qed

definition sample_hash :: "u64 list \<Rightarrow> u64" where
  "sample_hash l = foldr (\<lambda>x h. 31 * h + x + 1) l 7"

definition sample_stack :: "u64 list \<Rightarrow> u64 list \<Rightarrow> interned" where
  "sample_stack us ks = \<lparr>in_pid = 5, in_user_addresses = us, in_kernel_addresses = ks,
     in_user_symbols = map (\<lambda>_. Some ''f'') us, in_kernel_symbols = map (\<lambda>_. None) ks\<rparr>"

lemmas intern_eval = interned_stack_data_def intern_stack_def announce_unknown_def announce_mapping_def
  get_or_create_unknown_function_id_def get_or_create_fake_mapping_id_def intern_frames_def intern_frame_def
  cached_frame_def reserve_frame_def reserve_function_id_def cached_callstack_def reserve_callstack_def
  take_is_first_interned_data_def interned_cache_new_def sample_stack_def sample_hash_def FAKE_MAPPING_ID_def

lemma sample_run:
  "fst (intern_all sample_hash [sample_stack [16, 32] [48], sample_stack [32] [], sample_stack [16, 32] [48]]
     interned_cache_new) = [0, 1, 0]"
  "hashed_lists sample_hash [sample_stack [16, 32] [48], sample_stack [32] [], sample_stack [16, 32] [48]]
     interned_cache_new = {[0, 1, 2], [0]}"
  by (simp_all add: intern_eval Let_def insert_commute)


text \<open>
  Without that assumption the reader can be misled: call stacks are compared by their hash
  alone, so two stacks with equal hashes share an id and both are read as the later one.
\<close>

lemma hash_collision_confuses:
  "case intern_all (\<lambda>_. 0) [sample_stack [16] [], sample_stack [32] []] interned_cache_new of
     (is, E, c) \<Rightarrow> is = [0, 0] \<and> resolve E 0 = Some [32]"
  by (simp add: intern_eval Let_def resolve_def all_stacks_def all_frames_def)

text \<open>
  Symbolising fails exactly when there is nothing to symbolise or the symbolizer fails
  on a non-empty list; otherwise, if the symbolizer answers with one symbol per address, the
  interned stack stands for the user addresses outermost first followed by the kernel
  addresses.
\<close>

theorem symbolize_outcome:
  assumes "\<And>src as ss. blaze src as = Inr ss \<Longrightarrow> length ss = length as"
  shows "case symbolize blaze cfg pid user kern of
      Inr s \<Rightarrow> stack_addresses s = rev user @ kern \<and> stack_addresses s \<noteq> [] \<and> in_pid s = pid
    | Inl EmptySymbols \<Rightarrow> user = [] \<and> kern = []
    | Inl (Blazesym e) \<Rightarrow>
        user \<noteq> [] \<and> blaze (ProcessSource (ucast pid) (debug_syms cfg) (perf_map cfg) (map_files cfg)) user = Inl e \<or>
        kern \<noteq> [] \<and> blaze KernelSource kern = Inl e"
proof -
  have "map snd (rev (zip us as)) = rev as" "map snd (zip us as) = as" if "length us = length as"
    for us :: "string option list" and as :: "u64 list"
    using that by (simp_all add: rev_map [symmetric])
  with assms show ?thesis
    by (cases "user = []"; cases "kern = []")
       (auto simp: symbolize_def stack_addresses_def split: sum.splits dest!: assms)
qed

theorem symbolize_outcome_witness:
  "\<exists>s. symbolize (\<lambda>_ as. if as = [] then Inl ''empty'' else Inr (map (\<lambda>_. Some ''f'') as)) default_process_config 5 [16, 32] [48] = Inr s \<and>
     stack_addresses s = [32, 16, 48]"
proof -
  let ?b = "\<lambda>(_ :: symbol_source) (as :: u64 list). if as = [] then Inl ''empty'' else Inr (map (\<lambda>_. Some ''f'') as)"
  obtain s where s: "symbolize ?b default_process_config 5 [16, 32] [48] = Inr s"
    by (simp add: symbolize_def)
  have "length ss = length as" if "?b src as = Inr ss" for src as ss
    using that by (auto split: if_splits)
  from symbolize_outcome [where blaze = ?b and cfg = default_process_config and pid = 5 and user = "[16, 32]" and kern = "[48]", OF this] s show ?thesis by auto
qed
end
