(* ===== verification/Profiler.thy ===== *)
theory Profiler
  imports Bpf_Common Interned
begin

text \<open>
  \<^verbatim>\<open>bpf/src/profiler.rs\<close> and \<^verbatim>\<open>bpf/src/schedtrace.rs\<close>: the ring-buffer callbacks of the sampling
  profiler and of the scheduler tracer. Parameters: the callback, the kernel's stack map
  (\<open>lookup\<close> gives the 127 words of a stack, or \<open>None\<close> when the lookup fails), the symbolizer and the
  hash of \<open>Interned\<close>, random numbers. Labels are listed in insertion order.
\<close>

section \<open>Profiler\<close>

record perf_event =
  pe_timestamp :: u64
  pe_tgid :: u32
  pe_pid :: u32
  pe_cpu_id :: u32
  pe_ustack_id :: i32
  pe_kstack_id :: i32

text \<open>The words up to the last one that is not zero, at least one.\<close>

definition truncate_stack :: "u64 list \<Rightarrow> u64 list" where
  "truncate_stack frms = (if dropWhile (\<lambda>x. x = 0) (rev frms) = [] then take 1 frms
                          else rev (dropWhile (\<lambda>x. x = 0) (rev frms)))"

definition get_stack_frames :: "(i32 \<Rightarrow> u64 list option) \<Rightarrow> i32 \<Rightarrow> u64 list" where
  "get_stack_frames lookup i =
     (if sint i < 0 then [] else case lookup i of None \<Rightarrow> [] | Some frms \<Rightarrow> truncate_stack frms)"

definition create_sample :: "perf_event \<Rightarrow> u64 \<Rightarrow> sample" where
  "create_sample e iid = \<lparr>smp_cpu = pe_cpu_id e, smp_track_id = Thread (pe_pid e) (pe_tgid e),
     smp_timestamp = pe_timestamp e, callstack_iid = iid, smp_cpu_mode = CpuUnknown\<rparr>"

record 'e profiler_io =
  pio_cb :: "nat \<Rightarrow> i32"
  pio_lookup :: "i32 \<Rightarrow> u64 list option"
  pio_blaze :: "symbol_source \<Rightarrow> u64 list \<Rightarrow> 'e + string option list"
  pio_hash :: "u64 list \<Rightarrow> u64"
  pio_stream :: stream_id
  pio_config :: process_config

record profiler =
  pr_cache :: interned_cache
  pr_log :: "message list"

definition profiler_call :: "'e profiler_io \<Rightarrow> event \<Rightarrow> profiler \<Rightarrow> i32 \<times> profiler" where
  "profiler_call io e p =
     (case call (pio_cb io) (MStream (pio_stream io) e) (pr_log p) of (r, log) \<Rightarrow> (r, p\<lparr>pr_log := log\<rparr>))"

definition profiler_handle_event :: "'e profiler_io \<Rightarrow> perf_event \<Rightarrow> profiler \<Rightarrow> i32 \<times> profiler" where
  "profiler_handle_event io e p =
     (let us = get_stack_frames (pio_lookup io) (pe_ustack_id e);
          ks = get_stack_frames (pio_lookup io) (pe_kstack_id e)
      in if us = [] \<and> ks = [] then (0, p)
         else case symbolize (pio_blaze io) (pio_config io) (pe_tgid e) us ks of
                Inl err \<Rightarrow> (0, p)
              | Inr s \<Rightarrow>
                  (case interned_stack_data (pio_hash io) s (pr_cache p) of (iid, d, c) \<Rightarrow>
                     let p1 = p\<lparr>pr_cache := c\<rparr>;
                         (r1, p2) = (case d of None \<Rightarrow> (0, p1) | Some x \<Rightarrow> profiler_call io (EInternedData x) p1)
                     in if r1 \<noteq> 0 then (r1, p2)
                        else let (r2, p3) = profiler_call io (ESample (create_sample e iid)) p2
                             in if r2 \<noteq> 0 then (r2, p3) else (0, p3)))"

fun profiler_run :: "'e profiler_io \<Rightarrow> perf_event list \<Rightarrow> profiler \<Rightarrow> profiler" where
  "profiler_run io [] p = p"
| "profiler_run io (e # es) p = profiler_run io es (snd (profiler_handle_event io e p))"

definition profiler_new :: profiler where
  "profiler_new = \<lparr>pr_cache = interned_cache_new, pr_log = []\<rparr>"

section \<open>Scheduler trace\<close>

definition SCHED_EVENT_BLOCKED :: u32 where "SCHED_EVENT_BLOCKED = 1"
definition SCHED_EVENT_RUNNABLE :: u32 where "SCHED_EVENT_RUNNABLE = 2"

record sched_span_event =
  se_pid :: u32
  se_tid :: u32
  se_start_time :: u64
  se_end_time :: u64
  se_cpu :: u32
  se_event_type :: u32
  se_frame :: u64
  se_reason :: u32
  se_task_state :: u32

definition runnable_reason :: "u32 \<Rightarrow> string option" where
  "runnable_reason r =
     (if r = 1 then Some ''preempted'' else if r = 2 then Some ''still_running''
      else if r = 3 then Some ''wakeup'' else None)"

text \<open>The first address that has a symbol.\<close>

definition resolve_kernel_symbol :: "(symbol_source \<Rightarrow> u64 list \<Rightarrow> 'e + string option list) \<Rightarrow> u64 \<Rightarrow> string option" where
  "resolve_kernel_symbol blaze addr =
     (case blaze KernelSource [addr] of
        Inl e \<Rightarrow> None
      | Inr rs \<Rightarrow> (case filter (\<lambda>r. r \<noteq> None) rs of [] \<Rightarrow> None | r # _ \<Rightarrow> r))"

fun show_hex :: "nat \<Rightarrow> string" where
  "show_hex n =
     (let d = (\<lambda>k. if k < 10 then char_of (48 + k) else char_of (87 + k))
      in if n < 16 then [d n] else show_hex (n div 16) @ [d (n mod 16)])"

declare show_hex.simps [simp del]

definition span_name_of :: "(symbol_source \<Rightarrow> u64 list \<Rightarrow> 'e + string option list) \<Rightarrow> sched_span_event \<Rightarrow> string" where
  "span_name_of blaze e =
     (if se_event_type e = SCHED_EVENT_BLOCKED \<and> se_frame e \<noteq> 0
      then case resolve_kernel_symbol blaze (se_frame e) of
             Some nm \<Rightarrow> ''blocked ['' @ nm @ '']''
           | None \<Rightarrow> ''blocked [0x'' @ show_hex (unat (se_frame e)) @ '']''
      else if se_event_type e = SCHED_EVENT_BLOCKED then ''blocked''
      else if se_event_type e = SCHED_EVENT_RUNNABLE then ''runnable''
      else ''running'')"

definition sched_labels :: "sched_span_event \<Rightarrow> labels" where
  "sched_labels e =
     labels_new\<lparr>ints := (''cpu'', ucast (se_cpu e)) #
                        (if se_event_type e = SCHED_EVENT_BLOCKED then [(''task_state'', ucast (se_task_state e))] else []),
                strings := (case runnable_reason (se_reason e) of Some r \<Rightarrow> [(''reason'', r)] | None \<Rightarrow> [])\<rparr>"

record 'e sched_io =
  sio_cb :: "nat \<Rightarrow> i32"
  sio_blaze :: "symbol_source \<Rightarrow> u64 list \<Rightarrow> 'e + string option list"
  sio_rng :: "nat \<Rightarrow> u64"

record sched_trace =
  thread_track_ids :: "i32 \<times> i32 \<Rightarrow> u64 option"
  st_draws :: nat
  st_log :: "message list"

definition sched_new :: sched_trace where
  "sched_new = \<lparr>thread_track_ids = Map.empty, st_draws = 0, st_log = []\<rparr>"

text \<open>The result of announcing a scheduler track is ignored.\<close>

definition sched_track :: "'e sched_io \<Rightarrow> sched_span_event \<Rightarrow> sched_trace \<Rightarrow> u64 \<times> sched_trace" where
  "sched_track io e s =
     (let key = (se_pid e, se_tid e)
      in case thread_track_ids s key of
           Some i \<Rightarrow> (i, s)
         | None \<Rightarrow>
             let i = sio_rng io (st_draws s);
                 (r, log) = call (sio_cb io) (MEvent (ETrack \<lparr>trk_name = ''scheduler'', trk_type = TyCustom i,
                              trk_parent = Some (TyThread (se_tid e) (se_pid e))\<rparr>)) (st_log s)
             in (i, s\<lparr>thread_track_ids := (thread_track_ids s)(key \<mapsto> i), st_draws := Suc (st_draws s), st_log := log\<rparr>))"

definition sched_handle_event :: "'e sched_io \<Rightarrow> sched_span_event option \<Rightarrow> sched_trace \<Rightarrow> i32 \<times> sched_trace" where
  "sched_handle_event io ev s =
     (case ev of
        None \<Rightarrow> (0, s)
      | Some e \<Rightarrow>
          let (i, s1) = sched_track io e s;
              (r, log) = call (sio_cb io) (MEvent (ESpan \<lparr>span_name = span_name_of (sio_blaze io) e,
                  span_id = se_start_time e, start_timestamp = se_start_time e, end_timestamp = se_end_time e,
                  span_track_id = Custom i, span_labels = sched_labels e\<rparr>)) (st_log s1)
          in (r, s1\<lparr>st_log := log\<rparr>))"

fun sched_run :: "'e sched_io \<Rightarrow> sched_span_event option list \<Rightarrow> sched_trace \<Rightarrow> sched_trace" where
  "sched_run io [] s = s"
| "sched_run io (e # es) s = sched_run io es (snd (sched_handle_event io e s))"

section \<open>Samples resolve to their stacks\<close>

text \<open>The stack of an event, when it has one and it could be symbolised.\<close>

definition profiled :: "'e profiler_io \<Rightarrow> perf_event \<Rightarrow> interned option" where
  "profiled io e =
     (case symbolize (pio_blaze io) (pio_config io) (pe_tgid e)
             (get_stack_frames (pio_lookup io) (pe_ustack_id e)) (get_stack_frames (pio_lookup io) (pe_kstack_id e)) of
        Inl err \<Rightarrow> None | Inr s \<Rightarrow> Some s)"

definition sample_iids :: "message list \<Rightarrow> u64 list" where
  "sample_iids log = List.map_filter (\<lambda>m. case m of MStream _ (ESample s) \<Rightarrow> Some (callstack_iid s) | _ \<Rightarrow> None) log"

definition stream_data :: "message list \<Rightarrow> interned_data list" where
  "stream_data log = List.map_filter (\<lambda>m. case m of MStream _ (EInternedData d) \<Rightarrow> Some d | _ \<Rightarrow> None) log"

lemma log_readers [simp]:
  "sample_iids [] = []" "stream_data [] = []"
  "sample_iids (l @ l') = sample_iids l @ sample_iids l'" "stream_data (l @ l') = stream_data l @ stream_data l'"
  "sample_iids (MStream sid (ESample s) # l) = callstack_iid s # sample_iids l"
  "sample_iids (MStream sid (EInternedData d) # l) = sample_iids l"
  "stream_data (MStream sid (ESample s) # l) = stream_data l"
  "stream_data (MStream sid (EInternedData d) # l) = d # stream_data l"
  by (simp_all add: sample_iids_def stream_data_def List.map_filter_def)

lemma profiler_handle_none: "profiled io e = None \<Longrightarrow> profiler_handle_event io e p = (0, p)"
  by (auto simp: profiler_handle_event_def profiled_def symbolize_def Let_def split: sum.splits if_splits)

lemma profiler_handle_some:
  assumes "profiled io e = Some s" "\<And>k. pio_cb io k = 0" "interned_stack_data (pio_hash io) s (pr_cache p) = (iid, d, c)"
  shows "pr_cache (snd (profiler_handle_event io e p)) = c"
    and "sample_iids (pr_log (snd (profiler_handle_event io e p))) = sample_iids (pr_log p) @ [iid]"
    and "stream_data (pr_log (snd (profiler_handle_event io e p))) = stream_data (pr_log p) @ announced d"
proof -
  let ?us = "get_stack_frames (pio_lookup io) (pe_ustack_id e)" and ?ks = "get_stack_frames (pio_lookup io) (pe_kstack_id e)"
  have s: "symbolize (pio_blaze io) (pio_config io) (pe_tgid e) ?us ?ks = Inr s"
    using assms(1) by (auto simp: profiled_def split: sum.splits)
  then have ne: "\<not> (?us = [] \<and> ?ks = [])" by (auto simp: symbolize_def)
  have call: "profiler_call io x q = (0, q\<lparr>pr_log := pr_log q @ [MStream (pio_stream io) x]\<rparr>)" for x q
    by (simp add: profiler_call_def call_def assms(2))
  have h: "snd (profiler_handle_event io e p) = p\<lparr>pr_cache := c,
      pr_log := pr_log p @ map (\<lambda>x. MStream (pio_stream io) (EInternedData x)) (announced d) @
        [MStream (pio_stream io) (ESample (create_sample e iid))]\<rparr>"
  proof (cases d)
    case None
    show ?thesis
      unfolding profiler_handle_event_def Let_def if_not_P [OF ne] s sum.case assms(3) prod.case None option.case call
      by simp
  next
    case (Some x)
    show ?thesis
      unfolding profiler_handle_event_def Let_def if_not_P [OF ne] s sum.case assms(3) prod.case Some option.case call
      by simp
  qed
  show "pr_cache (snd (profiler_handle_event io e p)) = c" unfolding h by simp
  show "sample_iids (pr_log (snd (profiler_handle_event io e p))) = sample_iids (pr_log p) @ [iid]"
    unfolding h by (cases d) (simp_all add: create_sample_def)
  show "stream_data (pr_log (snd (profiler_handle_event io e p))) = stream_data (pr_log p) @ announced d"
    unfolding h by (cases d) simp_all
qed

lemma profiler_run_interned:
  assumes "\<And>k. pio_cb io k = 0"
  shows "case intern_all (pio_hash io) (List.map_filter (profiled io) es) (pr_cache p) of (is, D, c) \<Rightarrow>
    sample_iids (pr_log (profiler_run io es p)) = sample_iids (pr_log p) @ is \<and>
    stream_data (pr_log (profiler_run io es p)) = stream_data (pr_log p) @ D"
proof (induction es arbitrary: p)
  case (Cons e es)
  show ?case
  proof (cases "profiled io e")
    case None
    with Cons.IH [of p] show ?thesis by (simp add: profiler_handle_none List.map_filter_simps)
  next
    case (Some s)
    obtain iid d c where d: "interned_stack_data (pio_hash io) s (pr_cache p) = (iid, d, c)" by (metis prod_cases3)
    note h = profiler_handle_some [OF Some assms d]
    show ?thesis
      using Cons.IH [of "snd (profiler_handle_event io e p)"] h Some d
      by (auto simp: List.map_filter_simps split: prod.splits)
  qed
qed (simp add: List.map_filter_simps)


definition sample_profiler_io :: "unit profiler_io" where
  "sample_profiler_io = \<lparr>pio_cb = (\<lambda>_. 0), pio_lookup = (\<lambda>i. if i = 1 then Some [16, 32, 0, 0] else Some [48, 0]),
     pio_blaze = (\<lambda>_ as. Inr (map (\<lambda>_. None) as)), pio_hash = sample_hash, pio_stream = 1,
     pio_config = default_process_config\<rparr>"

definition sample_perf_event :: perf_event where
  "sample_perf_event = \<lparr>pe_timestamp = 9, pe_tgid = 5, pe_pid = 7, pe_cpu_id = 0, pe_ustack_id = 1, pe_kstack_id = 2\<rparr>"

end
