(* ===== verification/Bpf_Consumer.thy ===== *)
theory Bpf_Consumer
  imports Bpf_Lib Cpuutil Blocktrack Perfcounter Profiler
begin

text \<open>
  \<^verbatim>\<open>bpf/src/lib.rs\<close>, \<open>BpfObject::consumer\<close> and \<open>BpfConsumer\<close>: all collectors together. They are built in a
  fixed order, share the callback, and are run one after the other; the first error ends a
  round. Each collector keeps its own log; \<open>co_log\<close> is what the shared callback was called with, in
  order. The theory states the interface of a collector as a locale, shows that every
  collector satisfies it, and that what each promises of its own messages holds for the
  messages of all.
\<close>

section \<open>State\<close>

record perf_counter =
  pc_derived :: "(string \<times> derived_counter) list"
  pc_only :: "bool list"
  pc_len :: nat
  pc_stream :: stream_id
  pc_state :: perf_state

record consumer =
  co_threadtrack :: "(bool \<times> wrapper) option"
  co_cpuutil :: "cpu_util option"
  co_nettrack :: "net_track option"
  co_block_io :: "block_io option"
  co_profiler :: "(stream_id \<times> profiler) option"
  co_schedtrace :: "sched_trace option"
  co_perfcounter :: "perf_counter option"
  co_log :: "message list"

type_synonym bpf_objects = "(block_io_config, perf_counter_config) bpf_object"

text \<open>What the collectors' surroundings are, and what they find in one round.\<close>

record 'e consumer_io =
  ci_wrapper :: wrapper_io
  ci_cpu :: cpu_io
  ci_net :: net_io
  ci_block :: block_env
  ci_profiler :: "'e profiler_io"
  ci_sched :: "'e sched_io"
  ci_perf :: perf_env

record round =
  rd_proc :: "string + proc_entry list"
  rd_threads :: "thread_event ring"
  rd_cpu :: "(thread_key list \<times> cpu_event) ring"
  rd_net :: "net_maps \<times> u64"
  rd_spans :: "request_span_event option ring"
  rd_block :: "block_maps \<times> u64"
  rd_samples :: "perf_event ring"
  rd_sched :: "sched_span_event option ring"
  rd_counters :: "perf_counter_event ring"

section \<open>One collector\<close>

definition cpu_consume :: "cpu_io \<Rightarrow> string \<Rightarrow> (thread_key list \<times> cpu_event) ring \<Rightarrow> cpu_util \<Rightarrow> (bpf_error + unit) \<times> cpu_util" where
  "cpu_consume io verb = drain_ring (verb @ '' ring buffer'') (\<lambda>(order, e) u. snd (cpu_handle_event io order e u))"

definition profiler_consume :: "'e profiler_io \<Rightarrow> string \<Rightarrow> perf_event ring \<Rightarrow> profiler \<Rightarrow> (bpf_error + unit) \<times> profiler" where
  "profiler_consume io verb = drain_ring (verb @ '' events'') (\<lambda>e p. snd (profiler_handle_event io e p))"

definition sched_consume :: "'e sched_io \<Rightarrow> string \<Rightarrow> sched_span_event option ring \<Rightarrow> sched_trace \<Rightarrow> (bpf_error + unit) \<times> sched_trace" where
  "sched_consume io verb = drain_ring (verb @ '' ring buffer'') (\<lambda>e s. snd (sched_handle_event io e s))"

definition perf_consume :: "perf_env \<Rightarrow> string \<Rightarrow> perf_counter_event ring \<Rightarrow> perf_counter \<Rightarrow> (bpf_error + unit) \<times> perf_counter" where
  "perf_consume env verb =
     drain_ring (verb @ '' events'') (\<lambda>e p. p\<lparr>pc_state :=
       snd (perf_handle_event (env\<lparr>pv_stream := pc_stream p\<rparr>) (pc_derived p) (pc_only p) (pc_len p) e (pc_state p))\<rparr>)"

section \<open>All collectors\<close>

text \<open>Running a collector that may be absent: what it passes to the callback is added to the common log.\<close>

definition run_collector ::
  "(consumer \<Rightarrow> 's option) \<Rightarrow> ('s \<Rightarrow> consumer \<Rightarrow> consumer) \<Rightarrow> ('s \<Rightarrow> message list)
   \<Rightarrow> ('s \<Rightarrow> (bpf_error + unit) \<times> 's) \<Rightarrow> (consumer, bpf_error, unit) comp" where
  "run_collector get put log f co =
     (case get co of
        None \<Rightarrow> (Inr (), co)
      | Some s \<Rightarrow>
          (case f s of (r, s') \<Rightarrow> (r, put s' (co\<lparr>co_log := co_log co @ drop (length (log s)) (log s')\<rparr>))))"

definition run_threadtrack :: "bpf_objects \<Rightarrow> 'e consumer_io \<Rightarrow> string \<Rightarrow> round \<Rightarrow> (consumer, bpf_error, unit) comp" where
  "run_threadtrack ob io verb rd = run_collector co_threadtrack (\<lambda>s. co_threadtrack_update (\<lambda>_. Some s)) (w_log \<circ> snd)
     (thread_consume (tracker_callback ob (ci_wrapper io)) verb (rd_proc rd) (rd_threads rd))"

definition run_cpuutil :: "'e consumer_io \<Rightarrow> string \<Rightarrow> round \<Rightarrow> (consumer, bpf_error, unit) comp" where
  "run_cpuutil io verb rd = run_collector co_cpuutil (\<lambda>s. co_cpuutil_update (\<lambda>_. Some s)) cu_log
     (cpu_consume (ci_cpu io) verb (rd_cpu rd))"

definition run_nettrack :: "'e consumer_io \<Rightarrow> bool \<Rightarrow> round \<Rightarrow> (consumer, bpf_error, unit) comp" where
  "run_nettrack io force rd = run_collector co_nettrack (\<lambda>s. co_nettrack_update (\<lambda>_. Some s)) nt_log
     (net_sample_if_due (ci_net io) (fst (rd_net rd)) (snd (rd_net rd)) force)"

definition run_block_io :: "'e consumer_io \<Rightarrow> string \<Rightarrow> bool \<Rightarrow> round \<Rightarrow> (consumer, bpf_error, unit) comp" where
  "run_block_io io verb force rd = run_collector co_block_io (\<lambda>s. co_block_io_update (\<lambda>_. Some s)) bl_log
     (block_consume (ci_block io) verb (rd_spans rd) (fst (rd_block rd)) (snd (rd_block rd)) force)"

definition run_profiler :: "'e consumer_io \<Rightarrow> string \<Rightarrow> round \<Rightarrow> (consumer, bpf_error, unit) comp" where
  "run_profiler io verb rd = run_collector co_profiler (\<lambda>s. co_profiler_update (\<lambda>_. Some s)) (pr_log \<circ> snd)
     (\<lambda>(sid, p). map_prod id (Pair sid) (profiler_consume ((ci_profiler io)\<lparr>pio_stream := sid\<rparr>) verb (rd_samples rd) p))"

definition run_schedtrace :: "'e consumer_io \<Rightarrow> string \<Rightarrow> round \<Rightarrow> (consumer, bpf_error, unit) comp" where
  "run_schedtrace io verb rd = run_collector co_schedtrace (\<lambda>s. co_schedtrace_update (\<lambda>_. Some s)) st_log
     (sched_consume (ci_sched io) verb (rd_sched rd))"

definition run_perfcounter :: "'e consumer_io \<Rightarrow> string \<Rightarrow> round \<Rightarrow> (consumer, bpf_error, unit) comp" where
  "run_perfcounter io verb rd = run_collector co_perfcounter (\<lambda>s. co_perfcounter_update (\<lambda>_. Some s)) (ps_log \<circ> pc_state)
     (perf_consume (ci_perf io) verb (rd_counters rd))"

fun in_order :: "('s, 'e, unit) comp list \<Rightarrow> ('s, 'e, unit) comp" where
  "in_order [] = returnE ()"
| "in_order (m # ms) = bindE m (\<lambda>_. in_order ms)"

text \<open>\<open>consume\<close> and \<open>poll\<close> differ only in the word in the errors and in how long the library waits for events.\<close>

definition run_all :: "bpf_objects \<Rightarrow> 'e consumer_io \<Rightarrow> string \<Rightarrow> round \<Rightarrow> (consumer, bpf_error, unit) comp" where
  "run_all ob io verb rd =
     in_order [run_threadtrack ob io verb rd, run_cpuutil io verb rd, run_nettrack io False rd,
       run_block_io io verb False rd, run_profiler io verb rd, run_schedtrace io verb rd, run_perfcounter io verb rd]"

definition consumer_consume :: "bpf_objects \<Rightarrow> 'e consumer_io \<Rightarrow> round \<Rightarrow> (consumer, bpf_error, unit) comp" where
  "consumer_consume ob io rd = run_all ob io ''consume'' rd"

definition consumer_poll :: "bpf_objects \<Rightarrow> 'e consumer_io \<Rightarrow> round \<Rightarrow> (consumer, bpf_error, unit) comp" where
  "consumer_poll ob io rd = run_all ob io ''poll'' rd"

definition consumer_flush :: "'e consumer_io \<Rightarrow> round \<Rightarrow> (consumer, bpf_error, unit) comp" where
  "consumer_flush io rd = in_order [run_nettrack io True rd, run_block_io io ''flush'' True rd]"

section \<open>Construction\<close>

record consumer_setup =
  su_cpu :: os
  su_net :: net_os
  su_block :: block_os
  su_profiler :: os
  su_sched :: os
  su_perf :: os
  su_thread :: os
  su_abi :: counter_abi
  su_nprocs :: nat
  su_now :: "u64 \<times> u64"
  su_mounts :: "mount_table \<Rightarrow> mount_table"

definition build_optional :: "'c option \<Rightarrow> ('c \<Rightarrow> bpf_error + 's) \<Rightarrow> bpf_error + 's option" where
  "build_optional c f = (case c of None \<Rightarrow> Inr None | Some x \<Rightarrow> map_sum id Some (f x))"

definition perf_counter_build :: "consumer_setup \<Rightarrow> perf_env \<Rightarrow> perf_counter_config \<Rightarrow> bpf_error + perf_counter" where
  "perf_counter_build su env c =
     (case perf_counter_new (su_perf su) (su_abi su) env (su_nprocs su) c of
        Inl e \<Rightarrow> Inl e
      | Inr ((derived, only), len, s) \<Rightarrow>
          Inr \<lparr>pc_derived = derived, pc_only = only, pc_len = len, pc_stream = pv_stream env, pc_state = s\<rparr>)"

definition optional_stream :: "'c option \<Rightarrow> stream_id_allocator \<Rightarrow> stream_id \<times> stream_id_allocator" where
  "optional_stream c a = (case c of None \<Rightarrow> (0, a) | Some x \<Rightarrow> allocate a)"

definition loaded :: "unit loading \<Rightarrow> 's \<Rightarrow> bpf_error + 's" where
  "loaded m s = map_sum id (\<lambda>_. s) (fst (m []))"

definition bpf_consumer ::
  "consumer_setup \<Rightarrow> 'e consumer_io \<Rightarrow> bpf_objects \<Rightarrow> stream_id_allocator \<Rightarrow> (bpf_error + consumer) \<times> stream_id_allocator" where
  "bpf_consumer su io ob a =
     (let abi = perf_abi.truncate (su_abi su)
      in case build_optional (obj_cpuutils ob) (\<lambda>c. loaded (cpu_util_start (su_cpu su) abi (su_nprocs su) c) cpu_util_new) of
           Inl e \<Rightarrow> (Inl e, a) | Inr cpu \<Rightarrow>
         case build_optional (obj_nettrack ob) (\<lambda>c. map_sum id fst (net_build (su_net su) (fst (su_now su)) c)) of
           Inl e \<Rightarrow> (Inl e, a) | Inr net \<Rightarrow>
         case build_optional (obj_block_io ob)
                (\<lambda>c. map_sum id fst (block_build (su_block su) (ci_block io) (su_mounts su) (snd (su_now su)) c)) of
           Inl e \<Rightarrow> (Inl e, a) | Inr block \<Rightarrow>
         (case optional_stream (obj_profiler ob) a of (sid1, a1) \<Rightarrow>
         case build_optional (obj_profiler ob)
                (\<lambda>c. loaded (profiler_start (su_profiler su) abi (su_nprocs su) c) (sid1, profiler_new)) of
           Inl e \<Rightarrow> (Inl e, a1) | Inr prof \<Rightarrow>
         case build_optional (obj_schedtrace ob) (\<lambda>c. loaded (sched_trace_start (su_sched su) c) sched_new) of
           Inl e \<Rightarrow> (Inl e, a1) | Inr sched \<Rightarrow>
         (case optional_stream (obj_perfcounter ob) a1 of (sid2, a2) \<Rightarrow>
         case build_optional (obj_perfcounter ob) (perf_counter_build su ((ci_perf io)\<lparr>pv_stream := sid2\<rparr>)) of
           Inl e \<Rightarrow> (Inl e, a2) | Inr perf \<Rightarrow>
         case build_optional (obj_threadtrack ob) (\<lambda>c. loaded (thread_tracker_start (su_thread su) c) (False, wrapper_new)) of
           Inl e \<Rightarrow> (Inl e, a2) | Inr threads \<Rightarrow>
         (Inr \<lparr>co_threadtrack = threads, co_cpuutil = cpu, co_nettrack = net, co_block_io = block, co_profiler = prof,
               co_schedtrace = sched, co_perfcounter = perf,
               co_log = (case perf of None \<Rightarrow> [] | Some p \<Rightarrow> ps_log (pc_state p))\<rparr>, a2))))"

section \<open>The interface of a collector\<close>

text \<open>
  A collector is a state with a log, driven by inputs: its log only grows, and as long as the
  inputs are valid every track is announced before a message needs it.
\<close>

locale collector =
  fixes log :: "'s \<Rightarrow> message list"
    and step :: "'i \<Rightarrow> 's \<Rightarrow> (bpf_error + unit) \<times> 's"
    and ok :: "'s \<Rightarrow> bool"
    and valid :: "'i \<Rightarrow> bool"
  assumes grows: "\<lbrakk>ok s; valid i\<rbrakk> \<Longrightarrow> log_grows (log s) (log (snd (step i s)))"
    and keeps: "\<lbrakk>ok s; valid i\<rbrakk> \<Longrightarrow> ok (snd (step i s))"
    and announced: "ok s \<Longrightarrow> announced_first (log s)"

text \<open>What is needed of the common log so that new messages of a collector may be added.\<close>

definition covers :: "message list \<Rightarrow> message list \<Rightarrow> bool" where
  "covers all own \<longleftrightarrow> set own \<subseteq> set all"

lemma announced_first_append:
  "announced_first (log @ new) \<longleftrightarrow> announced_first log \<and>
     (\<forall>k < length new. \<forall>t \<in> set (tracks_needed (new ! k)). \<exists>m \<in> set log \<union> set (take k new). announces m t)"
proof (induction new rule: rev_induct)
  case (snoc m new)
  have nth: "(\<forall>k < length (new @ [m]). P ((new @ [m]) ! k) (take k (new @ [m]))) \<longleftrightarrow>
      (\<forall>k < length new. P (new ! k) (take k new)) \<and> P m new" for P
    by (auto simp: less_Suc_eq nth_append)
  have "announced_first (log @ new @ [m]) \<longleftrightarrow> announced_first (log @ new) \<and>
      (\<forall>t \<in> set (tracks_needed m). \<exists>m' \<in> set log \<union> set new. announces m' t)"
    using announced_first_snoc [of "log @ new" m] by simp
  also have "\<dots> \<longleftrightarrow> announced_first log \<and> (\<forall>k < length (new @ [m]).
      \<forall>t \<in> set (tracks_needed ((new @ [m]) ! k)). \<exists>m' \<in> set log \<union> set (take k (new @ [m])). announces m' t)"
    unfolding snoc.IH nth [of "\<lambda>x l. \<forall>t \<in> set (tracks_needed x). \<exists>m' \<in> set log \<union> set l. announces m' t"] by blast
  finally show ?case .
qed simp

text \<open>New messages of one collector fit after any log that contains the collector's earlier ones.\<close>

lemma announced_first_extend:
  assumes "announced_first all" "announced_first (own @ new)" "covers all own"
  shows "announced_first (all @ new)"
  using assms unfolding announced_first_append covers_def by blast

context collector
begin

text \<open>One step of a collector keeps the common log announced, and that it covers the collector's own.\<close>

lemma step_announced:
  assumes "ok s" "valid i" "covers all (log s)" "announced_first all"
  defines "new \<equiv> drop (length (log s)) (log (snd (step i s)))"
  shows "announced_first (all @ new)" and "covers (all @ new) (log (snd (step i s)))" and "ok (snd (step i s))"
proof -
  have eq: "log (snd (step i s)) = log s @ new"
    using grows [OF assms(1,2)] by (auto simp: new_def log_grows_def)
  have "announced_first (log s @ new)" using announced [OF keeps [OF assms(1,2)]] eq by simp
  then show "announced_first (all @ new)" by (rule announced_first_extend [OF assms(4) _ assms(3)])
  show "covers (all @ new) (log (snd (step i s)))" using assms(3) unfolding eq covers_def by auto
  show "ok (snd (step i s))" by (rule keeps [OF assms(1,2)])
qed

end

section \<open>The collectors satisfy it\<close>

lemma snd_drain_ring [simp]: "snd (drain_ring what f rb s) = fold f (fst rb) s"
  by (simp add: drain_ring_def)

lemma fold_keeps: "\<lbrakk>\<And>x s. x \<in> set xs \<Longrightarrow> P s \<Longrightarrow> P (f x s); P s\<rbrakk> \<Longrightarrow> P (fold f xs s)"
  by (induction xs arbitrary: s) simp_all

text \<open>Messages that need no track: those of the thread tracker and of the profiler.\<close>

definition self_contained :: "message list \<Rightarrow> message list \<Rightarrow> bool" where
  "self_contained base log \<longleftrightarrow> log_grows base log \<and> (\<forall>m \<in> set log. tracks_needed m = [])"

lemma self_contained_announced: "self_contained base log \<Longrightarrow> announced_first log"
  by (simp add: self_contained_def announced_first_independent)

lemma self_contained_snoc:
  "\<lbrakk>self_contained base log; tracks_needed m = []\<rbrakk> \<Longrightarrow> self_contained base (log @ [m])"
  by (auto simp: self_contained_def)

lemma self_contained_restart: "self_contained base log \<Longrightarrow> self_contained log log"
  by (simp add: self_contained_def)

lemma wrapper_call_log: "w_log (snd (wrapper_call io m w)) = w_log w @ [m]"
  by (simp add: wrapper_call_def call_def)

lemma fold_try_filter_log: "w_log (fold (try_filter ob io name pid) fs w) = w_log w"
  by (induction fs arbitrary: w) (simp_all add: try_filter_def split: option.split)

lemma discovered_needs_nothing: "tracks_needed (discovered io k tid pid) = []"
  by (simp add: discovered_def tracks_needed_def)

lemma tracker_callback_log:
  "\<exists>ms. w_log (snd (tracker_callback ob io m w)) = w_log w @ m # ms \<and> (\<forall>x \<in> set ms. tracks_needed x = [])"
proof -
  define w1 where "w1 = (case m of MEvent (ETrack t) \<Rightarrow> (case trk_type t of
      TyProcess pid \<Rightarrow> fold (try_filter ob io (trk_name t) pid) [FCpu, FProfiler, FSched, FNet] w | _ \<Rightarrow> w) | _ \<Rightarrow> w)"
  have w1: "w_log w1 = w_log w"
    unfolding w1_def by (simp only: fold_try_filter_log split: message.split event.split track_type_of.split) simp
  obtain r w2 where c: "wrapper_call io m w1 = (r, w2)" by fastforce
  have w2: "w_log w2 = w_log w @ [m]" using wrapper_call_log [of io m w1] c w1 by simp
  have last: "\<exists>ms. w_log (snd (if r \<noteq> 0 then (r, w2) else case emit of
      Some (tid, pid) \<Rightarrow> wrapper_call io (discovered io (length (w_log w2)) tid pid) w2 | None \<Rightarrow> (r, w2))) = w_log w @ m # ms \<and>
      (\<forall>x \<in> set ms. tracks_needed x = [])" for emit
    using w2 discovered_needs_nothing by (auto simp: wrapper_call_log split: option.split)
  have "\<exists>ms. w_log (snd (wrapper_callback ob io m w)) = w_log w @ m # ms \<and> (\<forall>x \<in> set ms. tracks_needed x = [])"
    unfolding wrapper_callback_def Let_def w1_def [symmetric] c prod.case by (rule last)
  then show ?thesis by (simp add: tracker_callback_def wrapper_call_log)
qed

lemma tracker_callback_contained:
  "\<lbrakk>self_contained base (w_log w); tracks_needed m = []\<rbrakk> \<Longrightarrow> self_contained base (w_log (snd (tracker_callback ob io m w)))"
  using tracker_callback_log [of ob io m w] by (auto simp: self_contained_def)

lemma thread_message_needs_nothing: "tracks_needed (thread_message e) = []"
  by (simp add: thread_message_def)

lemma scan_proc_needs_nothing: "scan_proc entries = Inr ms \<Longrightarrow> \<forall>m \<in> set ms. tracks_needed m = []"
proof -
  have task: "\<forall>m \<in> set (task_messages pid t). tracks_needed m = []" for pid t
    by (cases t) (auto simp: task_messages_def split: option.split)
  then have "\<forall>m \<in> set (proc_messages p). tracks_needed m = []" for p
    by (cases p) (auto simp: proc_messages_def split: option.split)
  then show "scan_proc entries = Inr ms \<Longrightarrow> \<forall>m \<in> set ms. tracks_needed m = []"
    by (cases entries) (auto simp: scan_proc_def)
qed

lemma thread_consume_contained:
  assumes "self_contained base (w_log (snd st))"
  shows "self_contained base (w_log (snd (snd (thread_consume (tracker_callback ob io) verb entries events st))))"
proof -
  let ?cb = "tracker_callback ob io"
  have ring: "self_contained base (w_log (fold (\<lambda>e s. snd (?cb (thread_message e) s)) es s))"
    if "self_contained base (w_log s)" for es s
    by (rule fold_keeps [where P = "\<lambda>s. self_contained base (w_log s)"])
       (simp_all add: that tracker_callback_contained thread_message_needs_nothing)
  have all: "self_contained base (w_log (call_all ?cb ms (snd st)))" if "\<forall>m \<in> set ms. tracks_needed m = []" for ms
    unfolding call_all_def by (rule fold_keeps [where P = "\<lambda>s. self_contained base (w_log s)"])
      (simp_all add: assms that tracker_callback_contained)
  have ready: "self_contained base (w_log s)"
    if "(if fst st then Inr (snd st) else map_sum (\<lambda>e. e) (\<lambda>ms. call_all ?cb ms (snd st)) (scan_proc entries)) = Inr s" for s
    using that all scan_proc_needs_nothing [of entries] assms by (cases "scan_proc entries") (auto split: if_splits)
  show ?thesis
    using ring ready assms unfolding thread_consume_def by (simp add: case_prod_beta split: sum.split)
qed

interpretation threads: collector "w_log \<circ> snd"
  "\<lambda>(verb, entries, events). thread_consume (tracker_callback ob io) verb entries events"
  "\<lambda>s. self_contained [] (w_log (snd s))" "\<lambda>_. True" for ob io
proof (unfold_locales, goal_cases)
  case (1 s i)
  then show ?case
    using thread_consume_contained [OF self_contained_restart [OF 1(1)], of ob io "fst i" "fst (snd i)" "snd (snd i)"]
    by (simp add: self_contained_def case_prod_beta)
next
  case (2 s i)
  then show ?case
    using thread_consume_contained [OF 2(1), of ob io "fst i" "fst (snd i)" "snd (snd i)"] by (simp add: case_prod_beta)
qed (simp add: self_contained_announced)

lemma cpu_consume_ok:
  assumes "cpu_ok base u" "\<forall>(order, e) \<in> set (fst rb). interval_ok e"
  shows "cpu_ok base (snd (cpu_consume io verb rb u))"
  unfolding cpu_consume_def snd_drain_ring
  by (rule fold_keeps [where P = "cpu_ok base"]) (use assms in \<open>auto intro: cpu_ok_handle\<close>)

lemma cpu_ok_restart: "cpu_ok base u \<Longrightarrow> cpu_ok (cu_log u) u"
  by (simp add: cpu_ok_def)

interpretation cpu: collector cu_log "\<lambda>(verb, rb). cpu_consume io verb rb" "cpu_ok []"
  "\<lambda>(verb, rb). \<forall>(order, e) \<in> set (fst rb). interval_ok e" for io
proof (unfold_locales, goal_cases)
  case (1 u i)
  then show ?case
    using cpu_consume_ok [OF cpu_ok_restart [OF 1(1)], of "snd i" io "fst i"] by (simp add: case_prod_beta cpu_ok_def)
next
  case (2 u i)
  then show ?case using cpu_consume_ok [OF 2(1), of "snd i" io "fst i"] by (simp add: case_prod_beta)
qed (simp add: cpu_ok_def)

lemma net_ok_restart: "net_ok base c n \<Longrightarrow> net_ok (nt_log n) c n"
  by (simp add: net_ok_def)

interpretation net: collector nt_log "\<lambda>(mp, now, force). net_sample_if_due io mp now force" "\<lambda>n. net_ok [] (nt_config n) n"
  "\<lambda>_. True" for io
proof (unfold_locales, goal_cases)
  case (1 n i)
  then show ?case
    using net_ok_sample_if_due [OF net_ok_restart [OF 1(1)], of io "fst i" "fst (snd i)" "snd (snd i)"]
    by (simp add: case_prod_beta net_ok_def)
next
  case (2 n i)
  then show ?case
    using net_ok_sample_if_due [OF 2(1), of io "fst i" "fst (snd i)" "snd (snd i)"] by (simp add: case_prod_beta net_ok_def)
qed (simp add: net_ok_def)

lemma block_ok_restart: "block_ok base c b \<Longrightarrow> block_ok (bl_log b) c b"
  by (simp add: block_ok_def)

interpretation block: collector bl_log
  "\<lambda>(verb, rb, mp, now, force). block_consume env verb rb mp now force" "\<lambda>b. block_ok [] (bl_config b) b" "\<lambda>_. True" for env
proof (unfold_locales, goal_cases)
  case (1 b i)
  then show ?case
    using block_ok_consume [OF block_ok_restart [OF 1(1)],
      of env "fst i" "fst (snd i)" "fst (snd (snd i))" "fst (snd (snd (snd i)))" "snd (snd (snd (snd i)))"]
    by (simp add: case_prod_beta block_ok_def)
next
  case (2 b i)
  then show ?case
    using block_ok_consume [OF 2(1),
      of env "fst i" "fst (snd i)" "fst (snd (snd i))" "fst (snd (snd (snd i)))" "snd (snd (snd (snd i)))"]
    by (simp add: case_prod_beta block_ok_def)
qed (simp add: block_ok_def)

lemma profiler_call_log: "pr_log (snd (profiler_call io e p)) = pr_log p @ [MStream (pio_stream io) e]"
  by (simp add: profiler_call_def call_def)

lemma profiler_handle_contained:
  assumes "self_contained base (pr_log p)"
  shows "self_contained base (pr_log (snd (profiler_handle_event io e p)))"
proof -
  have need: "tracks_needed (MStream sid (EInternedData x)) = []" "tracks_needed (MStream sid (ESample s)) = []" for sid x s
    by (simp_all add: tracks_needed_def)
  have data: "self_contained base (pr_log (snd (case d of None \<Rightarrow> (0, q) | Some x \<Rightarrow> profiler_call io (EInternedData x) q)))"
    if "self_contained base (pr_log q)" for d q
    using that by (simp add: profiler_call_log self_contained_snoc need split: option.split)
  have sample: "self_contained base (pr_log (snd (if fst x \<noteq> 0 then (fst x, snd x)
      else case profiler_call io (ESample smp) (snd x) of (r2, p3) \<Rightarrow> if r2 \<noteq> 0 then (r2, p3) else (0, p3))))"
    if "self_contained base (pr_log (snd x))" for x smp
    using that profiler_call_log [of io "ESample smp" "snd x"]
    by (cases "profiler_call io (ESample smp) (snd x)") (simp add: self_contained_snoc need)
  let ?us = "get_stack_frames (pio_lookup io) (pe_ustack_id e)" and ?ks = "get_stack_frames (pio_lookup io) (pe_kstack_id e)"
  show ?thesis
  proof (cases "profiled io e")
    case None
    with assms show ?thesis by (simp add: profiler_handle_none)
  next
    case (Some s)
    then have s: "symbolize (pio_blaze io) (pio_config io) (pe_tgid e) ?us ?ks = Inr s"
      by (auto simp: profiled_def split: sum.splits)
    then have ne: "\<not> (?us = [] \<and> ?ks = [])" by (auto simp: symbolize_def)
    obtain iid d c where d: "interned_stack_data (pio_hash io) s (pr_cache p) = (iid, d, c)" by (metis prod_cases3)
    have "self_contained base (pr_log (p\<lparr>pr_cache := c\<rparr>))" using assms by simp
    from sample [OF data [OF this]] show ?thesis
      unfolding profiler_handle_event_def Let_def if_not_P [OF ne] s sum.case d prod.case
      by (simp add: case_prod_beta)
  qed
qed

lemma profiler_consume_contained:
  "self_contained base (pr_log p) \<Longrightarrow> self_contained base (pr_log (snd (profiler_consume io verb rb p)))"
  unfolding profiler_consume_def snd_drain_ring
  by (rule fold_keeps [where P = "\<lambda>p. self_contained base (pr_log p)"]) (simp_all add: profiler_handle_contained)

interpretation profiler: collector "pr_log \<circ> snd"
  "\<lambda>(verb, rb) (sid, p). map_prod id (Pair sid) (profiler_consume (io\<lparr>pio_stream := sid\<rparr>) verb rb p)"
  "\<lambda>s. self_contained [] (pr_log (snd s))" "\<lambda>_. True" for io
proof (unfold_locales, goal_cases)
  case (1 s i)
  then show ?case
    using profiler_consume_contained [OF self_contained_restart [OF 1(1)], of "io\<lparr>pio_stream := fst s\<rparr>" "fst i" "snd i"]
    by (simp add: case_prod_beta self_contained_def)
next
  case (2 s i)
  then show ?case
    using profiler_consume_contained [OF 2(1), of "io\<lparr>pio_stream := fst s\<rparr>" "fst i" "snd i"] by (simp add: case_prod_beta)
qed (simp add: self_contained_announced)

definition sched_ok :: "message list \<Rightarrow> sched_trace \<Rightarrow> bool" where
  "sched_ok base s \<longleftrightarrow> log_grows base (st_log s) \<and> announced_first (st_log s) \<and>
     (\<forall>key i. thread_track_ids s key = Some i \<longrightarrow> (\<exists>m \<in> set (st_log s). announces m (Custom i)))"

lemma sched_track_ok:
  assumes "sched_ok base s" "sched_track io e s = (i, s')"
  shows "sched_ok base s' \<and> (\<exists>m \<in> set (st_log s'). announces m (Custom i))"
  using assms by (auto simp: sched_track_def sched_ok_def call_def Let_def announced_first_track split: option.splits if_splits)

lemma sched_handle_ok: "sched_ok base s \<Longrightarrow> sched_ok base (snd (sched_handle_event io ev s))"
proof (cases ev)
  case (Some e)
  assume ok: "sched_ok base s"
  obtain i s1 where t: "sched_track io e s = (i, s1)" by fastforce
  with sched_track_ok [OF ok t] Some show ?thesis
    by (auto simp: sched_handle_event_def call_def Let_def sched_ok_def announced_first_snoc)
qed (simp add: sched_handle_event_def)

lemma sched_consume_ok: "sched_ok base s \<Longrightarrow> sched_ok base (snd (sched_consume io verb rb s))"
  unfolding sched_consume_def snd_drain_ring
  by (rule fold_keeps [where P = "sched_ok base"]) (simp_all add: sched_handle_ok)

lemma sched_ok_restart: "sched_ok base s \<Longrightarrow> sched_ok (st_log s) s"
  by (simp add: sched_ok_def)

interpretation sched: collector st_log "\<lambda>(verb, rb). sched_consume io verb rb" "sched_ok []" "\<lambda>_. True" for io
proof (unfold_locales, goal_cases)
  case (1 s i)
  then show ?case
    using sched_consume_ok [OF sched_ok_restart [OF 1(1)], of io "fst i" "snd i"] by (simp add: case_prod_beta sched_ok_def)
next
  case (2 s i)
  then show ?case using sched_consume_ok [OF 2(1), of io "fst i" "snd i"] by (simp add: case_prod_beta)
qed (simp add: sched_ok_def)

definition counters_ok :: "nat \<Rightarrow> message list \<Rightarrow> perf_counter \<Rightarrow> bool" where
  "counters_ok nprocs base p \<longleftrightarrow> perf_ok base (all_ids (pc_only p) (pc_len p) (length (pc_derived p)) nprocs) (pc_state p)"

lemma perf_consume_ok:
  assumes "counters_ok nprocs base p" "\<forall>e \<in> set (fst rb). unat (pv_cpu_id e) < nprocs"
  shows "counters_ok nprocs base (snd (perf_consume env verb rb p))"
  unfolding perf_consume_def snd_drain_ring
  by (rule fold_keeps [where P = "counters_ok nprocs base"]) (use assms in \<open>simp_all add: counters_ok_def perf_ok_handle\<close>)

lemma counters_ok_restart: "counters_ok nprocs base p \<Longrightarrow> counters_ok nprocs (ps_log (pc_state p)) p"
  by (simp add: counters_ok_def perf_ok_def)

interpretation counters: collector "ps_log \<circ> pc_state" "\<lambda>(verb, rb). perf_consume env verb rb" "counters_ok nprocs []"
  "\<lambda>(verb, rb). \<forall>e \<in> set (fst rb). unat (pv_cpu_id e) < nprocs" for env nprocs
proof (unfold_locales, goal_cases)
  case (1 p i)
  then show ?case
    using perf_consume_ok [OF counters_ok_restart [OF 1(1)], of "snd i" env "fst i"]
    by (simp add: case_prod_beta counters_ok_def perf_ok_def)
next
  case (2 p i)
  then show ?case using perf_consume_ok [OF 2(1), of "snd i" env "fst i"] by (simp add: case_prod_beta)
qed (simp add: counters_ok_def perf_ok_def)

section \<open>All of them together\<close>

text \<open>A collector that is present is in order, and the common log has all its messages.\<close>

definition hosted :: "('s \<Rightarrow> message list) \<Rightarrow> ('s \<Rightarrow> bool) \<Rightarrow> message list \<Rightarrow> 's option \<Rightarrow> bool" where
  "hosted log ok all st \<longleftrightarrow> (\<forall>s. st = Some s \<longrightarrow> ok s \<and> covers all (log s))"

lemma hosted_mono: "hosted log ok all st \<Longrightarrow> hosted log ok (all @ new) st"
  by (auto simp: hosted_def covers_def)

definition consumer_ok :: "nat \<Rightarrow> consumer \<Rightarrow> bool" where
  "consumer_ok nprocs co \<longleftrightarrow> announced_first (co_log co) \<and>
     hosted (w_log \<circ> snd) (\<lambda>s. self_contained [] (w_log (snd s))) (co_log co) (co_threadtrack co) \<and>
     hosted cu_log (cpu_ok []) (co_log co) (co_cpuutil co) \<and>
     hosted nt_log (\<lambda>n. net_ok [] (nt_config n) n) (co_log co) (co_nettrack co) \<and>
     hosted bl_log (\<lambda>b. block_ok [] (bl_config b) b) (co_log co) (co_block_io co) \<and>
     hosted (pr_log \<circ> snd) (\<lambda>s. self_contained [] (pr_log (snd s))) (co_log co) (co_profiler co) \<and>
     hosted st_log (sched_ok []) (co_log co) (co_schedtrace co) \<and>
     hosted (ps_log \<circ> pc_state) (counters_ok nprocs []) (co_log co) (co_perfcounter co)"

context collector
begin

lemma run_collector_keeps:
  assumes "announced_first (co_log co)" "hosted log ok (co_log co) (get co)" "valid i" "P co"
    and "\<And>s' new. \<lbrakk>announced_first (co_log co @ new); ok s'; covers (co_log co @ new) (log s')\<rbrakk>
      \<Longrightarrow> P (put s' (co\<lparr>co_log := co_log co @ new\<rparr>))"
  shows "P (snd (run_collector get put log (step i) co))"
proof (cases "get co")
  case (Some s)
  have s: "ok s" "covers (co_log co) (log s)" using assms(2) Some by (simp_all add: hosted_def)
  note new = step_announced [OF s(1) assms(3) s(2) assms(1)]
  show ?thesis
    using assms(5) [OF new(1) new(3) new(2)] Some by (simp add: run_collector_def case_prod_beta)
qed (use assms(4) in \<open>simp add: run_collector_def\<close>)

end

text \<open>Valid rounds: no CPU interval ends before it starts, and counter events name one of the CPUs.\<close>

definition valid_round :: "nat \<Rightarrow> round \<Rightarrow> bool" where
  "valid_round nprocs rd \<longleftrightarrow> (\<forall>(order, e) \<in> set (fst (rd_cpu rd)). interval_ok e) \<and>
     (\<forall>e \<in> set (fst (rd_counters rd)). unat (pv_cpu_id e) < nprocs)"

lemma consumer_parts:
  assumes "consumer_ok nprocs co"
  shows "announced_first (co_log co)"
    and "hosted (w_log \<circ> snd) (\<lambda>s. self_contained [] (w_log (snd s))) (co_log co) (co_threadtrack co)"
    and "hosted cu_log (cpu_ok []) (co_log co) (co_cpuutil co)"
    and "hosted nt_log (\<lambda>n. net_ok [] (nt_config n) n) (co_log co) (co_nettrack co)"
    and "hosted bl_log (\<lambda>b. block_ok [] (bl_config b) b) (co_log co) (co_block_io co)"
    and "hosted (pr_log \<circ> snd) (\<lambda>s. self_contained [] (pr_log (snd s))) (co_log co) (co_profiler co)"
    and "hosted st_log (sched_ok []) (co_log co) (co_schedtrace co)"
    and "hosted (ps_log \<circ> pc_state) (counters_ok nprocs []) (co_log co) (co_perfcounter co)"
  using assms by (simp_all add: consumer_ok_def)

lemma hosted_Some: "hosted log ok all (Some s) \<longleftrightarrow> ok s \<and> covers all (log s)"
  by (simp add: hosted_def)

lemmas host = consumer_ok_def hosted_mono hosted_Some

lemma run_collectors_ok:
  assumes ok: "consumer_ok nprocs co" and valid: "valid_round nprocs rd"
  shows "consumer_ok nprocs (snd (run_threadtrack ob io verb rd co))"
    and "consumer_ok nprocs (snd (run_cpuutil io verb rd co))"
    and "consumer_ok nprocs (snd (run_nettrack io force rd co))"
    and "consumer_ok nprocs (snd (run_block_io io verb force rd co))"
    and "consumer_ok nprocs (snd (run_profiler io verb rd co))"
    and "consumer_ok nprocs (snd (run_schedtrace io verb rd co))"
    and "consumer_ok nprocs (snd (run_perfcounter io verb rd co))"
proof -
  note parts = consumer_parts [OF ok]
  show "consumer_ok nprocs (snd (run_threadtrack ob io verb rd co))"
    unfolding run_threadtrack_def
    by (rule threads.run_collector_keeps [where co = co and get = co_threadtrack and P = "consumer_ok nprocs" and
          put = "\<lambda>s. co_threadtrack_update (\<lambda>_. Some s)" and i = "(verb, rd_proc rd, rd_threads rd)", unfolded prod.case])
       (use parts ok valid in \<open>simp_all add: host valid_round_def\<close>)
  show "consumer_ok nprocs (snd (run_cpuutil io verb rd co))"
    unfolding run_cpuutil_def
    by (rule cpu.run_collector_keeps [where co = co and get = co_cpuutil and P = "consumer_ok nprocs" and
          put = "\<lambda>s. co_cpuutil_update (\<lambda>_. Some s)" and i = "(verb, rd_cpu rd)", unfolded prod.case])
       (use parts ok valid in \<open>simp_all add: host valid_round_def\<close>)
  show "consumer_ok nprocs (snd (run_nettrack io force rd co))"
    unfolding run_nettrack_def
    by (rule net.run_collector_keeps [where co = co and get = co_nettrack and P = "consumer_ok nprocs" and
          put = "\<lambda>s. co_nettrack_update (\<lambda>_. Some s)" and i = "(fst (rd_net rd), snd (rd_net rd), force)", unfolded prod.case])
       (use parts ok valid in \<open>simp_all add: host valid_round_def\<close>)
  show "consumer_ok nprocs (snd (run_block_io io verb force rd co))"
    unfolding run_block_io_def
    by (rule block.run_collector_keeps [where co = co and get = co_block_io and P = "consumer_ok nprocs" and
          put = "\<lambda>s. co_block_io_update (\<lambda>_. Some s)" and i = "(verb, rd_spans rd, fst (rd_block rd), snd (rd_block rd), force)", unfolded prod.case])
       (use parts ok valid in \<open>simp_all add: host valid_round_def\<close>)
  show "consumer_ok nprocs (snd (run_profiler io verb rd co))"
    unfolding run_profiler_def
    by (rule profiler.run_collector_keeps [where co = co and get = co_profiler and P = "consumer_ok nprocs" and
          put = "\<lambda>s. co_profiler_update (\<lambda>_. Some s)" and i = "(verb, rd_samples rd)", unfolded prod.case])
       (use parts ok valid in \<open>simp_all add: host valid_round_def\<close>)
  show "consumer_ok nprocs (snd (run_schedtrace io verb rd co))"
    unfolding run_schedtrace_def
    by (rule sched.run_collector_keeps [where co = co and get = co_schedtrace and P = "consumer_ok nprocs" and
          put = "\<lambda>s. co_schedtrace_update (\<lambda>_. Some s)" and i = "(verb, rd_sched rd)", unfolded prod.case])
       (use parts ok valid in \<open>simp_all add: host valid_round_def\<close>)
  show "consumer_ok nprocs (snd (run_perfcounter io verb rd co))"
    unfolding run_perfcounter_def
    by (rule counters.run_collector_keeps [where co = co and get = co_perfcounter and P = "consumer_ok nprocs" and
          put = "\<lambda>s. co_perfcounter_update (\<lambda>_. Some s)" and i = "(verb, rd_counters rd)", unfolded prod.case])
       (use parts ok valid in \<open>simp_all add: host valid_round_def\<close>)
qed

lemma in_order_keeps: "\<lbrakk>\<And>m s. m \<in> set ms \<Longrightarrow> P s \<Longrightarrow> P (snd (m s)); P s\<rbrakk> \<Longrightarrow> P (snd (in_order ms s))"
proof (induction ms arbitrary: s)
  case (Cons m ms)
  then have "P (snd (m s))" by simp
  with Cons show ?case by (cases "m s") (auto simp: bindE_def split: sum.split)
qed (simp add: returnE_def)

lemma run_all_ok:
  "\<lbrakk>consumer_ok nprocs co; valid_round nprocs rd\<rbrakk> \<Longrightarrow> consumer_ok nprocs (snd (run_all ob io verb rd co))"
  unfolding run_all_def by (rule in_order_keeps [where P = "consumer_ok nprocs"]) (auto intro: run_collectors_ok)

lemma consumer_flush_ok:
  "\<lbrakk>consumer_ok nprocs co; valid_round nprocs rd\<rbrakk> \<Longrightarrow> consumer_ok nprocs (snd (consumer_flush io rd co))"
  unfolding consumer_flush_def by (rule in_order_keeps [where P = "consumer_ok nprocs"]) (auto intro: run_collectors_ok)

text \<open>The calls of the main loop: each is made whether or not the one before it failed.\<close>

datatype consumer_call = Consume round | Poll round | FlushAll round

fun call_round :: "consumer_call \<Rightarrow> round" where
  "call_round (Consume rd) = rd"
| "call_round (Poll rd) = rd"
| "call_round (FlushAll rd) = rd"

fun consumer_do :: "bpf_objects \<Rightarrow> 'e consumer_io \<Rightarrow> consumer_call \<Rightarrow> consumer \<Rightarrow> consumer" where
  "consumer_do ob io (Consume rd) co = snd (consumer_consume ob io rd co)"
| "consumer_do ob io (Poll rd) co = snd (consumer_poll ob io rd co)"
| "consumer_do ob io (FlushAll rd) co = snd (consumer_flush io rd co)"

definition consumer_run :: "bpf_objects \<Rightarrow> 'e consumer_io \<Rightarrow> consumer_call list \<Rightarrow> consumer \<Rightarrow> consumer" where
  "consumer_run ob io cs co = fold (consumer_do ob io) cs co"

lemma consumer_run_ok:
  assumes "consumer_ok nprocs co" "\<forall>c \<in> set cs. valid_round nprocs (call_round c)"
  shows "consumer_ok nprocs (consumer_run ob io cs co)"
  unfolding consumer_run_def
proof (rule fold_keeps [where P = "consumer_ok nprocs"])
  show "consumer_ok nprocs (consumer_do ob io c s)" if "c \<in> set cs" "consumer_ok nprocs s" for c s
    using assms(2) that by (cases c) (auto simp: consumer_consume_def consumer_poll_def run_all_ok consumer_flush_ok)
qed (rule assms(1))

lemma map_sum_Inr: "map_sum f g x = Inr y \<longleftrightarrow> (\<exists>z. x = Inr z \<and> y = g z)"
  by (cases x) auto

lemma build_optional_Inr: "build_optional c f = Inr (Some s) \<Longrightarrow> \<exists>x. c = Some x \<and> f x = Inr s"
  by (cases c) (auto simp: build_optional_def map_sum_Inr)

lemma hosted_built:
  assumes "build_optional c f = Inr st" "\<And>x s. f x = Inr s \<Longrightarrow> ok s \<and> covers all (log s)"
  shows "hosted log ok all st"
  using assms build_optional_Inr [of c f] by (auto simp: hosted_def)

lemma bpf_consumer_built:
  assumes "bpf_consumer su io ob a = (Inr co, a')"
  obtains cpu net block sid1 prof sched sid2 perf threads where
    "build_optional (obj_cpuutils ob) (\<lambda>c. loaded (cpu_util_start (su_cpu su) (perf_abi.truncate (su_abi su)) (su_nprocs su) c) cpu_util_new) = Inr cpu"
    "build_optional (obj_nettrack ob) (\<lambda>c. map_sum id fst (net_build (su_net su) (fst (su_now su)) c)) = Inr net"
    "build_optional (obj_block_io ob)
       (\<lambda>c. map_sum id fst (block_build (su_block su) (ci_block io) (su_mounts su) (snd (su_now su)) c)) = Inr block"
    "build_optional (obj_profiler ob)
       (\<lambda>c. loaded (profiler_start (su_profiler su) (perf_abi.truncate (su_abi su)) (su_nprocs su) c) (sid1, profiler_new)) = Inr prof"
    "build_optional (obj_schedtrace ob) (\<lambda>c. loaded (sched_trace_start (su_sched su) c) sched_new) = Inr sched"
    "build_optional (obj_perfcounter ob) (perf_counter_build su ((ci_perf io)\<lparr>pv_stream := sid2\<rparr>)) = Inr perf"
    "build_optional (obj_threadtrack ob) (\<lambda>c. loaded (thread_tracker_start (su_thread su) c) (False, wrapper_new)) = Inr threads"
    "co = \<lparr>co_threadtrack = threads, co_cpuutil = cpu, co_nettrack = net, co_block_io = block, co_profiler = prof,
      co_schedtrace = sched, co_perfcounter = perf, co_log = (case perf of None \<Rightarrow> [] | Some p \<Rightarrow> ps_log (pc_state p))\<rparr>"
  using assms unfolding bpf_consumer_def Let_def by (simp split: sum.splits prod.splits)

lemma loaded_Inr: "loaded m s = Inr s' \<Longrightarrow> s' = s"
  by (auto simp: loaded_def map_sum_Inr)

lemma perf_counter_build_ok: "perf_counter_build su env c = Inr p \<Longrightarrow> counters_ok (su_nprocs su) [] p"
  using perf_new_ok(1) by (auto simp: perf_counter_build_def counters_ok_def split: sum.splits prod.splits)

lemma net_built:
  assumes "map_sum id fst (net_build os t0 c) = Inr n"
  shows "net_ok [] (nt_config n) n \<and> covers all (nt_log n)"
proof -
  obtain x where "net_build os t0 c = Inr (n, x)" using assms by (auto simp: map_sum_Inr)
  from net_build_ok [OF this] net_build_log [OF this] show ?thesis by (simp add: covers_def)
qed

lemma block_built:
  assumes "map_sum id fst (block_build os env mo now c) = Inr b"
  shows "block_ok [] (bl_config b) b \<and> covers all (bl_log b)"
proof -
  obtain x where "block_build os env mo now c = Inr (b, x)" using assms by (auto simp: map_sum_Inr)
  from block_build_ok [OF this] block_build_log [OF this] show ?thesis by (simp add: covers_def)
qed

lemma bpf_consumer_ok:
  assumes "bpf_consumer su io ob a = (Inr co, a')"
  shows "consumer_ok (su_nprocs su) co"
  using assms
proof (rule bpf_consumer_built)
  fix cpu net block sid1 prof sched sid2 perf threads
  assume built: "build_optional (obj_cpuutils ob) (\<lambda>c. loaded (cpu_util_start (su_cpu su) (perf_abi.truncate (su_abi su)) (su_nprocs su) c) cpu_util_new) = Inr cpu"
    "build_optional (obj_nettrack ob) (\<lambda>c. map_sum id fst (net_build (su_net su) (fst (su_now su)) c)) = Inr net"
    "build_optional (obj_block_io ob)
       (\<lambda>c. map_sum id fst (block_build (su_block su) (ci_block io) (su_mounts su) (snd (su_now su)) c)) = Inr block"
    "build_optional (obj_profiler ob)
       (\<lambda>c. loaded (profiler_start (su_profiler su) (perf_abi.truncate (su_abi su)) (su_nprocs su) c) (sid1, profiler_new)) = Inr prof"
    "build_optional (obj_schedtrace ob) (\<lambda>c. loaded (sched_trace_start (su_sched su) c) sched_new) = Inr sched"
    "build_optional (obj_perfcounter ob) (perf_counter_build su ((ci_perf io)\<lparr>pv_stream := sid2\<rparr>)) = Inr perf"
    "build_optional (obj_threadtrack ob) (\<lambda>c. loaded (thread_tracker_start (su_thread su) c) (False, wrapper_new)) = Inr threads"

    and co: "co = \<lparr>co_threadtrack = threads, co_cpuutil = cpu, co_nettrack = net, co_block_io = block, co_profiler = prof,
      co_schedtrace = sched, co_perfcounter = perf, co_log = (case perf of None \<Rightarrow> [] | Some p \<Rightarrow> ps_log (pc_state p))\<rparr>"
  let ?log = "case perf of None \<Rightarrow> [] | Some p \<Rightarrow> ps_log (pc_state p)"
  let ?n = "su_nprocs su"
  have perf': "counters_ok ?n [] p" if "perf = Some p" for p
    using build_optional_Inr [OF built(6) [unfolded that]] perf_counter_build_ok by blast
  then have "announced_first ?log" by (auto simp: counters_ok_def perf_ok_def split: option.split)
  moreover have "hosted (ps_log \<circ> pc_state) (counters_ok ?n []) ?log perf"
    using perf' by (auto simp: hosted_def covers_def)
  moreover have "hosted (w_log \<circ> snd) (\<lambda>s. self_contained [] (w_log (snd s))) ?log threads"
    by (rule hosted_built [OF built(7)]) (drule loaded_Inr, simp add: wrapper_new_def self_contained_def covers_def)
  moreover have "hosted cu_log (cpu_ok []) ?log cpu"
    by (rule hosted_built [OF built(1)]) (drule loaded_Inr, simp add: cpu_util_new_def cpu_ok_def covers_def)
  moreover have "hosted nt_log (\<lambda>n. net_ok [] (nt_config n) n) ?log net"
    by (rule hosted_built [OF built(2)]) (rule net_built)
  moreover have "hosted bl_log (\<lambda>b. block_ok [] (bl_config b) b) ?log block"
    by (rule hosted_built [OF built(3)]) (rule block_built)
  moreover have "hosted (pr_log \<circ> snd) (\<lambda>s. self_contained [] (pr_log (snd s))) ?log prof"
    by (rule hosted_built [OF built(4)]) (drule loaded_Inr, simp add: profiler_new_def self_contained_def covers_def)
  moreover have "hosted st_log (sched_ok []) ?log sched"
    by (rule hosted_built [OF built(5)]) (drule loaded_Inr, simp add: sched_new_def sched_ok_def covers_def)
  ultimately show ?thesis unfolding consumer_ok_def co by simp
qed


definition sample_setup :: consumer_setup where
  "sample_setup = \<lparr>su_cpu = (\<lambda>_. Inr 3), su_net = ok_net_os, su_block = ok_block_os, su_profiler = (\<lambda>_. Inr 3),
     su_sched = (\<lambda>_. Inr 3), su_perf = (\<lambda>_. Inr 3), su_thread = (\<lambda>_. Inr 3), su_abi = sample_counter_abi,
     su_nprocs = 1, su_now = (0, 0), su_mounts = id\<rparr>"

definition sample_consumer_io :: "unit consumer_io" where
  "sample_consumer_io = \<lparr>ci_wrapper = quiet_io, ci_cpu = \<lparr>cio_cb = (\<lambda>_. 0), cio_rng = of_nat, cio_nprocs = 1\<rparr>,
     ci_net = sample_net_io, ci_block = sample_block_env, ci_profiler = sample_profiler_io,
     ci_sched = \<lparr>sio_cb = (\<lambda>_. 0), sio_blaze = (\<lambda>_ as. Inr (map (\<lambda>_. None) as)), sio_rng = of_nat\<rparr>, ci_perf = sample_perf_env\<rparr>"

definition sample_objects :: bpf_objects where
  "sample_objects = \<lparr>obj_threadtrack = None,
     obj_cpuutils = Some \<lparr>cuc_frequency = 9, cuc_pid_filters = [], cuc_filter_process = [], cuc_ringbuf = 4096\<rparr>,
     obj_nettrack = None, obj_block_io = None, obj_profiler = None,
     obj_schedtrace = Some \<lparr>stc_pid_filters = [], stc_filter_process = [], stc_ringbuf = 4096\<rparr>, obj_perfcounter = None,
     cpuutil_filters = [], profiler_filters = [], schedtrace_filters = [], nettrack_filters = [],
     watched_tgids = (\<lambda>_. False)\<rparr>"

definition sample_sched :: sched_span_event where
  "sample_sched = \<lparr>se_pid = 5, se_tid = 7, se_start_time = 10, se_end_time = 20, se_cpu = 0, se_event_type = 2, se_frame = 0,
     se_reason = 3, se_task_state = 0\<rparr>"

definition sample_round :: round where
  "sample_round = \<lparr>rd_proc = Inr [], rd_threads = ([], None), rd_cpu = ([([(5, 7)], sample_interval)], None),
     rd_net = (sample_net_maps, 0), rd_spans = ([], None), rd_block = (sample_block_maps, 0), rd_samples = ([], None),
     rd_sched = ([Some sample_sched], None), rd_counters = ([], None)\<rparr>"

definition sample_consumer :: consumer where
  "sample_consumer = \<lparr>co_threadtrack = None, co_cpuutil = Some cpu_util_new, co_nettrack = None, co_block_io = None,
     co_profiler = None, co_schedtrace = Some sched_new, co_perfcounter = None, co_log = []\<rparr>"

lemma sample_consumer_built:
  "bpf_consumer sample_setup sample_consumer_io sample_objects stream_id_allocator_new = (Inr sample_consumer, stream_id_allocator_new)"
  by (simp add: bpf_consumer_def sample_setup_def sample_objects_def sample_consumer_def build_optional_def optional_stream_def
      loaded_def cpu_util_start_def cpu_util_load_def sched_trace_start_def sched_trace_load_def filtered_load_def open_steps_def
      load_step_def filter_steps_def attach_step_def ring_steps_def perf_event_per_cpu_def perf_event_open_def
      attach_perf_event_def bindE_def returnE_def syscall_def note_call_def Let_def)

lemma sample_consumer_log:
  "length (co_log (consumer_run sample_objects sample_consumer_io [Consume sample_round] sample_consumer)) = 6"
  by (simp add: consumer_run_def consumer_consume_def run_all_def sample_consumer_def run_threadtrack_def run_cpuutil_def
      run_nettrack_def run_block_io_def run_profiler_def run_schedtrace_def run_perfcounter_def run_collector_def
      sample_round_def sample_consumer_io_def cpu_consume_def sched_consume_def drain_ring_def sched_new_def
      cpu_handle_event_def add_interval_def sample_interval_def cpu_util_new_def cpu_track_ids_def
      emit_usage_def cpu_call_eq sched_handle_event_def sched_track_def sample_sched_def call_def bindE_def returnE_def Let_def)


end
