(* ===== verification/Perfetto.thy ===== *)
theory Perfetto
  imports Protocol
begin

text \<open>
  \<^verbatim>\<open>perfetto-format/src/lib.rs\<close>: the writer of trace packets. The packets are records with the
  fields of the generated protobuf types that the writer sets; encoding them is the protobuf
  library's. The underlying \<open>Write\<close> is a parameter: the outcome of the \<open>k\<close>-th \<open>write_all\<close> is
  \<open>io k\<close>. The writer's state keeps the packets that were written.
\<close>

section \<open>Packets\<close>

record thread_descriptor =
  thd_pid :: "i32 option"
  thd_tid :: "i32 option"
  thd_name :: "string option"

record process_descriptor =
  pd_pid :: "i32 option"
  pd_name :: "string option"

record counter_descriptor =
  unit_name :: "string option"

record track_descriptor =
  td_uuid :: "u64 option"
  td_parent_uuid :: "u64 option"
  td_name :: "string option"
  td_thread :: "thread_descriptor option"
  td_process :: "process_descriptor option"
  td_counter :: "counter_descriptor option"

datatype track_event_type = SliceBegin | SliceEnd | TypeInstant | TypeCounter

datatype counter_value = CounterValue i64 | DoubleCounterValue f64_bits

datatype debug_value = DString string | DInt i64 | DDouble f64_bits | DBool bool

record debug_annotation =
  da_name :: "string option"
  da_value :: "debug_value option"

record track_event =
  te_name :: "string option"
  te_track_uuid :: "u64 option"
  te_type :: "track_event_type option"
  te_annotations :: "debug_annotation list"
  te_counter :: "counter_value option"

record perf_sample =
  ps_cpu :: "u32 option"
  ps_pid :: "u32 option"
  ps_tid :: "u32 option"
  ps_callstack_iid :: "u64 option"
  ps_timebase_count :: "u64 option"

datatype packet_data =
    TrackDescriptor track_descriptor
  | TrackEvent track_event
  | PerfSample perf_sample

record trace_packet =
  tp_data :: "packet_data option"
  tp_timestamp :: "u64 option"
  tp_sequence_id :: "u32 option"
  tp_interned :: "(u64 option) interned_data_of option"
  tp_sequence_flags :: "u32 option"
  tp_trusted_pid :: "i32 option"

definition default_track_descriptor :: track_descriptor where
  "default_track_descriptor = \<lparr>td_uuid = None, td_parent_uuid = None, td_name = None, td_thread = None,
     td_process = None, td_counter = None\<rparr>"

definition default_track_event :: track_event where
  "default_track_event = \<lparr>te_name = None, te_track_uuid = None, te_type = None, te_annotations = [],
     te_counter = None\<rparr>"

definition default_packet :: trace_packet where
  "default_packet = \<lparr>tp_data = None, tp_timestamp = None, tp_sequence_id = None, tp_interned = None,
     tp_sequence_flags = None, tp_trusted_pid = None\<rparr>"

definition SeqIncrementalStateCleared :: u32 where "SeqIncrementalStateCleared = 1"
definition SeqNeedsIncrementalState :: u32 where "SeqNeedsIncrementalState = 2"

section \<open>The writer\<close>

record stream_writer =
  track_uuid_counter :: u64
  written :: "trace_packet list"
  write_calls :: nat

type_synonym 'a writes = "(stream_writer, errno, 'a) comp"

definition stream_writer_new :: stream_writer where
  "stream_writer_new = \<lparr>track_uuid_counter = 1000, written = [], write_calls = 0\<rparr>"

definition next_track_uuid :: "u64 writes" where
  "next_track_uuid w =
     (let uuid = track_uuid_counter w in (Inr uuid, w\<lparr>track_uuid_counter := track_uuid_counter w + 1\<rparr>))"

definition write_packet :: "(nat \<Rightarrow> errno option) \<Rightarrow> trace_packet \<Rightarrow> stream_id option \<Rightarrow> unit writes" where
  "write_packet io packet sid w =
     (let p = packet\<lparr>tp_sequence_id := Some (case sid of Some i \<Rightarrow> ucast i | None \<Rightarrow> - 1)\<rparr>
      in case io (write_calls w) of
           Some e \<Rightarrow> (Inl e, w\<lparr>write_calls := Suc (write_calls w)\<rparr>)
         | None \<Rightarrow> (Inr (), w\<lparr>written := written w @ [p], write_calls := Suc (write_calls w)\<rparr>))"

definition descriptor_packet :: "track_descriptor \<Rightarrow> trace_packet" where
  "descriptor_packet d = default_packet\<lparr>tp_data := Some (TrackDescriptor d)\<rparr>"

definition event_packet :: "track_event \<Rightarrow> u64 \<Rightarrow> trace_packet" where
  "event_packet e ts = default_packet\<lparr>tp_data := Some (TrackEvent e), tp_timestamp := Some ts\<rparr>"

definition write_thread_descriptor_with_uuid ::
  "(nat \<Rightarrow> errno option) \<Rightarrow> u64 \<Rightarrow> u32 \<Rightarrow> u32 \<Rightarrow> string option \<Rightarrow> u64 \<Rightarrow> unit writes" where
  "write_thread_descriptor_with_uuid io uuid pid tid name parent_uuid =
     write_packet io (descriptor_packet (default_track_descriptor\<lparr>td_uuid := Some uuid,
       td_parent_uuid := Some parent_uuid,
       td_thread := Some \<lparr>thd_pid = Some (ucast pid), thd_tid = Some (ucast tid), thd_name = name\<rparr>\<rparr>)) None"

definition write_thread_descriptor ::
  "(nat \<Rightarrow> errno option) \<Rightarrow> u32 \<Rightarrow> u32 \<Rightarrow> string option \<Rightarrow> u64 \<Rightarrow> u64 writes" where
  "write_thread_descriptor io pid tid name parent_uuid =
     bindE next_track_uuid (\<lambda>uuid.
       bindE (write_thread_descriptor_with_uuid io uuid pid tid name parent_uuid) (\<lambda>_. returnE uuid))"

definition write_slice_begin ::
  "(nat \<Rightarrow> errno option) \<Rightarrow> u64 \<Rightarrow> string \<Rightarrow> u64 \<Rightarrow> debug_annotation list \<Rightarrow> unit writes" where
  "write_slice_begin io uuid name ts anns =
     write_packet io (event_packet (default_track_event\<lparr>te_name := Some name, te_track_uuid := Some uuid,
       te_type := Some SliceBegin, te_annotations := anns\<rparr>) ts) None"

definition write_slice_end :: "(nat \<Rightarrow> errno option) \<Rightarrow> u64 \<Rightarrow> u64 \<Rightarrow> unit writes" where
  "write_slice_end io uuid ts =
     write_packet io (event_packet (default_track_event\<lparr>te_track_uuid := Some uuid, te_type := Some SliceEnd\<rparr>) ts) None"

definition write_interned_data ::
  "(nat \<Rightarrow> errno option) \<Rightarrow> (u64 option) interned_data_of \<Rightarrow> stream_id option \<Rightarrow> unit writes" where
  "write_interned_data io d sid =
     write_packet io (default_packet\<lparr>tp_interned := Some d,
       tp_sequence_flags := Some SeqIncrementalStateCleared\<rparr>) sid"

definition write_interned_data_next ::
  "(nat \<Rightarrow> errno option) \<Rightarrow> (u64 option) interned_data_of \<Rightarrow> stream_id option \<Rightarrow> unit writes" where
  "write_interned_data_next io d sid =
     write_packet io (default_packet\<lparr>tp_interned := Some d,
       tp_sequence_flags := Some SeqNeedsIncrementalState\<rparr>) sid"

text \<open>The data as the protobuf types hold it, every scalar field present.\<close>

definition proto_interned_data :: "interned_data \<Rightarrow> (u64 option) interned_data_of" where
  "proto_interned_data d =
     \<lparr>function_names = map (\<lambda>s. \<lparr>istr_iid = Some (istr_iid s), istr_str = istr_str s\<rparr>) (function_names d),
      frames = map (\<lambda>f. \<lparr>frm_iid = Some (frm_iid f), function_name_id = Some (function_name_id f),
                        mapping_id = Some (mapping_id f), rel_pc = Some (rel_pc f)\<rparr>) (frames d),
      callstacks = map (\<lambda>c. \<lparr>cs_iid = Some (cs_iid c), frame_ids = map Some (frame_ids c)\<rparr>) (callstacks d),
      mappings = map (\<lambda>m. \<lparr>map_iid = Some (map_iid m), build_id = Some (build_id m),
                          exact_offset = Some (exact_offset m), start_offset = Some (start_offset m),
                          map_start = Some (map_start m), map_end = Some (map_end m),
                          load_bias = Some (load_bias m),
                          path_string_ids = map Some (path_string_ids m)\<rparr>) (mappings d),
      build_ids = map (\<lambda>s. \<lparr>istr_iid = Some (istr_iid s), istr_str = istr_str s\<rparr>) (build_ids d),
      continuation = False\<rparr>"

definition write_protocol_interned_data ::
  "(nat \<Rightarrow> errno option) \<Rightarrow> interned_data \<Rightarrow> stream_id option \<Rightarrow> unit writes" where
  "write_protocol_interned_data io d sid =
     (if continuation d then write_interned_data_next io (proto_interned_data d) sid
      else write_interned_data io (proto_interned_data d) sid)"

definition write_process_descriptor :: "(nat \<Rightarrow> errno option) \<Rightarrow> u32 \<Rightarrow> string option \<Rightarrow> u64 writes" where
  "write_process_descriptor io pid name =
     bindE next_track_uuid (\<lambda>uuid.
       bindE (write_packet io (descriptor_packet (default_track_descriptor\<lparr>td_uuid := Some uuid,
                td_process := Some \<lparr>pd_pid = Some (ucast pid), pd_name = name\<rparr>\<rparr>)) None)
         (\<lambda>_. returnE uuid))"

definition write_instant_event ::
  "(nat \<Rightarrow> errno option) \<Rightarrow> u64 \<Rightarrow> string \<Rightarrow> u64 \<Rightarrow> debug_annotation list \<Rightarrow> unit writes" where
  "write_instant_event io uuid name ts anns =
     write_packet io (event_packet (default_track_event\<lparr>te_name := Some name, te_track_uuid := Some uuid,
       te_type := Some TypeInstant, te_annotations := anns\<rparr>) ts) None"

definition write_generic_track :: "(nat \<Rightarrow> errno option) \<Rightarrow> string \<Rightarrow> u64 \<Rightarrow> u64 writes" where
  "write_generic_track io name parent =
     bindE next_track_uuid (\<lambda>uuid.
       bindE (write_packet io (descriptor_packet (default_track_descriptor\<lparr>td_uuid := Some uuid,
                td_parent_uuid := (if 0 < parent then Some parent else None), td_name := Some name\<rparr>)) None)
         (\<lambda>_. returnE uuid))"

definition write_counter_track ::
  "(nat \<Rightarrow> errno option) \<Rightarrow> string \<Rightarrow> string option \<Rightarrow> u64 \<Rightarrow> u64 writes" where
  "write_counter_track io name unit parent =
     bindE next_track_uuid (\<lambda>uuid.
       bindE (write_packet io (descriptor_packet (default_track_descriptor\<lparr>td_uuid := Some uuid,
                td_parent_uuid := Some parent, td_name := Some name,
                td_counter := Some \<lparr>unit_name = unit\<rparr>\<rparr>)) None)
         (\<lambda>_. returnE uuid))"

definition write_counter_value :: "(nat \<Rightarrow> errno option) \<Rightarrow> u64 \<Rightarrow> i64 \<Rightarrow> u64 \<Rightarrow> unit writes" where
  "write_counter_value io uuid v ts =
     write_packet io (event_packet (default_track_event\<lparr>te_track_uuid := Some uuid, te_type := Some TypeCounter,
       te_counter := Some (CounterValue v)\<rparr>) ts) None"

definition write_double_counter_value :: "(nat \<Rightarrow> errno option) \<Rightarrow> u64 \<Rightarrow> f64_bits \<Rightarrow> u64 \<Rightarrow> unit writes" where
  "write_double_counter_value io uuid v ts =
     write_packet io (event_packet (default_track_event\<lparr>te_track_uuid := Some uuid, te_type := Some TypeCounter,
       te_counter := Some (DoubleCounterValue v)\<rparr>) ts) None"

definition write_perf_sample ::
  "(nat \<Rightarrow> errno option) \<Rightarrow> u32 \<Rightarrow> u32 \<Rightarrow> u32 \<Rightarrow> u64 \<Rightarrow> u64 \<Rightarrow> stream_id option \<Rightarrow> unit writes" where
  "write_perf_sample io cpu pid tid ts iid sid =
     write_packet io (default_packet\<lparr>tp_data := Some (PerfSample \<lparr>ps_cpu = Some cpu, ps_pid = Some pid,
         ps_tid = Some tid, ps_callstack_iid = Some iid, ps_timebase_count = Some 1\<rparr>),
       tp_timestamp := Some ts, tp_trusted_pid := Some (ucast pid)\<rparr>) sid"

definition create_debug_annotation :: "string \<Rightarrow> debug_value \<Rightarrow> debug_annotation" where
  "create_debug_annotation name v = \<lparr>da_name = Some name, da_value = Some v\<rparr>"

section \<open>Well-formed traces\<close>

text \<open>
  A trace is well formed when every event and every parent reference (0 apart, which stands
  for no parent) names a track that an earlier packet describes.
\<close>

definition desc_uuid :: "trace_packet \<Rightarrow> u64 option" where
  "desc_uuid p = (case tp_data p of Some (TrackDescriptor d) \<Rightarrow> td_uuid d | _ \<Rightarrow> None)"

definition refs :: "trace_packet \<Rightarrow> u64 set" where
  "refs p = (case tp_data p of
       Some (TrackDescriptor d) \<Rightarrow> set_option (td_parent_uuid d) - {0}
     | Some (TrackEvent e) \<Rightarrow> set_option (te_track_uuid e)
     | _ \<Rightarrow> {})"

definition described :: "trace_packet list \<Rightarrow> u64 set" where
  "described ps = {u. \<exists>p \<in> set ps. desc_uuid p = Some u}"

definition wf_trace :: "trace_packet list \<Rightarrow> bool" where
  "wf_trace ps \<longleftrightarrow> (\<forall>k < length ps. refs (ps ! k) \<subseteq> described (take k ps))"

lemma described_simps [simp]:
  "described [] = {}" "described (ps @ qs) = described ps \<union> described qs"
  "described (p # ps) = set_option (desc_uuid p) \<union> described ps"
  by (auto simp: described_def)

lemma wf_trace_Nil [simp]: "wf_trace []"
  by (simp add: wf_trace_def)

lemma wf_trace_snoc [simp]: "wf_trace (ps @ [p]) \<longleftrightarrow> wf_trace ps \<and> refs p \<subseteq> described ps"
  by (auto simp: wf_trace_def nth_append less_Suc_eq)

lemma packet_uuids [simp]:
  "desc_uuid (p\<lparr>tp_sequence_id := s\<rparr>) = desc_uuid p" "refs (p\<lparr>tp_sequence_id := s\<rparr>) = refs p"
  "desc_uuid (descriptor_packet d) = td_uuid d" "refs (descriptor_packet d) = set_option (td_parent_uuid d) - {0}"
  "desc_uuid (event_packet e ts) = None" "refs (event_packet e ts) = set_option (te_track_uuid e)"
  "desc_uuid default_packet = None" "refs default_packet = {}"
  "desc_uuid (p\<lparr>tp_interned := i\<rparr>) = desc_uuid p" "refs (p\<lparr>tp_interned := i\<rparr>) = refs p"
  "desc_uuid (p\<lparr>tp_sequence_flags := f\<rparr>) = desc_uuid p" "refs (p\<lparr>tp_sequence_flags := f\<rparr>) = refs p"
  by (simp_all add: desc_uuid_def refs_def descriptor_packet_def event_packet_def default_packet_def)

text \<open>The writer's invariant, with room for \<open>k\<close> more track identifiers.\<close>

definition winv :: "nat \<Rightarrow> stream_writer \<Rightarrow> bool" where
  "winv k w \<longleftrightarrow> wf_trace (written w) \<and> 1000 \<le> unat (track_uuid_counter w) \<and>
     unat (track_uuid_counter w) + k < 2 ^ 64 \<and>
     (\<forall>u \<in> described (written w). 1000 \<le> unat u \<and> unat u < unat (track_uuid_counter w))"

lemma winv_mono: "winv k w \<Longrightarrow> j \<le> k \<Longrightarrow> winv j w"
  by (auto simp: winv_def)

text \<open>Writing a packet that refers to described tracks only, and describes known ones.\<close>

lemma write_packet_inv:
  assumes "winv k w" and "refs p \<subseteq> described (written w)"
    and "\<And>u. desc_uuid p = Some u \<Longrightarrow> 1000 \<le> unat u \<and> unat u < unat (track_uuid_counter w)"
  shows "case write_packet io p sid w of
      (Inr _, w') \<Rightarrow> winv k w' \<and> described (written w') = described (written w) \<union> set_option (desc_uuid p) \<and>
        track_uuid_counter w' = track_uuid_counter w
    | (Inl _, w') \<Rightarrow> winv k w' \<and> described (written w') = described (written w) \<and>
        track_uuid_counter w' = track_uuid_counter w"
proof (cases "io (write_calls w)")
  case None
  let ?w = "snd (write_packet io p sid w)"
  have w: "described (written ?w) = described (written w) \<union> set_option (desc_uuid p)"
    "track_uuid_counter ?w = track_uuid_counter w" "wf_trace (written ?w)"
    using None assms(1,2) by (simp_all add: write_packet_def Let_def winv_def)
  then have "winv k ?w" using assms(1,3) by (auto simp: winv_def)
  with w None show ?thesis by (simp add: write_packet_def Let_def)
next
  case (Some e)
  then show ?thesis using assms(1) by (simp add: write_packet_def Let_def winv_def)
qed

text \<open>Allocating an identifier and describing a new track with it.\<close>

definition new_track :: "(nat \<Rightarrow> errno option) \<Rightarrow> (u64 \<Rightarrow> track_descriptor) \<Rightarrow> u64 writes" where
  "new_track io d =
     bindE next_track_uuid (\<lambda>uuid. bindE (write_packet io (descriptor_packet (d uuid)) None) (\<lambda>_. returnE uuid))"

lemma new_track_inv:
  assumes inv: "winv (Suc k) w" and d: "\<And>u. td_uuid (d u) = Some u"
    and parent: "\<And>u. set_option (td_parent_uuid (d u)) - {0} \<subseteq> described (written w)"
  shows "case new_track io d w of
      (Inr u, w') \<Rightarrow> winv k w' \<and> u \<notin> described (written w) \<and> u \<noteq> 0 \<and>
        described (written w') = insert u (described (written w))
    | (Inl _, w') \<Rightarrow> winv k w' \<and> described (written w') = described (written w)"
proof -
  let ?u = "track_uuid_counter w" and ?w = "w\<lparr>track_uuid_counter := track_uuid_counter w + 1\<rparr>"
  have c: "unat (?u + 1) = unat ?u + 1"
    using inv by (simp add: winv_def unat_add_small)
  have w: "winv k ?w" using inv c by (auto simp: winv_def)
  have fresh: "?u \<notin> described (written w)" "?u \<noteq> 0"
    using inv by (auto simp: winv_def)
  have "refs (descriptor_packet (d ?u)) \<subseteq> described (written ?w)" using parent [of ?u] by simp
  note wp = write_packet_inv [OF w this, of io None]
  have "case write_packet io (descriptor_packet (d ?u)) None ?w of
      (Inr _, w') \<Rightarrow> winv k w' \<and> described (written w') = insert ?u (described (written w))
    | (Inl _, w') \<Rightarrow> winv k w' \<and> described (written w') = described (written w)"
    using wp inv c d by (auto simp: winv_def split: prod.splits sum.splits)
  then show ?thesis
    using fresh by (auto simp: new_track_def next_track_uuid_def Let_def bindE_def returnE_def
        split: prod.splits sum.splits)
qed

lemma new_track_eqs:
  "write_thread_descriptor io pid tid name parent = new_track io (\<lambda>uuid. default_track_descriptor\<lparr>td_uuid := Some uuid,
       td_parent_uuid := Some parent,
       td_thread := Some \<lparr>thd_pid = Some (ucast pid), thd_tid = Some (ucast tid), thd_name = name\<rparr>\<rparr>)"
  "write_process_descriptor io pid name = new_track io (\<lambda>uuid. default_track_descriptor\<lparr>td_uuid := Some uuid,
       td_process := Some \<lparr>pd_pid = Some (ucast pid), pd_name = name\<rparr>\<rparr>)"
  "write_generic_track io name' parent = new_track io (\<lambda>uuid. default_track_descriptor\<lparr>td_uuid := Some uuid,
       td_parent_uuid := (if 0 < parent then Some parent else None), td_name := Some name'\<rparr>)"
  "write_counter_track io name' unit parent = new_track io (\<lambda>uuid. default_track_descriptor\<lparr>td_uuid := Some uuid,
       td_parent_uuid := Some parent, td_name := Some name', td_counter := Some \<lparr>unit_name = unit\<rparr>\<rparr>)"
  by (simp_all add: new_track_def write_thread_descriptor_def write_thread_descriptor_with_uuid_def
      write_process_descriptor_def write_generic_track_def write_counter_track_def)

end
