(* ===== verification/Converter.thy ===== *)
theory Converter
  imports Perfetto
begin

text \<open>
  \<^verbatim>\<open>kinetrace/src/converter.rs\<close> and \<^verbatim>\<open>label_iter.rs\<close>: events of the protocol are turned into
  trace packets; tracks are described on first use. Archived events are converted through
  the integers' conversion functions (record \<open>natives\<close>). Every function keeps the state it
  reached when a write fails, as the code does.
\<close>

record converter =
  cv_writer :: stream_writer
  track_map :: "track_id \<Rightarrow> u64 option"

type_synonym 'a converts = "(converter, errno, 'a) comp"

definition converter_new :: converter where
  "converter_new = \<lparr>cv_writer = stream_writer_new, track_map = Map.empty\<rparr>"

definition writer :: "'a writes \<Rightarrow> 'a converts" where
  "writer m c = (case m (cv_writer c) of (r, w) \<Rightarrow> (r, c\<lparr>cv_writer := w\<rparr>))"

definition insert_track :: "track_id \<Rightarrow> u64 \<Rightarrow> unit converts" where
  "insert_track t uuid c = (Inr (), c\<lparr>track_map := (track_map c)(t \<mapsto> uuid)\<rparr>)"

definition ensure_process_track :: "(nat \<Rightarrow> errno option) \<Rightarrow> i32 \<Rightarrow> string option \<Rightarrow> u64 converts" where
  "ensure_process_track io pid name c =
     (case track_map c (Process pid) of
        Some uuid \<Rightarrow> (Inr uuid, c)
      | None \<Rightarrow>
          bindE (writer (write_process_descriptor io (ucast pid) name))
            (\<lambda>uuid. bindE (insert_track (Process pid) uuid) (\<lambda>_. returnE uuid)) c)"

definition ensure_thread_track :: "(nat \<Rightarrow> errno option) \<Rightarrow> i32 \<Rightarrow> i32 \<Rightarrow> string option \<Rightarrow> u64 converts" where
  "ensure_thread_track io pid tid name c =
     (case track_map c (Thread tid pid) of
        Some uuid \<Rightarrow>
          (if name \<noteq> None
           then bindE (ensure_process_track io pid None)
                  (\<lambda>process_uuid. bindE (writer (write_thread_descriptor_with_uuid io uuid (ucast pid) (ucast tid)
                                                  name process_uuid)) (\<lambda>_. returnE uuid)) c
           else (Inr uuid, c))
      | None \<Rightarrow>
          bindE (ensure_process_track io pid None)
            (\<lambda>process_uuid. bindE (writer (write_thread_descriptor io (ucast pid) (ucast tid) name process_uuid))
               (\<lambda>uuid. bindE (insert_track (Thread tid pid) uuid) (\<lambda>_. returnE uuid))) c)"

definition create_debug_annotations :: "labels \<Rightarrow> debug_annotation list" where
  "create_debug_annotations l =
     map (\<lambda>(k, v). create_debug_annotation k (DString v)) (strings l) @
     map (\<lambda>(k, v). create_debug_annotation k (DInt v)) (ints l) @
     map (\<lambda>(k, v). create_debug_annotation k (DBool v)) (bools l) @
     map (\<lambda>(k, v). create_debug_annotation k (DDouble v)) (floats l)"

definition convert_interned_data ::
  "(nat \<Rightarrow> errno option) \<Rightarrow> interned_data \<Rightarrow> stream_id option \<Rightarrow> unit converts" where
  "convert_interned_data io d sid = writer (write_protocol_interned_data io d sid)"

definition convert_counter :: "(nat \<Rightarrow> errno option) \<Rightarrow> track_id \<Rightarrow> f64_bits \<Rightarrow> u64 \<Rightarrow> unit converts" where
  "convert_counter io t v ts c =
     (case track_map c t of
        Some uuid \<Rightarrow> writer (write_double_counter_value io uuid v ts) c
      | None \<Rightarrow> (Inr (), c))"

text \<open>The track of a span or an instant: looked up, or created for threads and processes;
  \<open>None\<close> when the event is dropped.\<close>

definition event_track :: "(nat \<Rightarrow> errno option) \<Rightarrow> track_id \<Rightarrow> (u64 option) converts" where
  "event_track io t c =
     (case track_map c t of
        Some uuid \<Rightarrow> (Inr (Some uuid), c)
      | None \<Rightarrow>
          (case t of
             Thread tid pid \<Rightarrow> bindE (ensure_thread_track io pid tid None)
                                 (\<lambda>uuid. bindE (insert_track t uuid) (\<lambda>_. returnE (Some uuid))) c
           | Process pid \<Rightarrow> bindE (ensure_process_track io pid None)
                                 (\<lambda>uuid. bindE (insert_track t uuid) (\<lambda>_. returnE (Some uuid))) c
           | _ \<Rightarrow> (Inr None, c)))"

definition convert_span ::
  "(nat \<Rightarrow> errno option) \<Rightarrow> track_id \<Rightarrow> string \<Rightarrow> u64 \<Rightarrow> u64 \<Rightarrow> labels \<Rightarrow> unit converts" where
  "convert_span io t name t0 t1 l =
     bindE (event_track io t) (\<lambda>r. case r of
        None \<Rightarrow> returnE ()
      | Some uuid \<Rightarrow>
          bindE (writer (write_slice_begin io uuid name t0 (create_debug_annotations l)))
            (\<lambda>_. writer (write_slice_end io uuid t1)))"

definition convert_instant ::
  "(nat \<Rightarrow> errno option) \<Rightarrow> track_id \<Rightarrow> string \<Rightarrow> u64 \<Rightarrow> labels \<Rightarrow> unit converts" where
  "convert_instant io t name ts l =
     bindE (event_track io t) (\<lambda>r. case r of
        None \<Rightarrow> returnE ()
      | Some uuid \<Rightarrow> writer (write_instant_event io uuid name ts (create_debug_annotations l)))"

definition parent_uuid :: "(nat \<Rightarrow> errno option) \<Rightarrow> track_type option \<Rightarrow> u64 converts" where
  "parent_uuid io parent c =
     (case parent of
        None \<Rightarrow> (Inr 0, c)
      | Some p \<Rightarrow>
          (case track_map c (to_id p) of
             Some uuid \<Rightarrow> (Inr uuid, c)
           | None \<Rightarrow>
               (case p of
                  TyThread tid pid \<Rightarrow> bindE (ensure_thread_track io pid tid None)
                     (\<lambda>uuid. bindE (insert_track (to_id p) uuid) (\<lambda>_. returnE uuid)) c
                | TyProcess pid \<Rightarrow> bindE (ensure_process_track io pid None)
                     (\<lambda>uuid. bindE (insert_track (to_id p) uuid) (\<lambda>_. returnE uuid)) c
                | _ \<Rightarrow> (Inr 0, c))))"

definition own_track :: "(nat \<Rightarrow> errno option) \<Rightarrow> track \<Rightarrow> u64 \<Rightarrow> u64 converts" where
  "own_track io t parent =
     (case trk_type t of
        TyCpu cpu \<Rightarrow> writer (write_generic_track io (trk_name t) parent)
      | TyCustom i \<Rightarrow> writer (write_generic_track io (trk_name t) parent)
      | TyCounter i unit \<Rightarrow> writer (write_counter_track io (trk_name t) unit parent)
      | TyThread tid pid \<Rightarrow> ensure_thread_track io pid tid (Some (trk_name t))
      | TyProcess pid \<Rightarrow> ensure_process_track io pid (Some (trk_name t)))"

definition convert_track :: "(nat \<Rightarrow> errno option) \<Rightarrow> track \<Rightarrow> unit converts" where
  "convert_track io t c =
     (let tid = to_id (trk_type t) in
      if track_map c tid \<noteq> None then (Inr (), c)
      else bindE (parent_uuid io (trk_parent t))
             (\<lambda>p. bindE (own_track io t p) (\<lambda>uuid. insert_track tid uuid)) c)"

fun convert_event :: "(nat \<Rightarrow> errno option) \<Rightarrow> event \<Rightarrow> stream_id option \<Rightarrow> unit converts" where
  "convert_event io (EInternedData d) sid = convert_interned_data io d sid"
| "convert_event io (ESample s) sid =
     (case smp_track_id s of
        Thread tid pid \<Rightarrow> writer (write_perf_sample io (smp_cpu s) (ucast pid) (ucast tid) (smp_timestamp s)
                                   (callstack_iid s) sid)
      | _ \<Rightarrow> returnE ())"
| "convert_event io (ECounter k) sid = convert_counter io (ctr_track_id k) (ctr_value k) (ctr_timestamp k)"
| "convert_event io (ESpan s) sid =
     convert_span io (span_track_id s) (span_name s) (start_timestamp s) (end_timestamp s) (span_labels s)"
| "convert_event io (EInstant i) sid =
     convert_instant io (inst_track_id i) (inst_name i) (inst_timestamp i) (inst_labels i)"
| "convert_event io (ETrack t) sid = convert_track io t"

fun convert_message :: "(nat \<Rightarrow> errno option) \<Rightarrow> message \<Rightarrow> unit converts" where
  "convert_message io (MEvent e) = convert_event io e None"
| "convert_message io (MStream sid e) = convert_event io e (Some sid)"

section \<open>Archived events\<close>

record ('u, 'i, 'q, 'l, 'f, 'h) natives =
  nat_u32 :: "'u \<Rightarrow> u32"
  nat_i32 :: "'i \<Rightarrow> i32"
  nat_u64 :: "'q \<Rightarrow> u64"
  nat_i64 :: "'l \<Rightarrow> i64"
  nat_f64 :: "'f \<Rightarrow> f64_bits"
  nat_u16 :: "'h \<Rightarrow> u16"

record ('l, 'f) archived_labels =
  a_strings :: "(string \<times> string) list"
  a_ints :: "(string \<times> 'l) list"
  a_bools :: "(string \<times> bool) list"
  a_floats :: "(string \<times> 'f) list"

record ('u, 'i, 'q, 'l, 'f) archived_span =
  as_name :: string
  as_span_id :: 'q
  as_start :: 'q
  as_end :: 'q
  as_track_id :: "('u, 'i, 'q) track_id_of"
  as_labels :: "('l, 'f) archived_labels"

record ('u, 'i, 'q, 'l, 'f) archived_instant =
  ai_name :: string
  ai_timestamp :: 'q
  ai_track_id :: "('u, 'i, 'q) track_id_of"
  ai_labels :: "('l, 'f) archived_labels"

record ('u, 'i, 'q, 'l, 'f) archived_counter =
  ac_name :: string
  ac_value :: 'f
  ac_timestamp :: 'q
  ac_track_id :: "('u, 'i, 'q) track_id_of"
  ac_labels :: "('l, 'f) archived_labels"
  ac_unit :: "string option"

record ('u, 'i, 'q) archived_sample =
  asm_cpu :: 'u
  asm_track_id :: "('u, 'i, 'q) track_id_of"
  asm_timestamp :: 'q
  asm_callstack_iid :: 'q
  asm_cpu_mode :: cpu_mode

record ('u, 'i, 'q) archived_track =
  at_name :: string
  at_type :: "('u, 'i, 'q) track_type_of"
  at_parent :: "('u, 'i, 'q) track_type_of option"

datatype ('u, 'i, 'q, 'l, 'f) archived_event =
    ACounter "('u, 'i, 'q, 'l, 'f) archived_counter"
  | ASpan "('u, 'i, 'q, 'l, 'f) archived_span"
  | AInstant "('u, 'i, 'q, 'l, 'f) archived_instant"
  | AInternedData "'q interned_data_of"
  | ASample "('u, 'i, 'q) archived_sample"
  | ATrack "('u, 'i, 'q) archived_track"

datatype ('u, 'i, 'q, 'l, 'f, 'h) archived_message =
    AMEvent "('u, 'i, 'q, 'l, 'f) archived_event"
  | AMStream 'h "('u, 'i, 'q, 'l, 'f) archived_event"

text \<open>What the label iterators yield on archived labels.\<close>

definition archived_label_iter :: "('u, 'i, 'q, 'l, 'f, 'h) natives \<Rightarrow> ('l, 'f) archived_labels \<Rightarrow> labels" where
  "archived_label_iter n l =
     \<lparr>strings = a_strings l, ints = map (\<lambda>(k, v). (k, nat_i64 n v)) (a_ints l), bools = a_bools l,
      floats = map (\<lambda>(k, v). (k, nat_f64 n v)) (a_floats l)\<rparr>"

abbreviation native_track_id :: "('u, 'i, 'q, 'l, 'f, 'h) natives \<Rightarrow> ('u, 'i, 'q) track_id_of \<Rightarrow> track_id" where
  "native_track_id n \<equiv> track_id_to_native (nat_u32 n) (nat_i32 n) (nat_u64 n)"

abbreviation native_track_type :: "('u, 'i, 'q, 'l, 'f, 'h) natives \<Rightarrow> ('u, 'i, 'q) track_type_of \<Rightarrow> track_type" where
  "native_track_type n \<equiv> track_type_to_native (nat_u32 n) (nat_i32 n) (nat_u64 n)"

definition convert_archived_counter ::
  "('u, 'i, 'q, 'l, 'f, 'h) natives \<Rightarrow> (nat \<Rightarrow> errno option) \<Rightarrow> ('u, 'i, 'q, 'l, 'f) archived_counter \<Rightarrow> unit converts" where
  "convert_archived_counter n io k c =
     (let t = native_track_id n (ac_track_id k)
      in case track_map c t of
           Some uuid \<Rightarrow> writer (write_double_counter_value io uuid (nat_f64 n (ac_value k))
                                 (nat_u64 n (ac_timestamp k))) c
         | None \<Rightarrow> (Inr (), c))"

fun convert_archived_event ::
  "('u, 'i, 'q, 'l, 'f, 'h) natives \<Rightarrow> (nat \<Rightarrow> errno option) \<Rightarrow> ('u, 'i, 'q, 'l, 'f) archived_event
   \<Rightarrow> stream_id option \<Rightarrow> unit converts" where
  "convert_archived_event n io (AInternedData d) sid =
     convert_interned_data io (interned_data_to_native (nat_u64 n) d) sid"
| "convert_archived_event n io (ASample s) sid =
     (case asm_track_id s of
        Thread tid pid \<Rightarrow> writer (write_perf_sample io (nat_u32 n (asm_cpu s)) (ucast (nat_i32 n pid))
             (ucast (nat_i32 n tid)) (nat_u64 n (asm_timestamp s)) (nat_u64 n (asm_callstack_iid s)) sid)
      | _ \<Rightarrow> returnE ())"
| "convert_archived_event n io (ACounter k) sid = convert_archived_counter n io k"
| "convert_archived_event n io (ASpan s) sid =
     (let t = native_track_id n (as_track_id s)
      in convert_span io t (as_name s) (nat_u64 n (as_start s)) (nat_u64 n (as_end s))
           (archived_label_iter n (as_labels s)))"
| "convert_archived_event n io (AInstant i) sid =
     (let t = native_track_id n (ai_track_id i)
      in convert_instant io t (ai_name i) (nat_u64 n (ai_timestamp i)) (archived_label_iter n (ai_labels i)))"
| "convert_archived_event n io (ATrack t) sid =
     convert_track io \<lparr>trk_name = at_name t, trk_type = native_track_type n (at_type t),
       trk_parent = map_option (native_track_type n) (at_parent t)\<rparr>"

fun convert_archived_message ::
  "('u, 'i, 'q, 'l, 'f, 'h) natives \<Rightarrow> (nat \<Rightarrow> errno option) \<Rightarrow> ('u, 'i, 'q, 'l, 'f, 'h) archived_message
   \<Rightarrow> unit converts" where
  "convert_archived_message n io (AMEvent e) = convert_archived_event n io e None"
| "convert_archived_message n io (AMStream h e) = convert_archived_event n io e (Some (nat_u16 n h))"

section \<open>The converter's invariant\<close>

text \<open>
  The trace written so far is well formed, every track in the map is described in it, and
  different tracks have different identifiers. \<open>CI k m0\<close> adds that the map extends \<open>m0\<close>.
\<close>

definition descs :: "converter \<Rightarrow> u64 set" where
  "descs c = described (written (cv_writer c))"

definition cinv :: "nat \<Rightarrow> converter \<Rightarrow> bool" where
  "cinv k c \<longleftrightarrow> winv k (cv_writer c) \<and> ran (track_map c) \<subseteq> descs c \<and>
     (\<forall>t t' u. track_map c t = Some u \<and> track_map c t' = Some u \<longrightarrow> t = t')"

definition CI :: "nat \<Rightarrow> (track_id \<Rightarrow> u64 option) \<Rightarrow> converter \<Rightarrow> bool" where
  "CI k m0 c \<longleftrightarrow> cinv k c \<and> m0 \<subseteq>\<^sub>m track_map c"

lemma CI_mono: "CI k m0 c \<Longrightarrow> j \<le> k \<Longrightarrow> CI j m0 c"
  using winv_mono by (auto simp: CI_def cinv_def)

lemma CI_described: "CI k m0 c \<Longrightarrow> track_map c t = Some u \<Longrightarrow> u \<in> descs c"
  by (auto simp: CI_def cinv_def ran_def)

lemma hoare_new_track:
  assumes d: "\<And>u. td_uuid (d u) = Some u"
  shows "hoareE (\<lambda>c. CI (Suc k) m0 c \<and> (\<forall>u. set_option (td_parent_uuid (d u)) - {0} \<subseteq> descs c))
           (writer (new_track io d)) (\<lambda>u c. CI k m0 c \<and> u \<in> descs c \<and> u \<notin> ran (track_map c)) (CI k m0)"
  unfolding hoareE_def
proof (intro allI impI, elim conjE)
  fix c
  assume I: "CI (Suc k) m0 c" and p: "\<forall>u. set_option (td_parent_uuid (d u)) - {0} \<subseteq> descs c"
  have w: "winv (Suc k) (cv_writer c)" and ran: "ran (track_map c) \<subseteq> descs c"
    and inj: "\<forall>t t' u. track_map c t = Some u \<and> track_map c t' = Some u \<longrightarrow> t = t'"
    and m0: "m0 \<subseteq>\<^sub>m track_map c"
    using I by (auto simp: CI_def cinv_def)
  have out: "case new_track io d (cv_writer c) of
      (Inr u, w') \<Rightarrow> winv k w' \<and> u \<notin> descs c \<and> u \<noteq> 0 \<and> described (written w') = insert u (descs c)
    | (Inl _, w') \<Rightarrow> winv k w' \<and> described (written w') = descs c"
    unfolding descs_def by (rule new_track_inv [OF w d]) (use p in \<open>simp add: descs_def\<close>)
  show "case writer (new_track io d) c of
      (Inr u, c) \<Rightarrow> CI k m0 c \<and> u \<in> descs c \<and> u \<notin> ran (track_map c) | (Inl e, c) \<Rightarrow> CI k m0 c"
  proof (cases "new_track io d (cv_writer c)")
    case (Pair r w')
    show ?thesis
    proof (cases r)
      case (Inl e)
      with Pair out ran inj m0 show ?thesis by (simp add: writer_def CI_def cinv_def descs_def)
    next
      case (Inr u)
      with Pair out have w': "winv k w'" "u \<notin> descs c" "described (written w') = insert u (descs c)" by auto
      let ?c = "c\<lparr>cv_writer := w'\<rparr>"
      have d': "descs ?c = insert u (descs c)" using w'(3) by (simp add: descs_def)
      then have "CI k m0 ?c" using w'(1) ran inj m0 by (auto simp: CI_def cinv_def)
      moreover have "u \<in> descs ?c" "u \<notin> ran (track_map ?c)" using w'(2) d' ran by auto
      ultimately show ?thesis using Pair Inr by (simp add: writer_def)
    qed
  qed
qed

lemma hoare_packet:
  "hoareE (\<lambda>c. CI k m0 c \<and> refs p \<subseteq> descs c \<and> set_option (desc_uuid p) \<subseteq> descs c)
     (writer (write_packet io p sid)) (\<lambda>_. CI k m0) (CI k m0)"
  unfolding hoareE_def
proof (intro allI impI, elim conjE)
  fix c
  assume I: "CI k m0 c" and p: "refs p \<subseteq> descs c" "set_option (desc_uuid p) \<subseteq> descs c"
  have w: "winv k (cv_writer c)" using I by (simp add: CI_def cinv_def)
  then have "1000 \<le> unat u \<and> unat u < unat (track_uuid_counter (cv_writer c))" if "desc_uuid p = Some u" for u
    using that p(2) by (auto simp: winv_def descs_def)
  note out = write_packet_inv [OF w p(1) [unfolded descs_def] this, of io sid]
  have same: "described (written (cv_writer c)) \<union> set_option (desc_uuid p) = descs c"
    using p(2) by (auto simp: descs_def)
  show "case writer (write_packet io p sid) c of (Inr a, c) \<Rightarrow> CI k m0 c | (Inl e, c) \<Rightarrow> CI k m0 c"
    using out I same by (auto simp: writer_def CI_def cinv_def descs_def split: prod.splits sum.splits)
qed

lemma CI_insert:
  assumes "m0 t = None" "CI k m0 c" "u \<in> descs c" "u \<notin> ran (track_map c)"
  shows "CI k m0 (c\<lparr>track_map := (track_map c)(t \<mapsto> u)\<rparr>)"
proof -
  let ?m = "(track_map c)(t \<mapsto> u)"
  have w: "winv k (cv_writer c)" and ran: "ran (track_map c) \<subseteq> descs c" and m0: "m0 \<subseteq>\<^sub>m track_map c"
    and inj: "\<And>a b v. track_map c a = Some v \<Longrightarrow> track_map c b = Some v \<Longrightarrow> a = b"
    using assms(2) unfolding CI_def cinv_def by blast+
  have new: "track_map c a \<noteq> Some u" for a
    using assms(4) by (simp add: ran_def)
  have "m0 \<subseteq>\<^sub>m ?m"
    using m0 assms(1) by (auto simp: map_le_def)
  moreover have "ran ?m \<subseteq> descs c"
    using ran_upd_subset [of "track_map c" t u] ran assms(3) by blast
  moreover have "x = y" if "?m x = Some v" "?m y = Some v" for x y v
    using that new [of x] new [of y] inj [of x v y] by (simp split: if_splits)
  ultimately show ?thesis
    using w by (simp add: CI_def cinv_def descs_def del: fun_upd_apply)
qed

lemma hoare_insert_fresh:
  assumes "m0 t = None"
  shows "hoareE (\<lambda>c. CI k m0 c \<and> u \<in> descs c \<and> u \<notin> ran (track_map c)) (insert_track t u)
           (\<lambda>_ c. CI k m0 c \<and> track_map c t = Some u) E"
  using CI_insert [of m0 t, OF assms] by (simp add: hoareE_def insert_track_def)

lemma insert_track_same: "track_map c t = Some u \<Longrightarrow> insert_track t u c = (Inr (), c)"
proof -
  assume "track_map c t = Some u"
  then have "(track_map c)(t \<mapsto> u) = track_map c" by (rule fun_upd_idem)
  then show ?thesis by (simp add: insert_track_def del: fun_upd_apply)
qed

lemma hoare_insert_same:
  "hoareE (\<lambda>c. CI k m0 c \<and> track_map c t = Some u) (insert_track t u)
     (\<lambda>_ c. CI k m0 c \<and> track_map c t = Some u) E"
  by (simp add: hoareE_def insert_track_same)

lemma hoare_same: "(\<And>c. P c \<Longrightarrow> Q a c) \<Longrightarrow> hoareE P (\<lambda>c. (Inr a, c)) Q E"
  by (simp add: hoareE_def)

lemma CI_trans: "CI k m c \<Longrightarrow> m0 \<subseteq>\<^sub>m m \<Longrightarrow> CI k m0 c"
  unfolding CI_def using map_le_trans by blast

lemma CI_None: "CI k m0 c \<Longrightarrow> track_map c t = None \<Longrightarrow> m0 t = None"
  unfolding CI_def map_le_def by (metis domIff)

lemma CI_Some: "CI k m c \<Longrightarrow> m t = Some u \<Longrightarrow> track_map c t = Some u"
  unfolding CI_def map_le_def by (metis domI)

lemma CI_Some_described: "CI k m c \<Longrightarrow> m t = Some u \<Longrightarrow> u \<in> descs c"
  using CI_described CI_Some by metis

lemma CI_self: "CI k m0 c \<Longrightarrow> CI k (track_map c) c"
  by (simp add: CI_def)

text \<open>One triple per function: the budget counts the identifiers it may allocate.\<close>

lemma hoare_ensure_process_track:
  "hoareE (CI (Suc k) m0) (ensure_process_track io pid name)
     (\<lambda>u c. CI k m0 c \<and> track_map c (Process pid) = Some u) (CI k m0)" (is "hoareE _ _ ?Q ?E")
proof (rule hoareE_at)
  fix s
  assume I: "CI (Suc k) m0 s"
  show "hoareE ((=) s) (ensure_process_track io pid name) ?Q ?E"
  proof (cases "track_map s (Process pid)")
    case None
    have "hoareE (CI (Suc k) m0) (bindE (writer (write_process_descriptor io (ucast pid) name))
        (\<lambda>uuid. bindE (insert_track (Process pid) uuid) (\<lambda>_. returnE uuid))) ?Q ?E"
      unfolding new_track_eqs
      by (rule hoareE_bindE, rule hoareE_pre [OF hoare_new_track], simp, simp add: default_track_descriptor_def,
          rule hoareE_bindE, rule hoare_insert_fresh, rule CI_None [OF I None], rule hoareE_returnE)
    then show ?thesis
      by (rule hoareE_case) (use I None in \<open>simp_all add: ensure_process_track_def\<close>)
  next
    case (Some u)
    have "hoareE (\<lambda>c. CI (Suc k) m0 c \<and> track_map c (Process pid) = Some u) (\<lambda>c. (Inr u, c)) ?Q ?E"
      by (rule hoare_same) (auto intro: CI_mono)
    then show ?thesis
      by (rule hoareE_case) (use I Some in \<open>simp_all add: ensure_process_track_def\<close>)
  qed
qed

text \<open>Describing a thread again under the identifier it already has.\<close>

lemma hoare_rename_thread:
  fixes tid :: i32
  assumes "m t = Some u" and "m0 \<subseteq>\<^sub>m m"
  shows "hoareE (CI (Suc k) m) (bindE (ensure_process_track io pid None)
      (\<lambda>p. bindE (writer (write_thread_descriptor_with_uuid io u (ucast pid) (ucast tid) name p)) (\<lambda>_. returnE u)))
      (\<lambda>u c. CI k m0 c \<and> track_map c t = Some u) (CI k m0)"
proof (rule hoareE_bindE [OF hoareE_weaken [OF hoare_ensure_process_track]], assumption, assumption)
  show "CI k m c \<Longrightarrow> CI k m0 c" for c using CI_trans [OF _ assms(2)] .
next
  fix p
  let ?p = "descriptor_packet (default_track_descriptor\<lparr>td_uuid := Some u, td_parent_uuid := Some p,
      td_thread := Some \<lparr>thd_pid = Some (ucast (ucast pid :: u32)), thd_tid = Some (ucast (ucast tid :: u32)),
        thd_name = name\<rparr>\<rparr>)"
  have "hoareE (\<lambda>c. CI k m c \<and> track_map c (Process pid) = Some p) (writer (write_packet io ?p None))
      (\<lambda>_. CI k m) (CI k m)"
    using CI_described CI_Some_described [of _ m _ t u, OF _ assms(1)]
    by (intro hoareE_pre [OF hoare_packet]) auto
  then have "hoareE (\<lambda>c. CI k m c \<and> track_map c (Process pid) = Some p) (writer (write_packet io ?p None))
      (\<lambda>_. CI k m) (CI k m0)"
    by (rule hoareE_weaken) (use assms(2) in \<open>auto intro: CI_trans\<close>)
  then show "hoareE (\<lambda>c. CI k m c \<and> track_map c (Process pid) = Some p)
      (bindE (writer (write_thread_descriptor_with_uuid io u (ucast pid) (ucast tid) name p)) (\<lambda>_. returnE u))
      (\<lambda>u c. CI k m0 c \<and> track_map c t = Some u) (CI k m0)"
    unfolding write_thread_descriptor_with_uuid_def
    by (rule hoareE_bindE) (rule hoareE_returnE, use CI_Some [of _ m _ t u, OF _ assms(1)] CI_trans [OF _ assms(2)] in blast)
qed

lemma hoare_ensure_thread_track:
  "hoareE (CI (Suc (Suc k)) m0) (ensure_thread_track io pid tid name)
     (\<lambda>u c. CI k m0 c \<and> track_map c (Thread tid pid) = Some u) (CI k m0)" (is "hoareE _ _ ?Q ?E")
proof (rule hoareE_at)
  fix s
  assume I: "CI (Suc (Suc k)) m0 s"
  let ?proc = "ensure_process_track io pid None"
  show "hoareE ((=) s) (ensure_thread_track io pid tid name) ?Q ?E"
  proof (cases "track_map s (Thread tid pid)")
    case None
    have "hoareE (CI (Suc (Suc k)) m0) (bindE ?proc
        (\<lambda>p. bindE (writer (write_thread_descriptor io (ucast pid) (ucast tid) name p))
           (\<lambda>uuid. bindE (insert_track (Thread tid pid) uuid) (\<lambda>_. returnE uuid)))) ?Q ?E"
      unfolding new_track_eqs
    proof (rule hoareE_bindE [OF hoareE_weaken [OF hoare_ensure_process_track]], assumption, assumption)
      show "CI k m0 s" if "CI (Suc k) m0 s" for s using CI_mono that by auto
    next
      fix p
      show "hoareE (\<lambda>c. CI (Suc k) m0 c \<and> track_map c (Process pid) = Some p)
         (bindE (writer (new_track io (\<lambda>uuid. default_track_descriptor\<lparr>td_uuid := Some uuid,
               td_parent_uuid := Some p, td_thread := Some \<lparr>thd_pid = Some (ucast (ucast pid :: u32)),
               thd_tid = Some (ucast (ucast tid :: u32)), thd_name = name\<rparr>\<rparr>)))
           (\<lambda>uuid. bindE (insert_track (Thread tid pid) uuid) (\<lambda>_. returnE uuid))) ?Q ?E"
        by (rule hoareE_bindE, rule hoareE_pre [OF hoare_new_track], simp,
            use CI_described in \<open>auto simp: default_track_descriptor_def\<close>,
            rule hoareE_bindE, rule hoare_insert_fresh, rule CI_None [OF I None], rule hoareE_returnE)
    qed
    then show ?thesis
      by (rule hoareE_case) (use I None in \<open>simp_all add: ensure_thread_track_def\<close>)
  next
    case (Some u)
    have m: "m0 \<subseteq>\<^sub>m track_map s" using I by (simp add: CI_def)
    note I' = CI_mono [OF CI_self [OF I], of "Suc k"]
    show ?thesis
    proof (cases "name = None")
      case True
      have "hoareE (\<lambda>c. CI (Suc (Suc k)) m0 c \<and> track_map c (Thread tid pid) = Some u) (\<lambda>c. (Inr u, c)) ?Q ?E"
        by (rule hoare_same) (auto intro: CI_mono)
      then show ?thesis
        by (rule hoareE_case) (use I Some True in \<open>simp_all add: ensure_thread_track_def\<close>)
    next
      case False
      show ?thesis
        by (rule hoareE_case [OF hoare_rename_thread [of "track_map s" _ u m0 k io pid tid name, OF Some m]])
           (use I' False Some in \<open>simp_all add: ensure_thread_track_def\<close>)
    qed
  qed
qed

text \<open>Creating a thread's or a process's track and entering it in the map once more.\<close>

lemma hoare_ensured:
  assumes "hoareE P m (\<lambda>u c. CI k m0 c \<and> track_map c t = Some u) (CI k m0)"
  shows "hoareE P (bindE m (\<lambda>u. bindE (insert_track t u) (\<lambda>_. returnE (f u))))
           (\<lambda>r c. \<exists>u. r = f u \<and> CI k m0 c \<and> track_map c t = Some u) (CI k m0)"
  by (rule hoareE_bindE [OF assms], rule hoareE_bindE [OF hoare_insert_same], rule hoareE_returnE) blast

lemma hoare_event_track:
  "hoareE (CI (Suc (Suc k)) m0) (event_track io t)
     (\<lambda>r c. CI k m0 c \<and> (\<forall>u. r = Some u \<longrightarrow> track_map c t = Some u)) (CI k m0)" (is "hoareE _ _ ?Q ?E")
proof (rule hoareE_at)
  fix s
  assume I: "CI (Suc (Suc k)) m0 s"
  have keep: "hoareE (\<lambda>c. CI (Suc (Suc k)) m0 c \<and> (\<forall>u. r = Some u \<longrightarrow> track_map c t = Some u)) (\<lambda>c. (Inr r, c)) ?Q ?E" for r
    by (rule hoare_same) (auto intro: CI_mono)
  show "hoareE ((=) s) (event_track io t) ?Q ?E"
  proof (cases "track_map s t")
    case (Some u)
    show ?thesis
      by (rule hoareE_case [OF keep [of "Some u"]]) (use I Some in \<open>simp_all add: event_track_def\<close>)
  next
    case none: None
    show ?thesis
    proof (cases t)
      case (Thread tid pid)
      have "hoareE (CI (Suc (Suc k)) m0) (bindE (ensure_thread_track io pid tid None)
          (\<lambda>uuid. bindE (insert_track t uuid) (\<lambda>_. returnE (Some uuid)))) ?Q ?E"
        unfolding Thread by (rule hoareE_weaken [OF hoare_ensured [OF hoare_ensure_thread_track, where f = Some]]) auto
      then show ?thesis
        by (rule hoareE_case) (use I none Thread in \<open>simp_all add: event_track_def\<close>)
    next
      case (Process pid)
      have "hoareE (CI (Suc k) m0) (bindE (ensure_process_track io pid None)
          (\<lambda>uuid. bindE (insert_track t uuid) (\<lambda>_. returnE (Some uuid)))) ?Q ?E"
        unfolding Process by (rule hoareE_weaken [OF hoare_ensured [OF hoare_ensure_process_track, where f = Some]]) auto
      then show ?thesis
        by (rule hoareE_case) (use CI_mono [OF I, of "Suc k"] none Process in \<open>simp_all add: event_track_def\<close>)
    qed (rule hoareE_case [OF keep [of None]], simp add: I, use none in \<open>simp add: event_track_def\<close>)+
  qed
qed

text \<open>An event on a known track.\<close>

lemma hoare_event_packet:
  assumes "te_track_uuid e = Some u" and "m t = Some u"
  shows "hoareE (CI k m) (writer (write_packet io (event_packet e ts) sid)) (\<lambda>_. CI k m) (CI k m)"
  using CI_Some_described [of _ m _ t u, OF _ assms(2)] by (intro hoareE_pre [OF hoare_packet]) (auto simp: assms(1))

lemma hoare_slice:
  assumes "m t = Some u"
  shows "hoareE (CI k m) (bindE (writer (write_slice_begin io u name t0 anns)) (\<lambda>_. writer (write_slice_end io u t1)))
     (\<lambda>_. CI k m) (CI k m)"
  unfolding write_slice_begin_def write_slice_end_def
  by (rule hoareE_bindE [OF hoare_event_packet [where u = u and t = t]])
     (simp_all add: assms hoare_event_packet [where u = u and t = t])

lemma hoare_on_track:
  assumes "\<And>m u. m t = Some u \<Longrightarrow> hoareE (CI k m) (f u) (\<lambda>_. CI k m) (CI k m)"
  shows "hoareE (\<lambda>c. CI k m0 c \<and> track_map c t = Some u) (f u) (\<lambda>_. CI k m0) (CI k m0)"
proof (rule hoareE_at)
  fix s
  assume s: "CI k m0 s \<and> track_map s t = Some u"
  have "hoareE (CI k (track_map s)) (f u) (\<lambda>_. CI k m0) (CI k m0)"
    using assms [of "track_map s" u] s by (auto elim!: hoareE_weaken simp: CI_def intro: map_le_trans)
  then show "hoareE ((=) s) (f u) (\<lambda>_. CI k m0) (CI k m0)"
    by (rule hoareE_case) (use s in \<open>auto simp: CI_def\<close>)
qed

lemma hoare_convert_span:
  "hoareE (CI (Suc (Suc k)) m0) (convert_span io t name t0 t1 l) (\<lambda>_. CI k m0) (CI k m0)"
  unfolding convert_span_def
proof (rule hoareE_bindE [OF hoare_event_track])
  fix r :: "u64 option"
  show "hoareE (\<lambda>c. CI k m0 c \<and> (\<forall>u. r = Some u \<longrightarrow> track_map c t = Some u))
     (case r of None \<Rightarrow> returnE () | Some uuid \<Rightarrow>
        bindE (writer (write_slice_begin io uuid name t0 (create_debug_annotations l)))
          (\<lambda>_. writer (write_slice_end io uuid t1))) (\<lambda>_. CI k m0) (CI k m0)"
    by (cases r) (auto intro: hoareE_returnE hoare_on_track [OF hoare_slice])
qed

lemma hoare_convert_instant:
  "hoareE (CI (Suc (Suc k)) m0) (convert_instant io t name ts l) (\<lambda>_. CI k m0) (CI k m0)"
  unfolding convert_instant_def
proof (rule hoareE_bindE [OF hoare_event_track])
  fix r :: "u64 option"
  show "hoareE (\<lambda>c. CI k m0 c \<and> (\<forall>u. r = Some u \<longrightarrow> track_map c t = Some u))
     (case r of None \<Rightarrow> returnE () | Some uuid \<Rightarrow>
        writer (write_instant_event io uuid name ts (create_debug_annotations l))) (\<lambda>_. CI k m0) (CI k m0)"
    unfolding write_instant_event_def
    by (cases r) (auto intro: hoareE_returnE hoare_on_track [OF hoare_event_packet])
qed
lemma hoare_convert_counter:
  "hoareE (CI k m0) (convert_counter io t v ts) (\<lambda>_. CI k m0) (CI k m0)"
proof (rule hoareE_at)
  fix s
  assume I: "CI k m0 s"
  show "hoareE ((=) s) (convert_counter io t v ts) (\<lambda>_. CI k m0) (CI k m0)"
  proof (cases "track_map s t")
    case None
    have "hoareE (CI k m0) (returnE ()) (\<lambda>_. CI k m0) (CI k m0)" by (rule hoareE_returnE)
    then show ?thesis
      by (rule hoareE_case) (use I None in \<open>simp_all add: convert_counter_def returnE_def\<close>)
  next
    case (Some u)
    have "hoareE (\<lambda>c. CI k m0 c \<and> track_map c t = Some u) (writer (write_double_counter_value io u v ts))
        (\<lambda>_. CI k m0) (CI k m0)"
      unfolding write_double_counter_value_def by (rule hoare_on_track [OF hoare_event_packet]) simp_all
    then show ?thesis
      by (rule hoareE_case) (use I Some in \<open>simp_all add: convert_counter_def\<close>)
  qed
qed

lemma hoare_dataless_packet:
  "\<lbrakk>refs p = {}; desc_uuid p = None\<rbrakk> \<Longrightarrow>
   hoareE (CI k m0) (writer (write_packet io p sid)) (\<lambda>_. CI k m0) (CI k m0)"
  by (intro hoareE_pre [OF hoare_packet]) auto

lemma hoare_convert_interned_data:
  "hoareE (CI k m0) (convert_interned_data io d sid) (\<lambda>_. CI k m0) (CI k m0)"
  by (simp add: convert_interned_data_def write_protocol_interned_data_def write_interned_data_def
      write_interned_data_next_def hoare_dataless_packet)

lemma hoare_write_perf_sample:
  "hoareE (CI k m0) (writer (write_perf_sample io cpu pid tid ts iid sid)) (\<lambda>_. CI k m0) (CI k m0)"
  unfolding write_perf_sample_def by (rule hoare_dataless_packet) (simp_all add: refs_def desc_uuid_def)

text \<open>The parent's identifier is 0 or that of a described track.\<close>

lemma hoare_parent_uuid:
  "hoareE (CI (Suc (Suc k)) m0) (parent_uuid io parent) (\<lambda>u c. CI k m0 c \<and> (u = 0 \<or> u \<in> descs c)) (CI k m0)"
  (is "hoareE _ _ ?Q ?E")
proof (rule hoareE_at)
  fix s
  assume I: "CI (Suc (Suc k)) m0 s"
  have keep: "hoareE (\<lambda>c. CI (Suc (Suc k)) m0 c \<and> (u = 0 \<or> u \<in> descs c)) (\<lambda>c. (Inr u, c)) ?Q ?E" for u
    by (rule hoare_same) (auto intro: CI_mono)
  have known: "hoareE ((=) s) (parent_uuid io parent) ?Q ?E"
    if "parent_uuid io parent s = (Inr u, s)" "u = 0 \<or> u \<in> descs s" for u
    by (rule hoareE_case [OF keep [of u]]) (use that I in simp_all)
  show "hoareE ((=) s) (parent_uuid io parent) ?Q ?E"
  proof (cases parent)
    case None
    then show ?thesis by (intro known [of 0]) (simp_all add: parent_uuid_def)
  next
    case par: (Some p)
    show ?thesis
    proof (cases "track_map s (to_id p)")
      case (Some u)
      then show ?thesis
        using CI_described [OF I Some] par by (intro known [of u]) (simp_all add: parent_uuid_def)
    next
      case none: None
      show ?thesis
      proof (cases p)
        case (TyThread tid pid)
        have "hoareE (CI (Suc (Suc k)) m0) (bindE (ensure_thread_track io pid tid None)
            (\<lambda>uuid. bindE (insert_track (Thread tid pid) uuid) (\<lambda>_. returnE uuid))) ?Q ?E"
          by (rule hoareE_weaken [OF hoare_ensured [OF hoare_ensure_thread_track, where f = "\<lambda>u. u"]])
             (auto dest: CI_described)
        then show ?thesis
          by (rule hoareE_case) (use I none par TyThread in \<open>simp_all add: parent_uuid_def\<close>)
      next
        case (TyProcess pid)
        have "hoareE (CI (Suc k) m0) (bindE (ensure_process_track io pid None)
            (\<lambda>uuid. bindE (insert_track (Process pid) uuid) (\<lambda>_. returnE uuid))) ?Q ?E"
          by (rule hoareE_weaken [OF hoare_ensured [OF hoare_ensure_process_track, where f = "\<lambda>u. u"]])
             (auto dest: CI_described)
        then show ?thesis
          by (rule hoareE_case) (use CI_mono [OF I, of "Suc k"] none par TyProcess in \<open>simp_all add: parent_uuid_def\<close>)
      qed (rule known [of 0], use none par in \<open>simp add: parent_uuid_def\<close>, simp)+
    qed
  qed
qed
lemma hoare_own_track:
  "hoareE (\<lambda>c. CI (Suc (Suc k)) m0 c \<and> (p = 0 \<or> p \<in> descs c)) (own_track io t p)
     (\<lambda>u c. CI k m0 c \<and> u \<in> descs c \<and> (u \<notin> ran (track_map c) \<or> track_map c (to_id (trk_type t)) = Some u)) (CI k m0)"
  (is "hoareE ?P _ ?Q ?E")
proof -
  have fresh: "hoareE ?P (own_track io t p) ?Q ?E"
    if "own_track io t p = writer (new_track io d)" "\<And>u. td_uuid (d u) = Some u" "\<And>u. set_option (td_parent_uuid (d u)) - {0} \<subseteq> {p} - {0}" for d
    unfolding that(1) by (rule hoareE_weaken [OF hoare_new_track [where d = d and k = "Suc k"]])
       (use that(2,3) in \<open>auto intro: CI_mono\<close>)
  show ?thesis
  proof (cases "trk_type t")
    case (TyThread tid pid)
    have "hoareE ?P (ensure_thread_track io pid tid (Some (trk_name t))) ?Q ?E"
      by (rule hoareE_weaken [OF hoare_ensure_thread_track]) (auto simp: TyThread dest: CI_described)
    then show ?thesis by (simp add: own_track_def TyThread)
  next
    case (TyProcess pid)
    have "hoareE ?P (ensure_process_track io pid (Some (trk_name t))) ?Q ?E"
      by (rule hoareE_weaken [OF hoare_ensure_process_track [where k = "Suc k"]])
         (auto simp: TyProcess dest: CI_described intro: CI_mono)
    then show ?thesis by (simp add: own_track_def TyProcess)
  next
    case (TyCpu n)
    then have "own_track io t p = writer (write_generic_track io (trk_name t) p)" by (simp add: own_track_def)
    then show ?thesis unfolding new_track_eqs by (rule fresh) (simp_all add: default_track_descriptor_def)
  next
    case (TyCustom n)
    then have "own_track io t p = writer (write_generic_track io (trk_name t) p)" by (simp add: own_track_def)
    then show ?thesis unfolding new_track_eqs by (rule fresh) (simp_all add: default_track_descriptor_def)
  next
    case (TyCounter n unit)
    then have "own_track io t p = writer (write_counter_track io (trk_name t) unit p)" by (simp add: own_track_def)
    then show ?thesis unfolding new_track_eqs by (rule fresh) (simp_all add: default_track_descriptor_def)
  qed
qed

lemma hoare_convert_track:
  "hoareE (CI (k + 4) m0) (convert_track io t) (\<lambda>_. CI k m0) (CI k m0)" (is "hoareE _ _ ?Q ?E")
proof (rule hoareE_at)
  fix s
  assume I: "CI (k + 4) m0 s"
  let ?tid = "to_id (trk_type t)"
  show "hoareE ((=) s) (convert_track io t) ?Q ?E"
  proof (cases "track_map s ?tid")
    case (Some u)
    have "hoareE (CI k m0) (returnE ()) ?Q ?E" by (rule hoareE_returnE)
    then show ?thesis
      by (rule hoareE_case) (use CI_mono [OF I] Some in \<open>simp_all add: convert_track_def returnE_def\<close>)
  next
    case None
    have m0: "m0 ?tid = None" by (rule CI_None [OF I None])
    have ins: "hoareE (\<lambda>c. CI k m0 c \<and> u \<in> descs c \<and> (u \<notin> ran (track_map c) \<or> track_map c ?tid = Some u))
        (insert_track ?tid u) ?Q ?E" for u
      by (rule hoareE_weaken [OF hoareE_disj [OF hoare_insert_fresh [of m0 ?tid k u, OF m0]
                                                 hoare_insert_same [of k m0 ?tid u]]]) blast+
    have "hoareE (CI (k + 4) m0) (bindE (parent_uuid io (trk_parent t))
        (\<lambda>p. bindE (own_track io t p) (\<lambda>uuid. insert_track ?tid uuid))) ?Q ?E"
    proof (rule hoareE_bindE [OF hoareE_weaken [OF hoare_parent_uuid [where k = "k + 2"]]])
      show "CI (k + 2) m0 c \<Longrightarrow> CI k m0 c" for c by (erule CI_mono) simp
    qed (simp add: numeral_eq_Suc, assumption, rule hoareE_bindE [OF _ ins], rule hoareE_pre [OF hoare_own_track], simp)
    then show ?thesis
      by (rule hoareE_case) (use I None in \<open>simp_all add: convert_track_def\<close>)
  qed
qed

lemma hoare_convert_event:
  "hoareE (CI (k + 4) m0) (convert_event io e sid) (\<lambda>_. CI k m0) (CI k m0)"
proof -
  have weak: "hoareE (CI (k + 4) m0) m (\<lambda>_. CI k m0) (CI k m0)"
    if "hoareE (CI j m0) m (\<lambda>_. CI k m0) (CI k m0)" "j \<le> k + 4" for m :: "unit converts" and j
    by (rule hoareE_pre [OF that(1)]) (use CI_mono that(2) in blast)
  show ?thesis
    by (cases e) (auto intro: weak hoare_convert_interned_data hoare_convert_counter hoare_convert_span
        hoare_convert_instant hoare_convert_track hoare_write_perf_sample hoareE_returnE split: track_id_of.split)
qed
section \<open>Sequences of messages\<close>

text \<open>
  The callers log a failed conversion and go on with the state it left
  (\<^verbatim>\<open>kinetrace.rs\<close> 121-126 and 191-197).
\<close>

fun convert_all :: "(nat \<Rightarrow> errno option) \<Rightarrow> message list \<Rightarrow> converter \<Rightarrow> converter" where
  "convert_all io [] c = c"
| "convert_all io (m # ms) c = convert_all io ms (snd (convert_message io m c))"

lemma convert_all_append: "convert_all io (ms @ ms') c = convert_all io ms' (convert_all io ms c)"
  by (induction ms arbitrary: c) simp_all

lemma hoare_convert_message: "hoareE (CI (k + 4) m0) (convert_message io m) (\<lambda>_. CI k m0) (CI k m0)"
  by (cases m) (simp_all add: hoare_convert_event)

lemma convert_all_CI: "CI (k + 4 * length ms) m0 c \<Longrightarrow> CI k m0 (convert_all io ms c)"
proof (induction ms arbitrary: c)
  case (Cons m ms)
  have "k + 4 * length (m # ms) = (k + 4 * length ms) + 4" by simp
  with Cons.prems have "CI (k + 4 * length ms) m0 (snd (convert_message io m c))"
    using hoareE_snd [OF hoare_convert_message] by metis
  with Cons.IH show ?case by simp
qed simp

lemma converter_new_CI: "1000 + k < 2 ^ 64 \<Longrightarrow> CI k Map.empty converter_new"
  by (simp add: CI_def cinv_def winv_def converter_new_def stream_writer_new_def descs_def)

text \<open>
  C4: whatever messages a new converter is given (fewer than \<open>2\<^sup>6\<^sup>2\<close>) and whichever writes fail,
  every event and every parent in the trace names a track described earlier in it, every
  track of the map is described, and two tracks never share an identifier.
\<close>

theorem trace_well_formed:
  assumes "length ms < 2 ^ 62 - 1000"
  shows "wf_trace (written (cv_writer (convert_all io ms converter_new))) \<and>
    ran (track_map (convert_all io ms converter_new)) \<subseteq> described (written (cv_writer (convert_all io ms converter_new))) \<and>
    inj_on (track_map (convert_all io ms converter_new)) (dom (track_map (convert_all io ms converter_new)))"
proof -
  have "CI (0 + 4 * length ms) Map.empty converter_new"
    by (rule converter_new_CI) (use assms in simp)
  then have I: "CI 0 Map.empty (convert_all io ms converter_new)" by (rule convert_all_CI)
  then have "inj_on (track_map (convert_all io ms converter_new)) (dom (track_map (convert_all io ms converter_new)))"
    unfolding CI_def cinv_def inj_on_def dom_def by (smt (verit) mem_Collect_eq option.collapse)
  with I show ?thesis by (simp add: CI_def cinv_def winv_def descs_def)
qed

text \<open>A span on a new thread and a failing third write.\<close>

definition sample_span :: span where
  "sample_span = \<lparr>span_name = ''work'', span_id = 3, start_timestamp = 10, end_timestamp = 20, span_track_id = Thread 7 5,
     span_labels = \<lparr>strings = [], ints = [], bools = [], floats = []\<rparr>\<rparr>"

theorem trace_well_formed_witness:
  "length (written (cv_writer (convert_all (\<lambda>k. if k = 2 then Some 28 else None)
      [MEvent (ESpan sample_span), MEvent (ESpan sample_span)] converter_new))) = 4 \<and>
   wf_trace (written (cv_writer (convert_all (\<lambda>k. if k = 2 then Some 28 else None)
      [MEvent (ESpan sample_span), MEvent (ESpan sample_span)] converter_new)))"
proof (rule conjI)
  show "length (written (cv_writer (convert_all (\<lambda>k. if k = 2 then Some 28 else None)
      [MEvent (ESpan sample_span), MEvent (ESpan sample_span)] converter_new))) = 4"
    by (simp add: sample_span_def converter_new_def stream_writer_new_def convert_span_def event_track_def
        ensure_thread_track_def ensure_process_track_def bindE_def returnE_def writer_def insert_track_def
        new_track_eqs new_track_def next_track_uuid_def write_packet_def write_slice_begin_def write_slice_end_def
        Let_def)
  show "wf_trace (written (cv_writer (convert_all (\<lambda>k. if k = 2 then Some 28 else None)
      [MEvent (ESpan sample_span), MEvent (ESpan sample_span)] converter_new)))"
    using trace_well_formed [of "[MEvent (ESpan sample_span), MEvent (ESpan sample_span)]"] by simp
qed
section \<open>Archived and native events\<close>

text \<open>The native event an archived one stands for.\<close>

fun event_to_native :: "('u, 'i, 'q, 'l, 'f, 'h) natives \<Rightarrow> ('u, 'i, 'q, 'l, 'f) archived_event \<Rightarrow> event" where
  "event_to_native n (ACounter k) = ECounter \<lparr>ctr_name = ac_name k, ctr_value = nat_f64 n (ac_value k),
     ctr_timestamp = nat_u64 n (ac_timestamp k), ctr_track_id = native_track_id n (ac_track_id k),
     ctr_labels = archived_label_iter n (ac_labels k), ctr_unit = ac_unit k\<rparr>"
| "event_to_native n (ASpan s) = ESpan \<lparr>span_name = as_name s, span_id = nat_u64 n (as_span_id s),
     start_timestamp = nat_u64 n (as_start s), end_timestamp = nat_u64 n (as_end s),
     span_track_id = native_track_id n (as_track_id s), span_labels = archived_label_iter n (as_labels s)\<rparr>"
| "event_to_native n (AInstant i) = EInstant \<lparr>inst_name = ai_name i, inst_timestamp = nat_u64 n (ai_timestamp i),
     inst_track_id = native_track_id n (ai_track_id i), inst_labels = archived_label_iter n (ai_labels i)\<rparr>"
| "event_to_native n (AInternedData d) = EInternedData (interned_data_to_native (nat_u64 n) d)"
| "event_to_native n (ASample s) = ESample \<lparr>smp_cpu = nat_u32 n (asm_cpu s),
     smp_track_id = native_track_id n (asm_track_id s), smp_timestamp = nat_u64 n (asm_timestamp s),
     callstack_iid = nat_u64 n (asm_callstack_iid s), smp_cpu_mode = asm_cpu_mode s\<rparr>"
| "event_to_native n (ATrack t) = ETrack \<lparr>trk_name = at_name t, trk_type = native_track_type n (at_type t),
     trk_parent = map_option (native_track_type n) (at_parent t)\<rparr>"

fun message_to_native :: "('u, 'i, 'q, 'l, 'f, 'h) natives \<Rightarrow> ('u, 'i, 'q, 'l, 'f, 'h) archived_message \<Rightarrow> message" where
  "message_to_native n (AMEvent e) = MEvent (event_to_native n e)"
| "message_to_native n (AMStream h e) = MStream (nat_u16 n h) (event_to_native n e)"

lemma archived_event_matches_native:
  "convert_archived_event n io e sid = convert_event io (event_to_native n e) sid"
proof (cases e)
  case (ASample s)
  then show ?thesis by (cases "asm_track_id s") simp_all
next
  case (ACounter k)
  then show ?thesis by (simp add: fun_eq_iff convert_archived_counter_def convert_counter_def Let_def)
qed (simp_all add: Let_def)


section \<open>Spans\<close>

lemma event_track_known: "event_track io t c = (Inr (Some u), c') \<Longrightarrow> track_map c' t = Some u"
  by (auto simp: event_track_def bindE_def insert_track_def returnE_def split: option.splits track_id_of.splits
      prod.splits sum.splits)

lemma event_track_dropped:
  "event_track io t c = (Inr None, c') \<Longrightarrow> c' = c \<and> track_map c t = None \<and> (\<forall>a b. t \<noteq> Thread a b) \<and> (\<forall>a. t \<noteq> Process a)"
  by (auto simp: event_track_def bindE_def insert_track_def returnE_def split: option.splits track_id_of.splits
      prod.splits sum.splits)

lemma writer_packet_Inr:
  "writer (write_packet io p sid) c = (Inr r, c') \<Longrightarrow> track_map c' = track_map c \<and>
     written (cv_writer c') = written (cv_writer c) @ [p\<lparr>tp_sequence_id := Some (case sid of Some i \<Rightarrow> ucast i | None \<Rightarrow> - 1)\<rparr>]"
  by (auto simp: writer_def write_packet_def Let_def split: option.splits)

text \<open>
  C31: when a span is converted without error, the last two packets are a begin and an end on
  the same track, adjacent, with the span's times, its name and one annotation per label, on
  the track the map now gives for the span; otherwise the span is on a track that is not
  known and is no thread or process, and then nothing at all has changed.
\<close>

theorem span_slices_adjacent:
  assumes "convert_span io t name t0 t1 l c = (Inr (), c')"
  shows "(c' = c \<and> track_map c t = None \<and> (\<forall>a b. t \<noteq> Thread a b) \<and> (\<forall>a. t \<noteq> Process a)) \<or>
    (\<exists>u pre b e. track_map c' t = Some u \<and> written (cv_writer c') = pre @ [b, e] \<and>
       tp_data b = Some (TrackEvent \<lparr>te_name = Some name, te_track_uuid = Some u, te_type = Some SliceBegin,
                                     te_annotations = create_debug_annotations l, te_counter = None\<rparr>) \<and>
       tp_timestamp b = Some t0 \<and>
       tp_data e = Some (TrackEvent \<lparr>te_name = None, te_track_uuid = Some u, te_type = Some SliceEnd,
                                     te_annotations = [], te_counter = None\<rparr>) \<and>
       tp_timestamp e = Some t1)"
proof -
  obtain r c1 where ev: "event_track io t c = (Inr r, c1)"
    using assms by (auto simp: convert_span_def bindE_def split: prod.splits sum.splits)
  show ?thesis
  proof (cases r)
    case None
    with assms ev have "c' = c1" by (simp add: convert_span_def returnE_def)
    with event_track_dropped ev None show ?thesis by blast
  next
    case (Some u)
    have "bindE (writer (write_slice_begin io u name t0 (create_debug_annotations l)))
        (\<lambda>_. writer (write_slice_end io u t1)) c1 = (Inr (), c')"
      using assms ev Some by (simp add: convert_span_def)
    then obtain c2 where "writer (write_slice_begin io u name t0 (create_debug_annotations l)) c1 = (Inr (), c2)"
        "writer (write_slice_end io u t1) c2 = (Inr (), c')"
      by (auto simp: bindE_def split: prod.splits sum.splits)
    note w = this [unfolded write_slice_begin_def write_slice_end_def, THEN writer_packet_Inr]
    have "track_map c' t = Some u" using event_track_known ev Some w by auto
    then show ?thesis
      using w by (intro disjI2 exI [of _ u] exI [of _ "written (cv_writer c1)"])
        (auto simp: event_packet_def default_packet_def default_track_event_def)
  qed
qed

theorem span_slices_adjacent_witness:
  "\<exists>c'. convert_span (\<lambda>_. None) (Thread 7 5) ''work'' 10 20 \<lparr>strings = [], ints = [], bools = [], floats = []\<rparr>
      converter_new = (Inr (), c') \<and> (\<exists>u. track_map c' (Thread 7 5) = Some u)"
proof -
  let ?r = "convert_span (\<lambda>_. None) (Thread 7 5) ''work'' 10 20 \<lparr>strings = [], ints = [], bools = [], floats = []\<rparr> converter_new"
  have "fst ?r = Inr ()"
    by (simp add: converter_new_def stream_writer_new_def convert_span_def event_track_def
        ensure_thread_track_def ensure_process_track_def bindE_def returnE_def writer_def insert_track_def
        new_track_eqs new_track_def next_track_uuid_def write_packet_def write_slice_begin_def write_slice_end_def
        Let_def)
  then have r: "?r = (Inr (), snd ?r)" by (metis prod.collapse)
  from span_slices_adjacent [OF r] r show ?thesis by blast
qed
section \<open>The shape of packets\<close>

text \<open>
  The fields a packet of each kind carries: descriptors an identifier, events a track, a
  type, a time and the payload of their type, samples a time and a process, interned data
  its sequence flags; every packet its sequence.
\<close>

fun event_ok :: "track_event \<Rightarrow> bool" where
  "event_ok e \<longleftrightarrow> te_track_uuid e \<noteq> None \<and>
     (case te_type e of
        Some SliceBegin \<Rightarrow> te_name e \<noteq> None \<and> te_counter e = None
      | Some SliceEnd \<Rightarrow> te_name e = None \<and> te_annotations e = [] \<and> te_counter e = None
      | Some TypeInstant \<Rightarrow> te_name e \<noteq> None \<and> te_counter e = None
      | Some TypeCounter \<Rightarrow> te_name e = None \<and> te_annotations e = [] \<and> te_counter e \<noteq> None
      | None \<Rightarrow> False)"

definition packet_ok :: "trace_packet \<Rightarrow> bool" where
  "packet_ok p \<longleftrightarrow> tp_sequence_id p \<noteq> None \<and>
     (case tp_data p of
        Some (TrackDescriptor d) \<Rightarrow> td_uuid d \<noteq> None \<and> tp_timestamp p = None \<and> tp_interned p = None
      | Some (TrackEvent e) \<Rightarrow> event_ok e \<and> tp_timestamp p \<noteq> None \<and> tp_interned p = None
      | Some (PerfSample s) \<Rightarrow> tp_timestamp p \<noteq> None \<and> tp_trusted_pid p \<noteq> None \<and> tp_interned p = None
      | None \<Rightarrow> tp_interned p \<noteq> None \<and> tp_sequence_flags p \<noteq> None)"

definition packets_ok :: "converter \<Rightarrow> bool" where
  "packets_ok c \<longleftrightarrow> (\<forall>p \<in> set (written (cv_writer c)). packet_ok p)"

lemmas packet_shapes = packet_ok_def event_packet_def descriptor_packet_def default_packet_def
  default_track_event_def default_track_descriptor_def

text \<open>The value of a counter packet.\<close>

definition packet_counter :: "trace_packet \<Rightarrow> counter_value option" where
  "packet_counter p = (case tp_data p of Some (TrackEvent e) \<Rightarrow> te_counter e | _ \<Rightarrow> None)"

text \<open>
  Predicates on the converter that survive entering a track, allocating an identifier and
  writing a well-shaped packet without counter value (or failing to): every conversion other
  than that of a counter keeps them.
\<close>

locale converter_invariant =
  fixes I :: "converter \<Rightarrow> bool"
  assumes keep_insert: "I c \<Longrightarrow> I (snd (insert_track t u c))"
    and keep_uuid: "I c \<Longrightarrow> I (c\<lparr>cv_writer := (cv_writer c)\<lparr>track_uuid_counter := n\<rparr>\<rparr>)"
    and keep_write: "\<lbrakk>I c; packet_ok (p\<lparr>tp_sequence_id := Some 0\<rparr>); packet_counter p = None\<rbrakk>
           \<Longrightarrow> I (snd (writer (write_packet io p sid) c))"
begin

lemma keep_bind: "\<lbrakk>I c; \<And>c. I c \<Longrightarrow> I (snd (m c)); \<And>a c. I c \<Longrightarrow> I (snd (k a c))\<rbrakk> \<Longrightarrow> I (snd (bindE m k c))"
  by (rule keeps_bindE [of I])

lemma keep_return: "I c \<Longrightarrow> I (snd (returnE a c))"
  by (rule keeps_returnE)

lemma keep_new_track:
  assumes "I c" "\<And>u. td_uuid (d u) = Some u"
  shows "I (snd (writer (new_track io d) c))"
proof -
  let ?u = "track_uuid_counter (cv_writer c)"
  let ?c = "c\<lparr>cv_writer := (cv_writer c)\<lparr>track_uuid_counter := ?u + 1\<rparr>\<rparr>"
  have "snd (writer (new_track io d) c) = snd (writer (write_packet io (descriptor_packet (d ?u)) None) ?c)"
    by (simp add: writer_def new_track_def next_track_uuid_def bindE_def returnE_def Let_def
        split: prod.split sum.split)
  moreover have "I (snd (writer (write_packet io (descriptor_packet (d ?u)) None) ?c))"
    by (rule keep_write [OF keep_uuid [OF assms(1)]])
       (simp_all add: packet_shapes assms(2) packet_counter_def)
  ultimately show ?thesis by simp
qed

lemmas keep_intros = keep_bind keep_return keep_insert keep_new_track

lemma keep_ensure_process: "I c \<Longrightarrow> I (snd (ensure_process_track io pid name c))"
  by (auto simp: ensure_process_track_def new_track_eqs intro!: keep_intros split: option.split)

lemma keep_ensure_thread: "I c \<Longrightarrow> I (snd (ensure_thread_track io pid tid name c))"
  by (auto simp: ensure_thread_track_def new_track_eqs write_thread_descriptor_with_uuid_def packet_shapes
      packet_counter_def intro!: keep_intros keep_ensure_process keep_write split: option.split)

lemma keep_event_track: "I c \<Longrightarrow> I (snd (event_track io t c))"
  by (auto simp: event_track_def intro!: keep_intros keep_ensure_process keep_ensure_thread
      split: option.split track_id_of.split)

lemma keep_parent: "I c \<Longrightarrow> I (snd (parent_uuid io p c))"
  by (auto simp: parent_uuid_def intro!: keep_intros keep_ensure_process keep_ensure_thread
      split: option.split track_type_of.split)

lemma keep_own_track: "I c \<Longrightarrow> I (snd (own_track io t p c))"
  by (auto simp: own_track_def new_track_eqs intro!: keep_intros keep_ensure_process keep_ensure_thread
      split: track_type_of.split)

lemma keep_convert_track: "I c \<Longrightarrow> I (snd (convert_track io t c))"
  by (auto simp: convert_track_def Let_def intro!: keep_intros keep_parent keep_own_track)

lemma keep_convert_span: "I c \<Longrightarrow> I (snd (convert_span io t name t0 t1 l c))"
  by (auto simp: convert_span_def write_slice_begin_def write_slice_end_def packet_shapes packet_counter_def
      intro!: keep_intros keep_event_track keep_write split: option.split)

lemma keep_convert_instant: "I c \<Longrightarrow> I (snd (convert_instant io t name ts l c))"
  by (auto simp: convert_instant_def write_instant_event_def packet_shapes packet_counter_def
      intro!: keep_intros keep_event_track keep_write split: option.split)

lemma keep_convert_event: "\<lbrakk>I c; \<And>k. e \<noteq> ECounter k\<rbrakk> \<Longrightarrow> I (snd (convert_event io e sid c))"
  by (cases e) (auto intro!: keep_convert_track keep_convert_span keep_convert_instant keep_write keep_intros
      split: track_id_of.split simp: convert_interned_data_def write_perf_sample_def
        write_protocol_interned_data_def write_interned_data_def write_interned_data_next_def packet_shapes
        packet_counter_def)

end

lemma packets_ok_write:
  assumes "packets_ok c" "packet_ok (p\<lparr>tp_sequence_id := Some 0\<rparr>)"
  shows "packets_ok (snd (writer (write_packet io p sid) c))"
proof -
  have "packet_ok (p\<lparr>tp_sequence_id := Some s\<rparr>)" for s
    using assms(2) by (simp add: packet_ok_def del: event_ok.simps split: option.splits packet_data.splits)
  with assms(1) show ?thesis
    by (auto simp: packets_ok_def writer_def write_packet_def Let_def split: option.splits)
qed

interpretation shaped: converter_invariant packets_ok
  by unfold_locales (simp_all add: packets_ok_write, simp_all add: packets_ok_def insert_track_def)

lemma packets_ok_convert_counter: "packets_ok c \<Longrightarrow> packets_ok (snd (convert_counter io t v ts c))"
  by (auto simp: convert_counter_def write_double_counter_value_def packet_shapes
      intro!: packets_ok_write split: option.split)

lemma packets_ok_convert_message: "packets_ok c \<Longrightarrow> packets_ok (snd (convert_message io m c))"
proof -
  assume ok: "packets_ok c"
  have "packets_ok (snd (convert_event io e sid c))" for e sid
    using ok shaped.keep_convert_event [of c e io sid] packets_ok_convert_counter by (cases e) simp_all
  then show ?thesis by (cases m) simp_all
qed

text \<open>
  C39: every packet a converter has written, after any messages and whichever writes fail,
  has the fields of its kind: no event without track, type or time, no counter without
  value, no descriptor without identifier, nothing without sequence.
\<close>

theorem packets_typed: "packets_ok (convert_all io ms converter_new)"
proof -
  have "packets_ok c \<Longrightarrow> packets_ok (convert_all io ms c)" for c
    by (induction ms arbitrary: c) (simp_all add: packets_ok_convert_message)
  moreover have "packets_ok converter_new" by (simp add: packets_ok_def converter_new_def stream_writer_new_def)
  ultimately show ?thesis .
qed

section \<open>Names that come late\<close>

text \<open>
  Once an event on a thread has made the converter describe the thread, converting the
  thread's track with its name changes nothing: the name never reaches the trace.
\<close>

theorem late_thread_name_lost:
  assumes "convert_instant io (Thread tid pid) name ts l c = (Inr (), c')"
  shows "convert_track io' \<lparr>trk_name = n, trk_type = TyThread tid pid, trk_parent = p\<rparr> c' = (Inr (), c')"
proof -
  obtain r c1 where ev: "event_track io (Thread tid pid) c = (Inr r, c1)"
    using assms by (auto simp: convert_instant_def bindE_def split: prod.splits sum.splits)
  then obtain u where r: "r = Some u" using event_track_dropped by (cases r) blast+
  then have "track_map c1 (Thread tid pid) = Some u" using ev event_track_known by blast
  moreover have "track_map c' = track_map c1"
    using assms ev r by (simp add: convert_instant_def write_instant_event_def writer_packet_Inr)
  ultimately show ?thesis by (simp add: convert_track_def)
qed

theorem late_thread_name_lost_witness:
  "\<exists>c'. convert_track (\<lambda>_. None) \<lparr>trk_name = ''main'', trk_type = TyThread 7 5, trk_parent = None\<rparr> c' = (Inr (), c') \<and>
     (\<exists>u. track_map c' (Thread 7 5) = Some u)"
proof -
  let ?r = "convert_instant (\<lambda>_. None) (Thread 7 5) ''tick'' 10 \<lparr>strings = [], ints = [], bools = [], floats = []\<rparr> converter_new"
  have r: "fst ?r = Inr () \<and> (\<exists>u. track_map (snd ?r) (Thread 7 5) = Some u)"
    by (simp add: converter_new_def stream_writer_new_def convert_instant_def event_track_def
        ensure_thread_track_def ensure_process_track_def bindE_def returnE_def writer_def insert_track_def
        new_track_eqs new_track_def next_track_uuid_def write_packet_def write_instant_event_def Let_def)
  then have "?r = (Inr (), snd ?r)" by (metis prod.collapse)
  from late_thread_name_lost [OF this] r show ?thesis by blast
qed
end
