(* ===== verification/Agent_Client.thy ===== *)
theory Agent_Client
  imports Agent_State
begin

text \<open>
  \<^verbatim>\<open>agent/src/client.rs\<close>: the client's side of the control protocol. The network is a
  parameter: what \<open>connect\<close> and \<open>sendmsg\<close> return, and for every reply what the four calls of
  \<open>wait_for_response\<close> return. The codec (serialiser and decoder of control messages) is a
  parameter too. A client keeps the descriptor of its open stream; everything it sends is
  recorded with the descriptors passed along.
\<close>

definition EAGAIN :: errno where "EAGAIN = 11"
definition EPIPE :: errno where "EPIPE = 32"

record codec =
  cd_ser :: "control_message \<Rightarrow> ser_prog"
  cd_access :: "bytes \<Rightarrow> control_message option"

record response_io =
  rio_epoll_new :: "errno option"
  rio_epoll_add :: "errno option"
  rio_epoll_wait :: "errno + nat"
  rio_recv :: "errno + bytes"

record exchange =
  x_connect :: "errno + fd"
  x_nonblocking :: "errno option"
  x_send :: "errno option"
  x_response :: response_io

record agent_client =
  stream :: "fd option"
  outbox :: "(fd \<times> bytes \<times> fd list) list"

definition agent_client_new :: agent_client where
  "agent_client_new = \<lparr>stream = None, outbox = []\<rparr>"

definition wait_for_response :: "response_io \<Rightarrow> agent_error + bytes" where
  "wait_for_response io =
     (case rio_epoll_new io of Some e \<Rightarrow> Inl (AgentNix e)
      | None \<Rightarrow>
     (case rio_epoll_add io of Some e \<Rightarrow> Inl (AgentNix e)
      | None \<Rightarrow>
     (case rio_epoll_wait io of Inl e \<Rightarrow> Inl (AgentNix e)
      | Inr nfds \<Rightarrow>
          if nfds = 0 then Inl (AgentIo (TimedOut ''timeout waiting for agent response''))
          else (case rio_recv io of
                  Inl e \<Rightarrow> if e = EAGAIN then Inl (AgentIo (WouldBlock ''no data available''))
                          else Inl (AgentNix e)
                | Inr bs \<Rightarrow> Inr (take 1024 bs)))))"

definition as_archived :: "codec \<Rightarrow> bytes \<Rightarrow> agent_error + control_message" where
  "as_archived cd bs =
     (case cd_access cd bs of Some m \<Rightarrow> Inr m | None \<Rightarrow> Inl (AgentArchive SerializerError))"

definition connect_or_reuse :: "exchange \<Rightarrow> agent_client \<Rightarrow> (agent_error + fd) \<times> agent_client" where
  "connect_or_reuse x c =
     (case stream c of
        Some f \<Rightarrow> (Inr f, c)
      | None \<Rightarrow>
          (case x_connect x of
             Inl e \<Rightarrow> (Inl (AgentIo (OsError e)), c)
           | Inr f \<Rightarrow>
               (case x_nonblocking x of
                  Some e \<Rightarrow> (Inl (AgentIo (OsError e)), c)
                | None \<Rightarrow> (Inr f, c\<lparr>stream := Some f\<rparr>))))"

text \<open>Serialising a message into a fresh vector of the computed length.\<close>

definition encode :: "codec \<Rightarrow> control_message \<Rightarrow> agent_error + bytes" where
  "encode cd m =
     (case compute_length (cd_ser cd m) of
        Inl e \<Rightarrow> Inl (AgentArchive e)
      | Inr n \<Rightarrow>
          (case serialize_to_buf (cd_ser cd m) (replicate (unat n) 0) of
             (Inl e, _) \<Rightarrow> Inl (AgentArchive e)
           | (Inr _, buf) \<Rightarrow> Inr buf))"

definition sendmsg :: "exchange \<Rightarrow> fd \<Rightarrow> bytes \<Rightarrow> fd list \<Rightarrow> agent_client \<Rightarrow> (errno + unit) \<times> agent_client" where
  "sendmsg x f buf fds c =
     (case x_send x of Some e \<Rightarrow> (Inl e, c) | None \<Rightarrow> (Inr (), c\<lparr>outbox := outbox c @ [(f, buf, fds)]\<rparr>))"

definition check_version :: "codec \<Rightarrow> exchange \<Rightarrow> agent_client \<Rightarrow> (agent_error + string) \<times> agent_client" where
  "check_version cd x c =
     (case connect_or_reuse x c of
        (Inl e, c1) \<Rightarrow> (Inl e, c1)
      | (Inr f, c1) \<Rightarrow>
     (case encode cd Version of
        Inl e \<Rightarrow> (Inl e, c1)
      | Inr buf \<Rightarrow>
     (case sendmsg x f buf [] c1 of
        (Inl e, c2) \<Rightarrow> (Inl (AgentNix e), c2)
      | (Inr _, c2) \<Rightarrow>
     (case wait_for_response (x_response x) of
        Inl e \<Rightarrow> (Inl e, c2)
      | Inr resp \<Rightarrow>
     (case as_archived cd resp of
        Inl e \<Rightarrow> (Inl e, c2)
      | Inr (VersionResponse v) \<Rightarrow> (Inr VERSION, c2)
      | Inr _ \<Rightarrow> (Inl (AgentIo (OtherIo ''unexpected response from agent'')), c2))))))"

record consumer_handle =
  ch_data_size :: usize
  ch_memory_fd :: fd
  ch_notification_fd :: fd

definition start_message ::
  "consumer_handle \<Rightarrow> string \<Rightarrow> timestamp_type \<Rightarrow> (string \<times> arg_value) list \<Rightarrow> control_message" where
  "start_message h filter_str ts opts =
     Start (ch_data_size h)
       \<lparr>tracing = Some \<lparr>log_filter = filter_str, timestamp_type_of = ts\<rparr>, options = opts\<rparr>"

text \<open>The second half of \<open>start_with_options\<close>, after the version check.\<close>

definition send_start ::
  "codec \<Rightarrow> exchange \<Rightarrow> consumer_handle \<Rightarrow> control_message \<Rightarrow> agent_client \<Rightarrow> (agent_error + unit) \<times> agent_client" where
  "send_start cd x h start_msg c =
     (case connect_or_reuse x c of
        (Inl e, c1) \<Rightarrow> (Inl e, c1)
      | (Inr f, c1) \<Rightarrow>
     (case encode cd start_msg of
        Inl e \<Rightarrow> (Inl e, c1)
      | Inr buf \<Rightarrow>
     (case sendmsg x f buf [ch_memory_fd h, ch_notification_fd h] c1 of
        (Inl e, c2) \<Rightarrow> (Inl (AgentNix e), c2\<lparr>stream := None\<rparr>)
      | (Inr _, c2) \<Rightarrow>
     (case wait_for_response (x_response x) of
        Inl e \<Rightarrow> (Inl e, c2\<lparr>stream := None\<rparr>)
      | Inr resp \<Rightarrow>
     (case as_archived cd resp of
        Inl e \<Rightarrow> (Inl e, c2\<lparr>stream := None\<rparr>)
      | Inr Ack \<Rightarrow> (Inr (), c2)
      | Inr (Nack e) \<Rightarrow> (Inl (AgentIo (OtherIo (''agent rejected start: '' @ e))), c2\<lparr>stream := None\<rparr>)
      | Inr _ \<Rightarrow> (Inl (AgentIo (OtherIo ''unexpected response from agent'')), c2\<lparr>stream := None\<rparr>))))))"

definition start_with_options ::
  "codec \<Rightarrow> exchange \<Rightarrow> exchange \<Rightarrow> consumer_handle \<Rightarrow> string \<Rightarrow> timestamp_type \<Rightarrow> (string \<times> arg_value) list
   \<Rightarrow> agent_client \<Rightarrow> (agent_error + unit) \<times> agent_client" where
  "start_with_options cd x1 x2 h filter_str ts opts c =
     (case check_version cd x1 c of
        (Inl e, c1) \<Rightarrow> (Inl e, c1)
      | (Inr v, c1) \<Rightarrow>
          if v \<noteq> VERSION
          then (Inl (AgentIo (OtherIo (''version mismatch: agent version '' @ v @ '' != client version '' @ VERSION))),
                c1\<lparr>stream := None\<rparr>)
          else send_start cd x2 h (start_message h filter_str ts opts) c1)"

definition start_with_timestamp where
  "start_with_timestamp cd x1 x2 h filter_str ts c = start_with_options cd x1 x2 h filter_str ts [] c"

definition client_start where
  "client_start cd x1 x2 h filter_str c = start_with_timestamp cd x1 x2 h filter_str Monotonic c"

definition stop :: "codec \<Rightarrow> exchange \<Rightarrow> agent_client \<Rightarrow> (agent_error + unit) \<times> agent_client" where
  "stop cd x c =
     (case stream c of
        None \<Rightarrow> (Inr (), c)
      | Some f \<Rightarrow>
     (case encode cd Stop of
        Inl e \<Rightarrow> (Inl e, c)
      | Inr buf \<Rightarrow>
     (case sendmsg x f buf [] c of
        (Inr _, c1) \<Rightarrow> (Inr (), c1\<lparr>stream := None\<rparr>)
      | (Inl e, c1) \<Rightarrow>
          if e = EAGAIN then (Inl (AgentIo (WouldBlock ''stop message would block'')), c1)
          else if e = EPIPE then (Inr (), c1\<lparr>stream := None\<rparr>)
          else (Inl (AgentNix e), c1))))"

definition send_continue :: "codec \<Rightarrow> exchange \<Rightarrow> agent_client \<Rightarrow> (agent_error + unit) \<times> agent_client" where
  "send_continue cd x c =
     (case stream c of
        None \<Rightarrow> (Inr (), c)
      | Some f \<Rightarrow>
     (case encode cd Continue of
        Inl e \<Rightarrow> (Inl e, c)
      | Inr buf \<Rightarrow>
     (case sendmsg x f buf [] c of
        (Inl e, c1) \<Rightarrow>
          if e = EAGAIN then (Inl (AgentIo (WouldBlock ''continue message would block'')), c1)
          else (Inl (AgentNix e), c1)
      | (Inr _, c1) \<Rightarrow>
     (case wait_for_response (x_response x) of
        Inl e \<Rightarrow> (Inl e, c1)
      | Inr resp \<Rightarrow>
     (case as_archived cd resp of
        Inl e \<Rightarrow> (Inl e, c1)
      | Inr Ack \<Rightarrow> (Inr (), c1)
      | Inr (Nack e) \<Rightarrow> (Inl (AgentIo (OtherIo e)), c1)
      | Inr _ \<Rightarrow> (Inl (AgentIo (OtherIo ''unexpected response from agent'')), c1))))))"

definition enabled :: "agent_client \<Rightarrow> bool" where
  "enabled c \<longleftrightarrow> stream c \<noteq> None"

definition keepalive :: "codec \<Rightarrow> exchange \<Rightarrow> agent_client \<Rightarrow> (agent_error + unit) \<times> agent_client" where
  "keepalive cd x c = (if enabled c then send_continue cd x c else (Inl AgentNotEnabled, c))"

section \<open>Properties\<close>

definition reply :: "codec \<Rightarrow> exchange \<Rightarrow> control_message option" where
  "reply cd x = (case wait_for_response (x_response x) of Inl e \<Rightarrow> None | Inr bs \<Rightarrow> cd_access cd bs)"

lemma check_version_Inr:
  assumes "check_version cd x c = (Inr v, c')"
  shows "v = VERSION \<and> (\<exists>f buf v'. stream c' = Some f \<and> encode cd Version = Inr buf \<and>
     reply cd x = Some (VersionResponse v') \<and> outbox c' = outbox c @ [(f, buf, [])])"
  using assms
  by (auto simp: check_version_def reply_def sendmsg_def as_archived_def connect_or_reuse_def
      split: prod.splits sum.splits option.splits control_message.splits)

lemma send_start_outcome:
  assumes "stream c = Some f" and "send_start cd x h m c = (res, c')" and "encode cd m = Inr buf"
  shows "(res = Inr () \<longleftrightarrow> x_send x = None \<and> reply cd x = Some Ack) \<and> (enabled c' \<longleftrightarrow> res = Inr ()) \<and>
    (res = Inr () \<longrightarrow> outbox c' = outbox c @ [(f, buf, [ch_memory_fd h, ch_notification_fd h])])"
  using assms
  by (auto simp: send_start_def connect_or_reuse_def reply_def sendmsg_def as_archived_def enabled_def
      split: sum.splits option.splits control_message.splits)

lemma check_version_Inl:
  assumes "check_version cd x c = (Inl e, c')" and "encode cd Version = Inr buf"
  shows "x_send x \<noteq> None \<or> (\<forall>v. reply cd x \<noteq> Some (VersionResponse v)) \<or>
         stream c = None \<and> ((\<exists>e. x_connect x = Inl e) \<or> x_nonblocking x \<noteq> None)"
  using assms
  by (auto simp: check_version_def reply_def sendmsg_def as_archived_def connect_or_reuse_def
      split: prod.splits sum.splits option.splits control_message.splits)

text \<open>
  C25: \<open>start_with_options\<close> succeeds exactly when the agent answers the version request with
  a version response and the start request with an acknowledgement; it then has sent exactly
  these two requests, the second with the ring's two descriptors, and the client is enabled.
  If the version check passed but the start did not, the client is disabled again.
\<close>

theorem start_outcome:
  assumes "start_with_options cd x1 x2 h flt ts opts c = (res, c')"
    and "encode cd Version = Inr b1" and "encode cd (start_message h flt ts opts) = Inr b2"
  shows "(res = Inr () \<longrightarrow>
            (\<exists>f v. stream c' = Some f \<and> reply cd x1 = Some (VersionResponse v) \<and> reply cd x2 = Some Ack \<and>
               outbox c' = outbox c @ [(f, b1, []), (f, b2, [ch_memory_fd h, ch_notification_fd h])])) \<and>
         (res \<noteq> Inr () \<and> (\<exists>w c1. check_version cd x1 c = (Inr w, c1)) \<longrightarrow> \<not> enabled c') \<and>
         (res \<noteq> Inr () \<longrightarrow> x_send x1 \<noteq> None \<or> x_send x2 \<noteq> None \<or> reply cd x2 \<noteq> Some Ack \<or>
            (\<forall>v. reply cd x1 \<noteq> Some (VersionResponse v)) \<or>
            stream c = None \<and> ((\<exists>e. x_connect x1 = Inl e) \<or> x_nonblocking x1 \<noteq> None))"
proof (cases "check_version cd x1 c")
  case (Pair r c1)
  show ?thesis
  proof (cases r)
    case (Inl e)
    then have "res = Inl e" using assms(1) Pair by (simp add: start_with_options_def)
    with Inl Pair check_version_Inl [of cd x1 c e c1] assms(2) show ?thesis by auto
  next
    case (Inr v)
    from check_version_Inr [of cd x1 c v c1] Pair Inr obtain f buf v' where
      cv: "v = VERSION" "stream c1 = Some f" "encode cd Version = Inr buf"
        "reply cd x1 = Some (VersionResponse v')" "outbox c1 = outbox c @ [(f, buf, [])]" by auto
    then have ss: "send_start cd x2 h (start_message h flt ts opts) c1 = (res, c')"
      using assms(1) Pair Inr by (simp add: start_with_options_def)
    note so = send_start_outcome [OF cv(2) ss assms(3)]
    have "stream c' = Some f" if "res = Inr ()"
      using ss that cv(2) by (auto simp: send_start_def connect_or_reuse_def sendmsg_def
          split: sum.splits option.splits control_message.splits)
    with so cv assms(2) show ?thesis by auto
  qed
qed

definition ok_response :: "bytes \<Rightarrow> response_io" where
  "ok_response bs = \<lparr>rio_epoll_new = None, rio_epoll_add = None, rio_epoll_wait = Inr 1, rio_recv = Inr bs\<rparr>"

definition ok_exchange :: "bytes \<Rightarrow> exchange" where
  "ok_exchange bs = \<lparr>x_connect = Inr 7, x_nonblocking = None, x_send = None, x_response = ok_response bs\<rparr>"

text \<open>A codec that tags each kind of message with one byte.\<close>

fun toy_tag :: "control_message \<Rightarrow> u8" where
  "toy_tag (Start n a) = 0"
| "toy_tag Stop = 1"
| "toy_tag Continue = 2"
| "toy_tag Ack = 3"
| "toy_tag (Nack e) = 4"
| "toy_tag Version = 5"
| "toy_tag (VersionResponse v) = 6"

definition toy_codec :: codec where
  "toy_codec = \<lparr>cd_ser = (\<lambda>m. SWrite [toy_tag m] SDone),
     cd_access = (\<lambda>bs. if bs = [3] then Some Ack else if bs = [6] then Some (VersionResponse VERSION) else None)\<rparr>"

lemma toy_encode: "encode toy_codec m = Inr [toy_tag m]"
  by (simp add: encode_def toy_codec_def compute_length_def counting_write_def counting_writer_new_def
      serialize_to_buf_def slice_writer_new_def slice_write_def copy_from_slice_def)

lemma toy_access:
  "cd_access toy_codec [6] = Some (VersionResponse VERSION)" "cd_access toy_codec [3] = Some Ack"
  by (simp_all add: toy_codec_def)

lemma encode_cong: "cd_ser cd = cd_ser cd' \<Longrightarrow> encode cd m = encode cd' m"
  by (simp only: encode_def)

theorem start_outcome_witness:
  "\<exists>c'. start_with_options toy_codec (ok_exchange [6]) (ok_exchange [3])
      \<lparr>ch_data_size = 4096, ch_memory_fd = 4, ch_notification_fd = 5\<rparr> ''info'' Monotonic [] agent_client_new = (Inr (), c') \<and>
    outbox c' = [(7, [5], []), (7, [0], [4, 5])]"
proof -
  let ?h = "\<lparr>ch_data_size = 4096, ch_memory_fd = 4, ch_notification_fd = 5\<rparr>"
  obtain res c' where st: "start_with_options toy_codec (ok_exchange [6]) (ok_exchange [3]) ?h ''info'' Monotonic []
      agent_client_new = (res, c')" by force
  note out = start_outcome [OF st toy_encode toy_encode]
  have "reply toy_codec (ok_exchange [6]) = Some (VersionResponse VERSION)"
    "reply toy_codec (ok_exchange [3]) = Some Ack"
    by (simp_all add: reply_def wait_for_response_def ok_exchange_def ok_response_def toy_codec_def)
  moreover have "stream agent_client_new = None" by (simp add: agent_client_new_def)
  ultimately have "res = Inr ()" using out by (auto simp: ok_exchange_def)
  moreover from this st have "stream c' = Some 7"
    by (auto simp: start_with_options_def check_version_def send_start_def connect_or_reuse_def toy_encode
        sendmsg_def wait_for_response_def ok_exchange_def ok_response_def as_archived_def toy_access
        agent_client_new_def)
  ultimately show ?thesis using out st by (auto simp: agent_client_new_def start_message_def)
qed

text \<open>
  The version check does not compare versions. Whatever version string the agent reports,
  a successful check returns the client's own version, so the mismatch branch of
  \<open>start_with_options\<close> is never taken.
\<close>

theorem version_mismatch_unreachable:
  "check_version cd x1 c = (Inr v, c1) \<longrightarrow>
     v = VERSION \<and> start_with_options cd x1 x2 h flt ts opts c = send_start cd x2 h (start_message h flt ts opts) c1"
  using check_version_Inr [of cd x1 c v c1] by (auto simp: start_with_options_def)

theorem version_mismatch_unreachable_witness:
  "fst (check_version (toy_codec\<lparr>cd_access := (\<lambda>bs. Some (VersionResponse ''9.9''))\<rparr>) (ok_exchange [6]) agent_client_new)
     = Inr VERSION"
proof -
  let ?cd = "toy_codec\<lparr>cd_access := (\<lambda>bs. Some (VersionResponse ''9.9''))\<rparr>"
  have "encode ?cd m = Inr [toy_tag m]" for m
    using toy_encode [of m] encode_cong [of ?cd toy_codec m] by simp
  then obtain v c1 where "check_version ?cd (ok_exchange [6]) agent_client_new = (Inr v, c1)"
    by (simp add: check_version_def connect_or_reuse_def agent_client_new_def ok_exchange_def sendmsg_def
        wait_for_response_def ok_response_def as_archived_def)
  with version_mismatch_unreachable [of ?cd "ok_exchange [6]" agent_client_new v c1] show ?thesis by auto
qed

text \<open>
  Stopping and keeping alive. \<open>keepalive\<close> fails with \<open>NotEnabled\<close> exactly on a client
  without stream; a client that \<open>stop\<close> returned \<open>Ok\<close> for is not enabled, and one that it
  returned an error for still has its stream.
\<close>

theorem stop_keepalive_outcome:
  "(fst (keepalive cd x c) = Inl AgentNotEnabled \<longleftrightarrow> \<not> enabled c) \<and>
   stream (snd (keepalive cd x c)) = stream c \<and>
   (case stop cd x c of (Inr _, c') \<Rightarrow> \<not> enabled c' | (Inl e, c') \<Rightarrow> c' = c \<and> enabled c)"
proof -
  have "fst (send_continue cd x c) \<noteq> Inl AgentNotEnabled"
  proof -
    have "encode cd m \<noteq> Inl AgentNotEnabled" for m
      by (auto simp: encode_def split: sum.splits prod.splits)
    moreover have "wait_for_response io \<noteq> Inl AgentNotEnabled" for io
      by (auto simp: wait_for_response_def split: option.splits sum.splits)
    ultimately show ?thesis
      by (auto simp: send_continue_def sendmsg_def as_archived_def
          split: option.splits sum.splits control_message.splits)
  qed
  moreover have "stream (snd (send_continue cd x c)) = stream c"
    by (auto simp: send_continue_def sendmsg_def split: option.splits sum.splits control_message.splits)
  ultimately show ?thesis
    by (auto simp: keepalive_def stop_def sendmsg_def enabled_def split: option.splits sum.splits prod.splits)
qed

end
