(* ===== verification/Kinetrace.thy ===== *)
theory Kinetrace
  imports Converter Agent_Client
begin

text \<open>
  \<^verbatim>\<open>kinetrace/src/bin/kinetrace.rs\<close> and \<^verbatim>\<open>kinetrace/src/config.rs\<close>: the tracing tool. It starts
  its clients, then repeats until it is told to terminate: keep the clients alive once per
  second, convert the records of the user-space channel, let the kernel collectors run (their
  messages are converted by the callback), sleep. What the outside world does in one
  iteration (\<open>turn\<close>) is a parameter: the clock, the exchanges with the agents, the records read
  from the channel with their decoding results, the messages of the collectors, and the
  termination flag as it is read.
\<close>

section \<open>Configuration\<close>

definition default_log_filter :: string where "default_log_filter = ''DEBUG''"

definition default_buffer_size :: usize where "default_buffer_size = push_bit 3 (push_bit 20 1)"

record user_config =
  uc_socket :: string
  uc_log_filter :: string
  uc_random_process_id :: "bool option"

record global_config =
  buffer_size :: usize

record 'b config =
  cfg_global :: global_config
  cfg_bpf :: 'b
  cfg_user :: "user_config list"

section \<open>Starting the clients\<close>

definition start_client ::
  "codec \<Rightarrow> consumer_handle \<Rightarrow> user_config \<Rightarrow> exchange \<Rightarrow> exchange \<Rightarrow> (agent_error + unit) \<times> agent_client" where
  "start_client cd h uc x1 x2 =
     (case uc_random_process_id uc of
        Some b \<Rightarrow> start_with_options cd x1 x2 h (uc_log_filter uc) Monotonic
                     [(RANDOM_PROCESS_ID_OPTION, VBool b)] agent_client_new
      | None \<Rightarrow> client_start cd x1 x2 h (uc_log_filter uc) agent_client_new)"

text \<open>On the first failure the clients started so far are stopped; \<open>xs\<close> are the exchanges of these stops.\<close>

fun start_clients ::
  "codec \<Rightarrow> consumer_handle \<Rightarrow> (nat \<Rightarrow> exchange) \<Rightarrow> (user_config \<times> exchange \<times> exchange) list \<Rightarrow> agent_client list
   \<Rightarrow> (agent_error + unit) \<times> agent_client list" where
  "start_clients cd h xs [] started = (Inr (), started)"
| "start_clients cd h xs ((uc, x1, x2) # rest) started =
     (case start_client cd h uc x1 x2 of
        (Inr _, c) \<Rightarrow> start_clients cd h xs rest (started @ [c])
      | (Inl e, c) \<Rightarrow> (Inl e, map (\<lambda>k. snd (stop cd (xs k) (started ! k))) [0..<length started]))"

section \<open>The main loop\<close>

record ('u, 'i, 'q, 'l, 'f) turn =
  tn_terminated :: bool
  tn_keepalive_due :: bool
  tn_exchanges :: "nat \<Rightarrow> exchange"
  tn_records :: "((agent_error + ('u, 'i, 'q, 'l, 'f) archived_event) \<times> bool) list"
  tn_messages :: "message list"

record tracer =
  tr_converter :: converter
  tr_clients :: "agent_client list"

definition send_keepalives :: "codec \<Rightarrow> (nat \<Rightarrow> exchange) \<Rightarrow> agent_client list \<Rightarrow> agent_client list" where
  "send_keepalives cd xs cs = map (\<lambda>k. snd (send_continue cd (xs k) (cs ! k))) [0..<length cs]"

text \<open>Records are read until there is none or the termination flag is seen after one.\<close>

fun convert_records ::
  "('u, 'i, 'q, 'l, 'f, 'h) natives \<Rightarrow> (nat \<Rightarrow> errno option)
   \<Rightarrow> ((agent_error + ('u, 'i, 'q, 'l, 'f) archived_event) \<times> bool) list \<Rightarrow> converter \<Rightarrow> converter" where
  "convert_records n io [] c = c"
| "convert_records n io ((r, terminated) # rs) c =
     (let c1 = (case r of Inr e \<Rightarrow> snd (convert_archived_event n io e None c) | Inl _ \<Rightarrow> c)
      in if terminated then c1 else convert_records n io rs c1)"

definition bpf_callback :: "(nat \<Rightarrow> errno option) \<Rightarrow> message \<Rightarrow> converter \<Rightarrow> i32 \<times> converter" where
  "bpf_callback io m c = (0, snd (convert_message io m c))"

fun main_loop ::
  "('u, 'i, 'q, 'l, 'f, 'h) natives \<Rightarrow> codec \<Rightarrow> (nat \<Rightarrow> errno option) \<Rightarrow> bool
   \<Rightarrow> ('u, 'i, 'q, 'l, 'f) turn list \<Rightarrow> tracer \<Rightarrow> tracer" where
  "main_loop n cd io has_consumer [] tr = tr"
| "main_loop n cd io has_consumer (t # ts) tr =
     (if tn_terminated t then tr
      else let cs = (if tn_keepalive_due t then send_keepalives cd (tn_exchanges t) (tr_clients tr) else tr_clients tr);
               c1 = (if has_consumer then convert_records n io (tn_records t) (tr_converter tr) else tr_converter tr);
               c2 = fold (\<lambda>m c. snd (bpf_callback io m c)) (tn_messages t) c1
           in main_loop n cd io has_consumer ts (tr\<lparr>tr_clients := cs, tr_converter := c2\<rparr>))"

text \<open>Building the collectors may call back already (\<open>built\<close>), and after the loop they are flushed (\<open>flushed\<close>).\<close>

definition tracing_session ::
  "('u, 'i, 'q, 'l, 'f, 'h) natives \<Rightarrow> codec \<Rightarrow> (nat \<Rightarrow> errno option) \<Rightarrow> bool
   \<Rightarrow> message list \<Rightarrow> ('u, 'i, 'q, 'l, 'f) turn list \<Rightarrow> message list \<Rightarrow> agent_client list \<Rightarrow> tracer" where
  "tracing_session n cd io has_consumer built ts flushed cs =
     (let convert = fold (\<lambda>m c. snd (bpf_callback io m c));
          tr = main_loop n cd io has_consumer ts \<lparr>tr_converter = convert built converter_new, tr_clients = cs\<rparr>
      in tr\<lparr>tr_converter := convert flushed (tr_converter tr)\<rparr>)"

section \<open>What is converted\<close>

fun records_messages ::
  "('u, 'i, 'q, 'l, 'f, 'h) natives \<Rightarrow> ((agent_error + ('u, 'i, 'q, 'l, 'f) archived_event) \<times> bool) list \<Rightarrow> message list" where
  "records_messages n [] = []"
| "records_messages n ((r, terminated) # rs) =
     (case r of Inr e \<Rightarrow> [MEvent (event_to_native n e)] | Inl _ \<Rightarrow> []) @
     (if terminated then [] else records_messages n rs)"

fun session_messages ::
  "('u, 'i, 'q, 'l, 'f, 'h) natives \<Rightarrow> bool \<Rightarrow> ('u, 'i, 'q, 'l, 'f) turn list \<Rightarrow> message list" where
  "session_messages n has_consumer [] = []"
| "session_messages n has_consumer (t # ts) =
     (if tn_terminated t then []
      else (if has_consumer then records_messages n (tn_records t) else []) @ tn_messages t @
           session_messages n has_consumer ts)"

lemma convert_records_all: "convert_records n io rs c = convert_all io (records_messages n rs) c"
proof (induction n io rs c rule: convert_records.induct)
  case (2 n io r terminated rs c)
  then show ?case by (cases r) (auto simp: archived_event_matches_native convert_all_append Let_def)
qed simp

lemma fold_callback_all: "fold (\<lambda>m c. snd (bpf_callback io m c)) ms c = convert_all io ms c"
  by (induction ms arbitrary: c) (simp_all add: bpf_callback_def)

lemma main_loop_all:
  "tr_converter (main_loop n cd io hc ts tr) = convert_all io (session_messages n hc ts) (tr_converter tr)"
  by (induction n cd io hc ts tr rule: main_loop.induct)
     (simp_all add: Let_def convert_records_all fold_callback_all convert_all_append)

lemma tracing_session_all:
  "tr_converter (tracing_session n cd io hc built ts flushed cs) =
     convert_all io (built @ session_messages n hc ts @ flushed) converter_new"
  by (simp add: tracing_session_def Let_def fold_callback_all main_loop_all convert_all_append)

section \<open>All clients or none\<close>

lemma stop_succeeds:
  assumes "encode cd Stop = Inr b" "x_send x = None"
  shows "\<not> enabled (snd (stop cd x c))"
  using assms by (auto simp: stop_def sendmsg_def enabled_def split: option.split)

lemma start_with_options_enabled:
  assumes "start_with_options cd x1 x2 h flt ts opts c = (Inr (), c')"
  shows "enabled c'"
proof -
  obtain v c1 where cv: "check_version cd x1 c = (Inr v, c1)"
    using assms by (auto simp: start_with_options_def split: prod.splits sum.splits)
  with check_version_Inr have v: "v = VERSION" and f: "\<exists>f. stream c1 = Some f" by blast+
  with assms cv have ss: "send_start cd x2 h (start_message h flt ts opts) c1 = (Inr (), c')"
    by (simp add: start_with_options_def)
  then obtain buf where "encode cd (start_message h flt ts opts) = Inr buf"
    using f by (auto simp: send_start_def connect_or_reuse_def split: sum.splits)
  with f ss show ?thesis using send_start_outcome by blast
qed

lemma start_client_enabled: "start_client cd h uc x1 x2 = (Inr (), c) \<Longrightarrow> enabled c"
  unfolding start_client_def client_start_def start_with_timestamp_def
  by (cases "uc_random_process_id uc") (simp_all, (erule start_with_options_enabled)+)

lemma start_clients_enabled:
  "\<lbrakk>start_clients cd h xs cfgs started = (Inr (), cs); \<forall>c \<in> set started. enabled c\<rbrakk> \<Longrightarrow>
   length cs = length started + length cfgs \<and> (\<forall>c \<in> set cs. enabled c)"
proof (induction cfgs arbitrary: started)
  case (Cons u cfgs)
  obtain uc x1 x2 where u: "u = (uc, x1, x2)" by (cases u)
  obtain r c where s: "start_client cd h uc x1 x2 = (r, c)" by (cases "start_client cd h uc x1 x2")
  show ?case
  proof (cases r)
    case (Inl e)
    with Cons.prems(1) show ?thesis unfolding u start_clients.simps s by simp
  next
    case (Inr v)
    have "enabled c" using s Inr start_client_enabled by simp
    moreover have "start_clients cd h xs cfgs (started @ [c]) = (Inr (), cs)"
      using Cons.prems(1) Inr unfolding u start_clients.simps s by simp
    ultimately have "length cs = length (started @ [c]) + length cfgs \<and> (\<forall>c \<in> set cs. enabled c)"
      using Cons.prems(2) by (intro Cons.IH) simp_all
    then show ?thesis by simp
  qed
qed simp

lemma start_clients_stopped:
  assumes "start_clients cd h xs cfgs started = (Inl e, cs)" "encode cd Stop = Inr b" "\<And>k. x_send (xs k) = None"
  shows "\<forall>c \<in> set cs. \<not> enabled c"
  using assms(1)
proof (induction cfgs arbitrary: started)
  case (Cons u cfgs)
  then show ?case
    using stop_succeeds [OF assms(2,3)] by (cases u) (auto split: prod.splits sum.splits)
qed simp



end
