(* ===== verification/Counter_Trace.thy ===== *)
theory Counter_Trace
  imports Bpf_Consumer Kinetrace
begin

text \<open>
  From the collectors to the trace: what the collectors promise (every track announced before it
  is needed) is what the converter relies on (a value on an unknown track is dropped without
  an error). Messages of several sources may be interleaved in any way.
\<close>

section \<open>Interleaving\<close>

text \<open>The same condition with the tracks announced so far as a parameter.\<close>

definition announced_by :: "message \<Rightarrow> track_id set" where
  "announced_by m = {t. announces m t}"

fun announced_from :: "track_id set \<Rightarrow> message list \<Rightarrow> bool" where
  "announced_from A [] \<longleftrightarrow> True"
| "announced_from A (m # ms) \<longleftrightarrow> set (tracks_needed m) \<subseteq> A \<and> announced_from (A \<union> announced_by m) ms"

lemma announced_from_snoc:
  "announced_from A (ms @ [m]) \<longleftrightarrow> announced_from A ms \<and> set (tracks_needed m) \<subseteq> A \<union> (\<Union>m' \<in> set ms. announced_by m')"
  by (induction ms arbitrary: A) (auto simp: Un_assoc)

lemma announced_first_from: "announced_first ms \<longleftrightarrow> announced_from {} ms"
  by (induction ms rule: rev_induct) (auto simp: announced_first_snoc announced_from_snoc announced_by_def)

lemma announced_from_mono: "announced_from A ms \<Longrightarrow> A \<subseteq> B \<Longrightarrow> announced_from B ms"
proof (induction ms arbitrary: A B)
  case (Cons m ms)
  have "A \<union> announced_by m \<subseteq> B \<union> announced_by m" using Cons.prems by auto
  with Cons show ?case by auto
qed simp

lemma announced_from_shuffles:
  "\<lbrakk>zs \<in> shuffles xs ys; announced_from A xs; announced_from A ys\<rbrakk> \<Longrightarrow> announced_from A zs"
proof (induction xs ys arbitrary: zs A rule: shuffles.induct)
  case (3 x xs y ys)
  from 3(3) consider (left) zs' where "zs = x # zs'" "zs' \<in> shuffles xs (y # ys)"
    | (right) zs' where "zs = y # zs'" "zs' \<in> shuffles (x # xs) ys" by auto
  then show ?case
  proof cases
    case left
    have "announced_from (A \<union> announced_by x) zs'"
      by (rule 3(1) [OF left(2)]) (use 3(4,5) announced_from_mono [OF 3(5)] in auto)
    with left 3(4) show ?thesis by simp
  next
    case right
    have "announced_from (A \<union> announced_by y) zs'"
      by (rule 3(2) [OF right(2)]) (use 3(4,5) announced_from_mono [OF 3(4)] in auto)
    with right 3(5) show ?thesis by simp
  qed
qed simp_all

lemma announced_first_shuffles:
  "\<lbrakk>zs \<in> shuffles xs ys; announced_first xs; announced_first ys\<rbrakk> \<Longrightarrow> announced_first zs"
  unfolding announced_first_from by (rule announced_from_shuffles)

section \<open>Counters in a trace\<close>

definition packet_value :: "trace_packet \<Rightarrow> (u64 \<times> counter_value \<times> u64) option" where
  "packet_value p =
     (case (tp_data p, packet_counter p, tp_timestamp p) of
        (Some (TrackEvent e), Some v, Some ts) \<Rightarrow> map_option (\<lambda>u. (u, v, ts)) (te_track_uuid e)
      | _ \<Rightarrow> None)"

definition trace_counters :: "converter \<Rightarrow> (u64 \<times> counter_value \<times> u64) list" where
  "trace_counters c = List.map_filter packet_value (written (cv_writer c))"

definition message_counter :: "message \<Rightarrow> (track_id \<times> f64_bits \<times> u64) option" where
  "message_counter m = (case message_event m of ECounter k \<Rightarrow> Some (ctr_track_id k, ctr_value k, ctr_timestamp k) | _ \<Rightarrow> None)"

definition log_counters :: "message list \<Rightarrow> (track_id \<times> f64_bits \<times> u64) list" where
  "log_counters = List.map_filter message_counter"

lemma counters_append [simp]:
  "log_counters [] = []" "log_counters (ms @ ms') = log_counters ms @ log_counters ms'"
  by (simp_all add: log_counters_def List.map_filter_def)

lemma trace_counters_write:
  "packet_counter p = None \<Longrightarrow> trace_counters (snd (writer (write_packet io p sid) c)) = trace_counters c"
proof -
  assume "packet_counter p = None"
  then have "packet_value (p\<lparr>tp_sequence_id := s\<rparr>) = None" for s
    by (simp add: packet_value_def packet_counter_def split: option.splits packet_data.splits)
  then show ?thesis
    by (simp add: trace_counters_def writer_def write_packet_def Let_def List.map_filter_def split: option.split)
qed

interpretation unchanged: converter_invariant "\<lambda>c. trace_counters c = vs" for vs
  by unfold_locales (simp_all add: trace_counters_write insert_track_def, simp_all add: trace_counters_def)

section \<open>When every write succeeds\<close>

definition succeeds :: "('s, 'e, 'a) comp \<Rightarrow> bool" where
  "succeeds m \<longleftrightarrow> (\<forall>s. \<exists>a s'. m s = (Inr a, s'))"

lemma succeeds_bindE: "\<lbrakk>succeeds m; \<And>a. succeeds (k a)\<rbrakk> \<Longrightarrow> succeeds (bindE m k)"
  unfolding succeeds_def bindE_def by (metis (no_types, lifting) case_prod_conv old.sum.simps(6))

lemma succeeds_return: "succeeds (returnE a)"
  by (simp add: succeeds_def returnE_def)

lemma succeeds_insert: "succeeds (insert_track t u)"
  by (simp add: succeeds_def insert_track_def)

lemma succeeds_writer: "succeeds m \<Longrightarrow> succeeds (writer m)"
  unfolding succeeds_def writer_def by (metis (no_types, lifting) case_prod_conv)

lemma succeeds_write: "\<forall>k. io k = None \<Longrightarrow> succeeds (write_packet io p sid)"
  by (simp add: succeeds_def write_packet_def Let_def)

lemma succeeds_uuid: "succeeds next_track_uuid"
  by (simp add: succeeds_def next_track_uuid_def Let_def)

lemma succeeds_here: "\<lbrakk>succeeds m\<rbrakk> \<Longrightarrow> \<exists>a s'. m s = (Inr a, s')"
  by (simp add: succeeds_def)

lemma succeeds_new_track: "\<forall>k. io k = None \<Longrightarrow> succeeds (new_track io d)"
  unfolding new_track_def by (intro succeeds_bindE succeeds_uuid succeeds_write succeeds_return)

lemmas succeeds_intros = succeeds_bindE succeeds_return succeeds_insert succeeds_writer succeeds_new_track

lemma succeeds_process: "\<forall>k. io k = None \<Longrightarrow> succeeds (ensure_process_track io pid name)"
  unfolding succeeds_def ensure_process_track_def new_track_eqs
  by (auto intro!: succeeds_here succeeds_intros split: option.split)

lemma succeeds_thread: "\<forall>k. io k = None \<Longrightarrow> succeeds (ensure_thread_track io pid tid name)"
  unfolding succeeds_def ensure_thread_track_def new_track_eqs write_thread_descriptor_with_uuid_def
  by (auto intro!: succeeds_here succeeds_intros succeeds_process succeeds_write split: option.split)

lemma succeeds_parent: "\<forall>k. io k = None \<Longrightarrow> succeeds (parent_uuid io p)"
  unfolding succeeds_def parent_uuid_def
  by (auto intro!: succeeds_here succeeds_intros succeeds_process succeeds_thread split: option.split track_type_of.split)

lemma succeeds_own_track: "\<forall>k. io k = None \<Longrightarrow> succeeds (own_track io t p)"
  unfolding own_track_def new_track_eqs
  by (auto intro!: succeeds_intros succeeds_process succeeds_thread split: track_type_of.split)

text \<open>Then an announced track is known afterwards.\<close>

lemma convert_track_known:
  assumes "\<forall>k. io k = None"
  shows "track_map (snd (convert_track io t c)) (to_id (trk_type t)) \<noteq> None"
proof (cases "track_map c (to_id (trk_type t))")
  case None
  obtain p c1 where p: "parent_uuid io (trk_parent t) c = (Inr p, c1)"
    using succeeds_here [OF succeeds_parent [OF assms]] by blast
  obtain u c2 where u: "own_track io t p c1 = (Inr u, c2)"
    using succeeds_here [OF succeeds_own_track [OF assms]] by blast
  from None p u show ?thesis by (simp add: convert_track_def insert_track_def)
qed (simp add: convert_track_def)

lemma convert_message_known:
  assumes "\<forall>k. io k = None" "announces m t"
  shows "track_map (snd (convert_message io m c)) t \<noteq> None"
proof -
  have event: "track_map (snd (convert_event io e sid c)) t \<noteq> None" if "announces (MEvent e) t" for e sid
    using that convert_track_known [OF assms(1)] by (cases e) (auto simp: announces_def)
  show ?thesis
    using assms(2) event by (cases m) (auto simp: announces_def)
qed

lemma convert_message_keeps:
  assumes "message_counter m = None"
  shows "trace_counters (snd (convert_message io m c)) = trace_counters c"
proof -
  have "trace_counters (snd (convert_event io e sid c)) = trace_counters c" if "\<And>k. e \<noteq> ECounter k" for e sid
    by (rule unchanged.keep_convert_event [OF refl that])
  moreover have "\<And>k. message_event m \<noteq> ECounter k" using assms by (auto simp: message_counter_def)
  ultimately show ?thesis by (cases m) simp_all
qed

lemma convert_message_counter:
  assumes "\<forall>k. io k = None" "message_counter m = Some (t, v, ts)" "track_map c t = Some u"
  shows "trace_counters (snd (convert_message io m c)) = trace_counters c @ [(u, DoubleCounterValue v, ts)]"
    and "track_map (snd (convert_message io m c)) = track_map c"
proof -
  let ?c' = "snd (convert_counter io t v ts c)"
  have m: "snd (convert_message io m c) = ?c'"
    using assms(2) by (cases m) (auto simp: message_counter_def split: event.splits)
  show "trace_counters (snd (convert_message io m c)) = trace_counters c @ [(u, DoubleCounterValue v, ts)]"
    unfolding m using assms(1,3)
    by (simp add: convert_counter_def writer_def write_double_counter_value_def write_packet_def trace_counters_def
        packet_value_def packet_counter_def packet_shapes List.map_filter_def Let_def)
  show "track_map (snd (convert_message io m c)) = track_map c"
    unfolding m using assms(3) by (simp add: convert_counter_def writer_def case_prod_beta)
qed

text \<open>The values of the log, on the tracks that the converter gave them.\<close>

definition values_on :: "converter \<Rightarrow> (track_id \<times> f64_bits \<times> u64) list \<Rightarrow> (u64 \<times> counter_value \<times> u64) list" where
  "values_on c ks = map (\<lambda>(t, v, ts). (the (track_map c t), DoubleCounterValue v, ts)) ks"

lemma values_on_grows:
  assumes "\<forall>(t, v, ts) \<in> set ks. track_map c t \<noteq> None" "track_map c \<subseteq>\<^sub>m track_map c'"
  shows "values_on c' ks = values_on c ks" "\<forall>(t, v, ts) \<in> set ks. track_map c' t \<noteq> None"
proof -
  have "track_map c' t = track_map c t" if "track_map c t \<noteq> None" for t
    using assms(2) that by (metis domI map_le_def not_None_eq)
  with assms(1) show "values_on c' ks = values_on c ks" "\<forall>(t, v, ts) \<in> set ks. track_map c' t \<noteq> None"
    by (auto simp: values_on_def)
qed

section \<open>Counter values reach the trace\<close>

lemma converter_budget:
  "length ms < 2 ^ 62 - 1000 \<Longrightarrow> CI 4 Map.empty (convert_all io ms converter_new)"
  by (rule convert_all_CI, rule converter_new_CI) simp

lemma convert_message_grows: "CI 4 Map.empty c \<Longrightarrow> track_map c \<subseteq>\<^sub>m track_map (snd (convert_message io m c))"
  using hoareE_snd [OF hoare_convert_message [of 0 "track_map c" io m], of c] CI_self [of 4 Map.empty c]
  by (simp add: CI_def)

definition delivered :: "message list \<Rightarrow> converter \<Rightarrow> bool" where
  "delivered ms c \<longleftrightarrow> (\<forall>m \<in> set ms. \<forall>t. announces m t \<longrightarrow> track_map c t \<noteq> None) \<and>
     trace_counters c = values_on c (log_counters ms) \<and> (\<forall>(t, v, ts) \<in> set (log_counters ms). track_map c t \<noteq> None)"

lemma delivered_step:
  assumes "\<forall>k. io k = None" "CI 4 Map.empty c" "delivered ms c"
    and "\<forall>t \<in> set (tracks_needed m). \<exists>m' \<in> set ms. announces m' t"
  shows "delivered (ms @ [m]) (snd (convert_message io m c))"
proof -
  let ?c' = "snd (convert_message io m c)"
  have grow: "track_map c \<subseteq>\<^sub>m track_map ?c'" by (rule convert_message_grows [OF assms(2)])
  have old: "values_on ?c' (log_counters ms) = trace_counters c" "\<forall>(t, v, ts) \<in> set (log_counters ms). track_map ?c' t \<noteq> None"
    using values_on_grows [OF _ grow, of "log_counters ms"] assms(3) by (simp_all add: delivered_def)
  have known: "track_map ?c' t \<noteq> None" if "x \<in> set (ms @ [m])" "announces x t" for x t
  proof (cases "x = m")
    case True
    with that convert_message_known [OF assms(1)] show ?thesis by simp
  next
    case False
    then have "track_map c t \<noteq> None" using that assms(3) by (auto simp: delivered_def)
    with grow show ?thesis by (metis domIff map_le_implies_dom_le subsetD)
  qed
  show ?thesis
  proof (cases "message_counter m")
    case None
    then have "log_counters (ms @ [m]) = log_counters ms" by (simp add: log_counters_def List.map_filter_def)
    with known old convert_message_keeps [OF None] show ?thesis by (simp add: delivered_def)
  next
    case (Some k)
    obtain t v ts where k: "k = (t, v, ts)" by (cases k)
    have "t \<in> set (tracks_needed m)"
      using Some k by (auto simp: message_counter_def tracks_needed_def split: event.splits)
    then obtain m' where "m' \<in> set ms" "announces m' t" using assms(4) by blast
    then have "track_map c t \<noteq> None" using assms(3) unfolding delivered_def by blast
    then obtain u where u: "track_map c t = Some u" by blast
    have l: "log_counters (ms @ [m]) = log_counters ms @ [(t, v, ts)]"
      using Some k by (simp add: log_counters_def List.map_filter_def)
    note val = convert_message_counter [OF assms(1) Some [unfolded k] u]
    show ?thesis
      unfolding delivered_def l using known old val u by (simp add: values_on_def)
  qed
qed

lemma convert_all_delivers:
  assumes "\<forall>k. io k = None" "announced_first ms" "length ms < 2 ^ 62 - 1000"
  shows "delivered ms (convert_all io ms converter_new)"
  using assms(2,3)
proof (induction ms rule: rev_induct)
  case Nil
  show ?case
    by (simp add: delivered_def trace_counters_def converter_new_def stream_writer_new_def values_on_def List.map_filter_def)
next
  case (snoc m ms)
  let ?c = "convert_all io ms converter_new"
  have ms: "announced_first ms" "\<forall>t \<in> set (tracks_needed m). \<exists>m' \<in> set ms. announces m' t"
    using snoc.prems(1) by (simp_all add: announced_first_snoc)
  have "delivered ms ?c" using snoc ms by simp
  with delivered_step [OF assms(1) converter_budget _ ms(2)] snoc.prems(2) show ?case
    by (simp add: convert_all_append)
qed

text \<open>
  C7: when no write fails, every counter value that a sequence of messages passes on after the
  announcement of its track reaches the trace, in order, with its value and time, on the
  track that the converter entered for it; nothing else in the trace is a counter value.
\<close>

theorem counters_reach_trace:
  assumes "\<forall>k. io k = None" "announced_first ms" "length ms < 2 ^ 62 - 1000"
  shows "trace_counters (convert_all io ms converter_new) = values_on (convert_all io ms converter_new) (log_counters ms) \<and>
    (\<forall>(t, v, ts) \<in> set (log_counters ms). track_map (convert_all io ms converter_new) t \<noteq> None)"
  using convert_all_delivers [OF assms] by (simp add: delivered_def)

definition sample_counter_log :: "message list" where
  "sample_counter_log =
     [MEvent (ETrack \<lparr>trk_name = ''rx'', trk_type = TyCounter 9 None, trk_parent = None\<rparr>),
      MEvent (ECounter \<lparr>ctr_name = ''rx'', ctr_value = 5, ctr_timestamp = 70, ctr_track_id = CounterId 9,
        ctr_labels = labels_new, ctr_unit = None\<rparr>)]"

theorem counters_reach_trace_witness:
  "trace_counters (convert_all (\<lambda>_. None) sample_counter_log converter_new) =
     [(the (track_map (convert_all (\<lambda>_. None) sample_counter_log converter_new) (CounterId 9)), DoubleCounterValue 5, 70)]"
proof -
  have "announced_first sample_counter_log"
    unfolding announced_first_from by (simp add: sample_counter_log_def announced_by_def)
  moreover have "log_counters sample_counter_log = [(CounterId 9, 5, 70)]"
    by (simp add: sample_counter_log_def log_counters_def message_counter_def List.map_filter_def)
  moreover have "length sample_counter_log < 2 ^ 62 - 1000" by (simp add: sample_counter_log_def)
  ultimately show ?thesis
    using counters_reach_trace [of "\<lambda>_. None" sample_counter_log] by (simp add: values_on_def)
qed

end
