(* ===== verification/Session.thy ===== *)
theory Session
  imports Counter_Trace
begin

text \<open>
  A whole run of \<^verbatim>\<open>kinetrace/src/bin/kinetrace.rs\<close>: configuration, collectors, user-space channel,
  clients, main loop and final flush put together. What happens outside (agents, records,
  kernel, termination flag) is given turn by turn.
\<close>

section \<open>The program\<close>

datatype main_error = BpfFailure bpf_error | AgentFailure agent_error

type_synonym bpf_configs = "(block_io_config, perf_counter_config) bpf_config"

text \<open>The turns of the main loop with what the collectors pass on in each.\<close>

fun collector_turns ::
  "bpf_objects \<Rightarrow> 'e consumer_io \<Rightarrow> (('u, 'i, 'q, 'l, 'f) turn \<times> round) list \<Rightarrow> consumer
   \<Rightarrow> ('u, 'i, 'q, 'l, 'f) turn list \<times> consumer" where
  "collector_turns ob io [] co = ([], co)"
| "collector_turns ob io ((t, rd) # ts) co =
     (if tn_terminated t then ([t], co)
      else let co1 = snd (consumer_consume ob io rd co);
               (ts', co2) = collector_turns ob io ts co1
           in (t\<lparr>tn_messages := drop (length (co_log co)) (co_log co1)\<rparr> # ts', co2))"

definition user_clients ::
  "codec \<Rightarrow> (agent_error + consumer_handle) \<Rightarrow> (nat \<Rightarrow> exchange) \<Rightarrow> (user_config \<times> exchange \<times> exchange) list
   \<Rightarrow> agent_error + agent_client list" where
  "user_clients cd channel stops cfgs =
     (if cfgs = [] then Inr []
      else case channel of
             Inl e \<Rightarrow> Inl e
           | Inr h \<Rightarrow> (case start_clients cd h stops cfgs [] of (Inl e, cs) \<Rightarrow> Inl e | (Inr _, cs) \<Rightarrow> Inr cs))"

definition kinetrace_main ::
  "('u, 'i, 'q, 'l, 'f, 'h) natives \<Rightarrow> codec \<Rightarrow> (nat \<Rightarrow> errno option) \<Rightarrow> consumer_setup \<Rightarrow> 'e consumer_io \<Rightarrow> bpf_configs
   \<Rightarrow> (agent_error + consumer_handle) \<Rightarrow> (nat \<Rightarrow> exchange) \<Rightarrow> (user_config \<times> exchange \<times> exchange) list
   \<Rightarrow> (('u, 'i, 'q, 'l, 'f) turn \<times> round) list \<Rightarrow> round \<Rightarrow> main_error + tracer" where
  "kinetrace_main n cd io su cio cfg channel stops cfgs inputs last_round =
     (case bpf_build cfg of
        Inl e \<Rightarrow> Inl (BpfFailure e)
      | Inr ob \<Rightarrow>
          (case fst (bpf_consumer su cio ob stream_id_allocator_new) of
             Inl e \<Rightarrow> Inl (BpfFailure e)
           | Inr co \<Rightarrow>
               (case user_clients cd channel stops cfgs of
                  Inl e \<Rightarrow> Inl (AgentFailure e)
                | Inr cs \<Rightarrow>
                    let (ts, co1) = collector_turns ob cio inputs co;
                        co2 = snd (consumer_flush cio last_round co1)
                    in Inr (tracing_session n cd io (cfgs \<noteq> []) (co_log co) ts (drop (length (co_log co1)) (co_log co2)) cs))))"

section \<open>What reaches the trace\<close>

text \<open>The messages of the two sources, and how the main loop interleaves them.\<close>

fun user_messages ::
  "('u, 'i, 'q, 'l, 'f, 'h) natives \<Rightarrow> bool \<Rightarrow> ('u, 'i, 'q, 'l, 'f) turn list \<Rightarrow> message list" where
  "user_messages n hc [] = []"
| "user_messages n hc (t # ts) =
     (if tn_terminated t then [] else (if hc then records_messages n (tn_records t) else []) @ user_messages n hc ts)"

fun collector_messages :: "('u, 'i, 'q, 'l, 'f) turn list \<Rightarrow> message list" where
  "collector_messages [] = []"
| "collector_messages (t # ts) = (if tn_terminated t then [] else tn_messages t @ collector_messages ts)"

lemma shuffles_append_left: "zs \<in> shuffles xs ys \<Longrightarrow> as @ zs \<in> shuffles (as @ xs) ys"
  by (induction as) (simp_all add: Cons_in_shuffles_leftI)

lemma shuffles_append_right: "zs \<in> shuffles xs ys \<Longrightarrow> as @ zs \<in> shuffles xs (as @ ys)"
  by (induction as) (simp_all add: Cons_in_shuffles_rightI)

lemma session_messages_shuffle:
  "session_messages n hc ts @ flushed \<in> shuffles (user_messages n hc ts) (collector_messages ts @ flushed)"
proof (induction ts)
  case (Cons t ts)
  then show ?case
    by (cases "tn_terminated t") (auto intro!: shuffles_append_left shuffles_append_right)
qed simp

text \<open>The common log of the collectors only grows.\<close>

lemma run_collector_grows:
  assumes "\<And>s c. co_log (upd s c) = co_log c"
  shows "log_grows (co_log co) (co_log (snd (run_collector sel upd lg f co)))"
  by (auto simp: run_collector_def log_grows_def assms case_prod_beta split: option.split)

lemma log_grows_trans: "\<lbrakk>log_grows a b; log_grows b c\<rbrakk> \<Longrightarrow> log_grows a c"
  by (auto simp: log_grows_def)

lemma in_order_grows:
  "\<lbrakk>\<And>m c. m \<in> set ms \<Longrightarrow> log_grows (co_log c) (co_log (snd (m c)))\<rbrakk> \<Longrightarrow> log_grows (co_log co) (co_log (snd (in_order ms co)))"
  by (rule in_order_keeps [where P = "\<lambda>c. log_grows (co_log co) (co_log c)"]) (auto intro: log_grows_trans)

lemma run_all_grows: "log_grows (co_log co) (co_log (snd (run_all ob io verb rd co)))"
  unfolding run_all_def run_threadtrack_def run_cpuutil_def run_nettrack_def run_block_io_def run_profiler_def
    run_schedtrace_def run_perfcounter_def
  by (rule in_order_grows) (auto intro!: run_collector_grows)

lemma consumer_flush_grows: "log_grows (co_log co) (co_log (snd (consumer_flush io rd co)))"
  unfolding consumer_flush_def run_nettrack_def run_block_io_def
  by (rule in_order_grows) (auto intro!: run_collector_grows)

lemma log_grows_drop: "log_grows a b \<Longrightarrow> a @ drop (length a) b = b"
  by (auto simp: log_grows_def)

lemma collector_turns_log:
  "collector_turns ob io inputs co = (ts, co') \<Longrightarrow> co_log co @ collector_messages ts = co_log co'"
proof (induction ob io inputs co arbitrary: ts co' rule: collector_turns.induct)
  case (2 ob io t rd inputs co)
  let ?co1 = "snd (consumer_consume ob io rd co)"
  show ?case
  proof (cases "tn_terminated t")
    case False
    obtain ts1 co2 where r: "collector_turns ob io inputs ?co1 = (ts1, co2)" by fastforce
    have "co_log co @ drop (length (co_log co)) (co_log ?co1) = co_log ?co1"
      by (rule log_grows_drop) (simp add: consumer_consume_def run_all_grows)
    with 2(1) [OF False refl r] 2(2) r False show ?thesis by (auto simp flip: append_assoc)
  qed (use 2(2) in auto)
qed simp

lemma collector_turns_ok:
  "\<lbrakk>consumer_ok nprocs co; \<forall>(t, rd) \<in> set inputs. valid_round nprocs rd\<rbrakk> \<Longrightarrow>
   consumer_ok nprocs (snd (collector_turns ob io inputs co))"
proof (induction ob io inputs co rule: collector_turns.induct)
  case (2 ob io t rd inputs co)
  then show ?case
    by (cases "tn_terminated t") (simp_all add: consumer_consume_def run_all_ok case_prod_beta Let_def)
qed simp

lemma user_messages_turns:
  "user_messages n hc (fst (collector_turns ob io inputs co)) = user_messages n hc (map fst inputs)"
proof (induction ob io inputs co rule: collector_turns.induct)
  case (2 ob io t rd inputs co)
  then show ?case
    by (cases "tn_terminated t") (simp_all add: case_prod_beta Let_def)
qed simp

definition collector_log ::
  "consumer_setup \<Rightarrow> 'e consumer_io \<Rightarrow> bpf_configs \<Rightarrow> (('u, 'i, 'q, 'l, 'f) turn \<times> round) list \<Rightarrow> round \<Rightarrow> message list" where
  "collector_log su cio cfg inputs last_round =
     (case bpf_build cfg of
        Inl e \<Rightarrow> []
      | Inr ob \<Rightarrow>
          (case fst (bpf_consumer su cio ob stream_id_allocator_new) of
             Inl e \<Rightarrow> []
           | Inr co \<Rightarrow> co_log (snd (consumer_flush cio last_round (snd (collector_turns ob cio inputs co))))))"

lemma kinetrace_main_converts:
  assumes "kinetrace_main n cd io su cio cfg channel stops cfgs inputs last_round = Inr tr"
  shows "\<exists>ms \<in> shuffles (user_messages n (cfgs \<noteq> []) (map fst inputs)) (collector_log su cio cfg inputs last_round).
    tr_converter tr = convert_all io ms converter_new"
proof -
  obtain ob co cs where ob: "bpf_build cfg = Inr ob" and co: "fst (bpf_consumer su cio ob stream_id_allocator_new) = Inr co"
    and cs: "user_clients cd channel stops cfgs = Inr cs"
    using assms by (auto simp: kinetrace_main_def split: sum.splits)
  obtain ts co1 where t: "collector_turns ob cio inputs co = (ts, co1)" by fastforce
  let ?flushed = "drop (length (co_log co1)) (co_log (snd (consumer_flush cio last_round co1)))"
  let ?ms = "co_log co @ session_messages n (cfgs \<noteq> []) ts @ ?flushed"
  have tr: "tr_converter tr = convert_all io ?ms converter_new"
    using assms unfolding kinetrace_main_def ob co cs sum.case t prod.case Let_def by (auto simp: tracing_session_all)
  have "?ms \<in> shuffles (user_messages n (cfgs \<noteq> []) ts) (co_log co @ collector_messages ts @ ?flushed)"
    by (rule shuffles_append_right, rule session_messages_shuffle)
  moreover have "co_log co @ collector_messages ts @ ?flushed = collector_log su cio cfg inputs last_round"
    using collector_turns_log [OF t] log_grows_drop [OF consumer_flush_grows [of co1 cio last_round]]
    by (simp add: collector_log_def ob co t flip: append_assoc)
  moreover have "user_messages n (cfgs \<noteq> []) ts = user_messages n (cfgs \<noteq> []) (map fst inputs)"
    using user_messages_turns [of n "cfgs \<noteq> []" ob cio inputs co] t by simp
  ultimately show ?thesis using tr by auto
qed

lemma collector_log_announced:
  assumes "\<forall>(t, rd) \<in> set inputs. valid_round (su_nprocs su) rd" "valid_round (su_nprocs su) last_round"
  shows "announced_first (collector_log su cio cfg inputs last_round)"
proof (cases "bpf_build cfg")
  case (Inr ob)
  show ?thesis
  proof (cases "bpf_consumer su cio ob stream_id_allocator_new")
    case (Pair r a)
    show ?thesis
    proof (cases r)
      case (Inr co)
      have "consumer_ok (su_nprocs su) (snd (consumer_flush cio last_round (snd (collector_turns ob cio inputs co))))"
        by (intro consumer_flush_ok collector_turns_ok assms bpf_consumer_ok [OF Pair [unfolded Inr]])
      with \<open>bpf_build cfg = Inr ob\<close> Pair Inr show ?thesis by (simp add: collector_log_def consumer_ok_def)
    qed (use Inr Pair in \<open>simp add: collector_log_def\<close>)
  qed
qed (simp add: collector_log_def)

end
