(* ===== verification/Spec2Isabelle.thy ===== *)
theory Spec2Isabelle
  imports Mpsc_Concurrent Agent_Builder Agent_Channel Kinetracing Session
begin

text \<open>
  Verification of kinet-trace, a tracing tool for Linux. File names below are relative to the
  repository's root.

  \<^bold>\<open>The program.\<close> Instrumented processes run an agent (\<^verbatim>\<open>agent\<close>): a thread listens on a Unix socket
  for a client that asks to start tracing and passes the descriptors of a shared ring buffer
  (\<^verbatim>\<open>mpscbuf\<close>). From then on the process's events (\<^verbatim>\<open>protocol\<close>), produced for instance by a layer
  of the \<open>tracing\<close> library (\<^verbatim>\<open>kinetracing\<close>), are serialised into the ring. The tool
  (\<^verbatim>\<open>kinetrace\<close>) is the client and the ring's consumer; it also runs collectors that read the
  kernel through BPF programs (\<^verbatim>\<open>bpf\<close>, with \<^verbatim>\<open>interned-symbolizer\<close> for call stacks). A converter turns the messages of
  both sources into packets of a trace file (\<^verbatim>\<open>perfetto-format\<close>).

  \<^bold>\<open>Shared memory and ring buffer\<close> (\<^verbatim>\<open>mpscbuf/src\<close>).
  \<^item> \<open>Mpsc_Common\<close>: errors, metadata and record headers as 64-bit words (\<^verbatim>\<open>common.rs\<close>, \<^verbatim>\<open>error.rs\<close>).
  \<^item> \<open>Mpsc_Memory\<close>: the double mapping of the data area and the failure paths of setting it up
    (\<^verbatim>\<open>memory.rs\<close>); an access over the end continues at the beginning (\<open>from_fd_double_mapping\<close>).
  \<^item> \<open>Mpsc_Sync\<close>: the bounded spin lock and the notification (\<^verbatim>\<open>sync.rs\<close>). The lock is a function of
    the sequence of values a thread observes; the loop is bounded by \<open>SPIN_LIMIT\<close>, its recursion is on the
    remaining number of attempts.
  \<^item> \<open>Mpsc_Ring\<close>: \<^verbatim>\<open>ringbuf.rs\<close>, \<^verbatim>\<open>producer.rs\<close>, \<^verbatim>\<open>consumer.rs\<close> as sequential operations on the bytes of the ring.
    \<open>consume\<close> is a \<open>partial_function\<close>, and its result on every well-formed ring is proved to exist
    (\<open>consume_outcome\<close>). The locale \<open>fifo_queue\<close> states the contract of a queue; the
    ring is an instance.
  \<^item> \<open>Mpsc_Concurrent\<close>: the same code as atomic steps of any number of producers and one consumer. A
    simulation (locale \<open>step_simulation\<close> of the prelude) shows that every interleaving implements a queue
    of records that are filled in place, published and delivered once and in order. Records held
    by different parties do not overlap and are not changed while they are read. The steps of an uninterrupted producer compute
    the sequential operation. A concrete execution shows that \<open>discard\<close> may commit a foreign record.

  \<^bold>\<open>Protocol\<close> (\<^verbatim>\<open>protocol/src/lib.rs\<close>). \<open>Protocol\<close>: messages, native and archived (a type parameter for each width of
  archived integers), identifiers, and the two writers behind serialisation, which are instances of the locale
  \<open>positional_writer\<close>; computed lengths are exact (\<open>serialize_exact\<close>). The serialiser itself is generated by a library and is an
  arbitrary program of writes. \<open>F64\<close> models the floating-point operations that the collectors use, on the bits
  of a double.

  \<^bold>\<open>Agent\<close> (\<^verbatim>\<open>agent/src\<close>).
  \<^item> \<open>Agent_State\<close>: clients, sessions and the handling of control messages (\<^verbatim>\<open>agent_state.rs\<close>, \<^verbatim>\<open>lib.rs\<close>), each handler
    with all its early returns. Effects on the extension are logged.
  \<^item> \<open>Agent_Epoll\<close>: the loop of the listener thread (\<^verbatim>\<open>epoll_thread.rs\<close>); its invariant holds for
    every sequence of events and failing calls (\<open>listener_thread_invariant\<close>).
  \<^item> \<open>Agent_Builder\<close>: configuration, the setup before the loop, joining and dropping (\<^verbatim>\<open>agent.rs\<close>).
  \<^item> \<open>Agent_Client\<close>: the requests of the client and their outcome for every behaviour of the network (\<^verbatim>\<open>client.rs\<close>).
  \<^item> \<open>Agent_Channel\<close>: events through the ring (\<^verbatim>\<open>mpsc.rs\<close>, \<^verbatim>\<open>extension.rs\<close>), on top of the queue contract.

  \<^bold>\<open>Tracing layer\<close> (\<^verbatim>\<open>kinetracing/src\<close>). \<open>Kinetracing\<close>: the callbacks of the layer with the guard against reentrancy, labels, and
  the start and end of a session. Formatting a field may run further callbacks; they never change what
  is submitted. Spans are reported with the times of entering and leaving; the
  exception, a span entered between sessions, is proved too.

  \<^bold>\<open>Collectors\<close> (\<^verbatim>\<open>bpf/src\<close>).
  \<^item> \<open>Bpf_Common\<close>: errors, the callback and its log, and the predicate \<open>announced_first\<close>: a track is announced
    before a message needs it.
  \<^item> \<open>Bpf_Load\<close>: opening, filtering, loading and attaching the programs as sequences of calls whose
    outcome is arbitrary (\<^verbatim>\<open>perf_event.rs\<close> and the constructors); nothing runs before its filter is in place.
  \<^item> \<open>Nettrack\<close>, \<open>Block_Devices\<close>, \<open>Blocktrack\<close>, \<open>Cpuutil\<close>, \<open>Perfcounter\<close>, \<open>Profiler\<close> (with
    \<^verbatim>\<open>schedtrace.rs\<close>): one collector each, with configuration, construction, deltas and emission of
    messages; \<open>Interned\<close> is the symbolizer's interning (\<^verbatim>\<open>interned-symbolizer/src/lib.rs\<close>).
  \<^item> \<open>Bpf_Lib\<close>: assembling the collectors, the thread tracker and the filters by process name (\<^verbatim>\<open>lib.rs\<close>, \<^verbatim>\<open>threadtrack.rs\<close>).
  \<^item> \<open>Bpf_Consumer\<close>: construction and operation of all collectors together. The locale \<open>collector\<close> states what each promises
    and is interpreted for all seven; their common log satisfies \<open>announced_first\<close>.

  \<^bold>\<open>Tool\<close> (\<^verbatim>\<open>kinetrace/src\<close>, \<^verbatim>\<open>perfetto-format/src/lib.rs\<close>).
  \<^item> \<open>Perfetto\<close>: the packets and the functions that write them; every write may fail.
  \<^item> \<open>Converter\<close>: \<^verbatim>\<open>converter.rs\<close> and \<^verbatim>\<open>label_iter.rs\<close>. Every trace is well formed (parents and events refer to tracks
    described before), also when writes fail; archived and native messages are converted alike. Invariants of the converter are proved
    through the locale \<open>converter_invariant\<close>.
  \<^item> \<open>Kinetrace\<close>: starting the agents (all or none), the main loop, the end of a session (\<^verbatim>\<open>bin/kinetrace.rs\<close>, \<^verbatim>\<open>config.rs\<close>).
  \<^item> \<open>Counter_Trace\<close>, \<open>Session\<close> and this theory: the composition. What the collectors promise is what the converter needs, so
    a whole run writes a well-formed trace with exactly the counter values that were passed on (\<open>session_trace\<close>).

  \<^bold>\<open>Conventions.\<close> \<open>Prelude\<close> holds the machine integers as words, saturating arithmetic, the error-and-state
  computations (\<open>comp\<close>) and the shared lemmas. Results of the operating system, of
  the network, of random number generators, clocks and libraries are arguments of the definitions, so a
  theorem holds for all of them. Hash maps are maps or, where their order is visible in the
  output, lists whose order is an argument. Rust's checked arithmetic appears where it can fail. The
  bound \<open>2 ^ 62 - 1000\<close> on the number of messages keeps the identifiers of tracks from
  wrapping around; a converter would need centuries to reach it. All loops are structural recursions or have a proved measure,
  apart from \<open>consume\<close> (see above).

  \<^bold>\<open>Not modelled.\<close> The hardware's weak memory model (steps are sequentially consistent); the C programs
  inside the kernel (their maps and ring buffers are arbitrary inputs); generated serialisation code and the
  protobuf encoding; the parsing of TOML files and arguments, logging, signal handlers; the loom checks, examples, benches and tests. The \<open>tracing\<close> library's
  filters and span registry are parameters of \<open>Kinetracing\<close>, and its callbacks are atomic there.
\<close>

section \<open>From the kernel and the agents to the trace\<close>

text \<open>
  C3: a run of the tracing tool in which no write to the output fails. Whatever the collectors
  find, however the main loop interleaves their messages with the records of the user-space
  channel, and also when single rounds of the collectors fail: the trace that is written is
  well formed, and its counter values are exactly those that the sources passed on, in their
  order, with their values and times, each on the track entered for it. Assumed: no CPU
  interval ends before it starts, counter events name existing CPUs, and user-space records
  announce the tracks they need.
\<close>

theorem session_trace:
  assumes "kinetrace_main n cd io su cio cfg channel stops cfgs inputs last_round = Inr tr"
    and "\<forall>k. io k = None"
    and "\<forall>(t, rd) \<in> set inputs. valid_round (su_nprocs su) rd" "valid_round (su_nprocs su) last_round"
    and "announced_first (user_messages n (cfgs \<noteq> []) (map fst inputs))"
    and "length (user_messages n (cfgs \<noteq> []) (map fst inputs)) + length (collector_log su cio cfg inputs last_round) < 2 ^ 62 - 1000"
  shows "\<exists>ms \<in> shuffles (user_messages n (cfgs \<noteq> []) (map fst inputs)) (collector_log su cio cfg inputs last_round).
    wf_trace (written (cv_writer (tr_converter tr))) \<and>
    trace_counters (tr_converter tr) = values_on (tr_converter tr) (log_counters ms)"
proof -
  obtain ms where ms: "ms \<in> shuffles (user_messages n (cfgs \<noteq> []) (map fst inputs)) (collector_log su cio cfg inputs last_round)"
    and tr: "tr_converter tr = convert_all io ms converter_new"
    using kinetrace_main_converts [OF assms(1)] by blast
  have len: "length ms < 2 ^ 62 - 1000" using assms(6) length_shuffles [OF ms] by simp
  have "announced_first ms"
    by (rule announced_first_shuffles [OF ms assms(5) collector_log_announced [OF assms(3,4)]])
  with convert_all_delivers [OF assms(2) _ len] have "delivered ms (tr_converter tr)" unfolding tr by simp
  moreover have "wf_trace (written (cv_writer (tr_converter tr)))"
    using converter_budget [OF len, of io] unfolding tr by (simp add: CI_def cinv_def winv_def)
  ultimately show ?thesis using ms by (auto simp: delivered_def)
qed

definition sample_bpf_config :: bpf_configs where
  "sample_bpf_config = \<lparr>cfg_thread_tracker = None,
     cfg_cpu_util = Some \<lparr>cuc_frequency = 9, cuc_pid_filters = [], cuc_filter_process = [], cuc_ringbuf = 4096\<rparr>,
     cfg_nettrack = None, cfg_block_io = None, cfg_profiler = None,
     cfg_schedtrace = Some \<lparr>stc_pid_filters = [], stc_filter_process = [], stc_ringbuf = 4096\<rparr>, cfg_perfcounter = None,
     cfg_filter_process = []\<rparr>"

definition sample_natives :: "(u32, i32, u64, i64, f64_bits, u16) natives" where
  "sample_natives = \<lparr>nat_u32 = id, nat_i32 = id, nat_u64 = id, nat_i64 = id, nat_f64 = id, nat_u16 = id\<rparr>"

definition sample_turn :: "(u32, i32, u64, i64, f64_bits) turn" where
  "sample_turn = \<lparr>tn_terminated = False, tn_keepalive_due = False, tn_exchanges = (\<lambda>_. ok_exchange []), tn_records = [],
     tn_messages = []\<rparr>"

lemma sample_bpf_built: "bpf_build sample_bpf_config = Inr sample_objects"
  by (simp add: bpf_build_def sample_bpf_config_def sample_objects_def needs_process_filtering_def Let_def)

lemma sample_collector_log:
  defines "log \<equiv> collector_log sample_setup sample_consumer_io sample_bpf_config [(sample_turn, sample_round)] sample_round"
  shows "length log = 6" "length (log_counters log) = 2"
proof -
  have "log = co_log (consumer_run sample_objects sample_consumer_io [Consume sample_round, FlushAll sample_round] sample_consumer)"
    by (simp add: log_def collector_log_def sample_bpf_built sample_consumer_built sample_turn_def consumer_run_def Let_def case_prod_beta)
  note eqs = this consumer_run_def consumer_consume_def run_all_def consumer_flush_def sample_consumer_def
      run_threadtrack_def run_cpuutil_def run_nettrack_def run_block_io_def run_profiler_def run_schedtrace_def run_perfcounter_def
      run_collector_def sample_round_def sample_consumer_io_def cpu_consume_def sched_consume_def drain_ring_def sched_new_def
      cpu_handle_event_def add_interval_def sample_interval_def cpu_util_new_def cpu_track_ids_def emit_usage_def cpu_call_eq
      sched_handle_event_def sched_track_def sample_sched_def call_def bindE_def returnE_def Let_def
  show "length log = 6" by (simp add: eqs)
  show "length (log_counters log) = 2" by (simp add: eqs log_counters_def message_counter_def List.map_filter_def)
qed

theorem session_trace_witness:
  "\<exists>tr. kinetrace_main sample_natives toy_codec (\<lambda>_. None) sample_setup sample_consumer_io sample_bpf_config (Inl AgentNotEnabled)
     (\<lambda>_. ok_exchange []) [] [(sample_turn, sample_round)] sample_round = Inr tr \<and>
     wf_trace (written (cv_writer (tr_converter tr))) \<and> length (trace_counters (tr_converter tr)) = 2"
proof -
  let ?log = "collector_log sample_setup sample_consumer_io sample_bpf_config [(sample_turn, sample_round)] sample_round"
  obtain tr where tr: "kinetrace_main sample_natives toy_codec (\<lambda>_. None) sample_setup sample_consumer_io sample_bpf_config
      (Inl AgentNotEnabled) (\<lambda>_. ok_exchange []) [] [(sample_turn, sample_round)] sample_round = Inr tr"
    by (simp add: kinetrace_main_def sample_bpf_built sample_consumer_built user_clients_def Let_def case_prod_beta)
  have v: "valid_round (su_nprocs sample_setup) sample_round"
    by (simp add: valid_round_def sample_round_def interval_ok_def sample_interval_def)
  have u: "user_messages sample_natives ([] \<noteq> ([] :: (user_config \<times> exchange \<times> exchange) list)) (map fst [(sample_turn, sample_round)]) = []"
    by (simp add: sample_turn_def)
  have "wf_trace (written (cv_writer (tr_converter tr))) \<and> trace_counters (tr_converter tr) = values_on (tr_converter tr) (log_counters ?log)"
    using session_trace [OF tr _ _ v, unfolded u] v sample_collector_log(1) by simp
  then have "wf_trace (written (cv_writer (tr_converter tr)))" "length (trace_counters (tr_converter tr)) = 2"
    using sample_collector_log(2) by (simp_all add: values_on_def)
  with tr show ?thesis by blast
qed

end
